(* ===== verification/Prelude.thy ===== *)
theory Prelude
  imports Main "HOL-Library.Word" "HOL-Library.Monad_Syntax" "HOL-Library.Multiset"
begin

text \<open>
  The part of C that the sources of traccoon rely on, shared by every other theory.

  Memory. A memory object (an array, a heap block) is the list of its bytes, as a
  \<^typ>\<open>string\<close>. Reading or writing outside the object is undefined behaviour
  in C; here it is the value \<^term>\<open>None\<close> of an option, so that a theorem of the
  form \<open>f x = Some y\<close> also says that no access of \<open>f\<close> leaves its object.
  A pointer used for reading only is the rest of its object, from the byte it points to up to
  the end of the object (\<^typ>\<open>string\<close>, called a \<open>cptr\<close>); a function that writes
  takes the whole object and an index.

  Numbers. Targets are LP64: \<open>int\<close> has 32 bits, \<open>long\<close> has 64. Values are kept as
  unbounded integers and every conversion that can change a value is written out
  (\<open>to_int\<close>); signed additions that can overflow go through \<open>int_add\<close> and
  \<open>long_add\<close>, which are \<^term>\<open>None\<close> on overflow. Array indices that stay
  inside an object cannot overflow, since objects are smaller than 2^31 bytes.
\<close>

named_theorems mem_simps "equations of memory accesses"
named_theorems cstr_simps "C-string functions on a terminated string"

lemma bind_weak_cong [cong]: "x = y \<Longrightarrow> Option.bind x f = Option.bind y f"
  by simp

lemma bind_SomeE:
  assumes "Option.bind x f = Some y"
  obtains a where "x = Some a" "f a = Some y"
  using assms by (auto simp: bind_eq_Some_conv)

section \<open>Bytes and objects\<close>

abbreviation NUL :: char where
  "NUL \<equiv> CHR 0x00"

type_synonym cptr = string

lemma char_neq_commute [simp]:
  "Char b0 b1 b2 b3 b4 b5 b6 b7 \<noteq> x \<longleftrightarrow> x \<noteq> Char b0 b1 b2 b3 b4 b5 b6 b7"
  by auto

definition rd :: "string \<Rightarrow> nat \<Rightarrow> char option" where
  "rd b i = (if i < length b then Some (b ! i) else None)"

definition wr :: "string \<Rightarrow> nat \<Rightarrow> char \<Rightarrow> string option" where
  "wr b i c = (if i < length b then Some (b[i := c]) else None)"

text \<open>Accesses at a signed offset; a negative one is before the object.\<close>

definition rdi :: "string \<Rightarrow> int \<Rightarrow> char option" where
  "rdi b i = (if i < 0 then None else rd b (nat i))"

definition wri :: "string \<Rightarrow> int \<Rightarrow> char \<Rightarrow> string option" where
  "wri b i c = (if i < 0 then None else wr b (nat i) c)"

text \<open>The pointer \<open>b + i\<close>, used for reading.\<close>

definition ptr_at :: "string \<Rightarrow> int \<Rightarrow> cptr option" where
  "ptr_at b i = (if 0 \<le> i \<and> i \<le> int (length b) then Some (drop (nat i) b) else None)"

text \<open>The bytes of an automatic array of \<open>n\<close> bytes before its first write: whatever the
  stack held, so a parameter.\<close>

definition uninit :: "(nat \<Rightarrow> char) \<Rightarrow> nat \<Rightarrow> string" where
  "uninit stk n = map stk [0..<n]"

text \<open>\<open>memcpy (dst + i, src, n)\<close> of the bytes \<open>src\<close> into the object \<open>dst\<close>.\<close>

definition mem_put :: "string \<Rightarrow> nat \<Rightarrow> string \<Rightarrow> string option" where
  "mem_put dst i src =
     (if i + length src \<le> length dst
      then Some (take i dst @ src @ drop (i + length src) dst) else None)"

text \<open>The \<open>n\<close> bytes at a pointer.\<close>

definition mem_get :: "cptr \<Rightarrow> nat \<Rightarrow> string option" where
  "mem_get p n = (if n \<le> length p then Some (take n p) else None)"

lemma rd_Some [mem_simps]: "i < length b \<Longrightarrow> rd b i = Some (b ! i)"
  by (simp add: rd_def)

lemma rd_eq_Some_iff: "rd b i = Some c \<longleftrightarrow> i < length b \<and> b ! i = c"
  by (auto simp: rd_def)

lemma wr_Some [mem_simps]: "i < length b \<Longrightarrow> wr b i c = Some (b[i := c])"
  by (simp add: wr_def)

lemma wr_eq_Some_iff: "wr b i c = Some b' \<longleftrightarrow> i < length b \<and> b' = b[i := c]"
  by (auto simp: wr_def)

lemma rdi_Some [mem_simps]: "0 \<le> i \<Longrightarrow> i < int (length b) \<Longrightarrow> rdi b i = Some (b ! nat i)"
  by (simp add: rdi_def rd_def nat_less_iff)

lemma rdi_eq_Some_iff: "rdi b i = Some c \<longleftrightarrow> 0 \<le> i \<and> i < int (length b) \<and> b ! nat i = c"
  by (auto simp: rdi_def rd_def nat_less_iff)

lemma rd_append [mem_simps]: "rd (xs @ c # ys) (length xs) = Some c"
  by (simp add: rd_def)

lemma wr_append [mem_simps]: "wr (xs @ c # ys) (length xs) d = Some (xs @ d # ys)"
  by (simp add: wr_def)

lemma length_uninit [simp]: "length (uninit stk n) = n"
  by (simp add: uninit_def)

lemma mem_put_Some [mem_simps]:
  "i + length src \<le> length dst \<Longrightarrow>
   mem_put dst i src = Some (take i dst @ src @ drop (i + length src) dst)"
  by (simp add: mem_put_def)

lemma length_mem_put: "mem_put dst i src = Some dst' \<Longrightarrow> length dst' = length dst"
  by (auto simp: mem_put_def split: if_splits)

lemma mem_get_append [mem_simps]: "mem_get (xs @ ys) (length xs) = Some xs"
  by (simp add: mem_get_def)

section \<open>C strings\<close>

text \<open>\<open>cstr p\<close> is the string a pointer designates: its bytes before the first NUL.\<close>

fun cstr :: "cptr \<Rightarrow> string option" where
  "cstr [] = None"
| "cstr (c # cs) = (if c = NUL then Some [] else map_option ((#) c) (cstr cs))"

text \<open>A literal or any string value as a pointer to an object that holds it.\<close>

definition lit :: "string \<Rightarrow> cptr" where
  "lit s = s @ [NUL]"

definition strlen :: "cptr \<Rightarrow> nat option" where
  "strlen p = map_option length (cstr p)"

text \<open>\<open>strncmp (p, q, n) == 0\<close>.\<close>

fun strncmp0 :: "cptr \<Rightarrow> cptr \<Rightarrow> nat \<Rightarrow> bool option" where
  "strncmp0 p q 0 = Some True"
| "strncmp0 (c # cs) (d # ds) (Suc n) =
     (if c \<noteq> d then Some False else if c = NUL then Some True else strncmp0 cs ds n)"
| "strncmp0 _ _ (Suc n) = None"

text \<open>\<open>strcmp (p, q) == 0\<close>.\<close>

fun strcmp0 :: "cptr \<Rightarrow> cptr \<Rightarrow> bool option" where
  "strcmp0 (c # cs) (d # ds) =
     (if c \<noteq> d then Some False else if c = NUL then Some True else strcmp0 cs ds)"
| "strcmp0 _ _ = None"

fun starts_with :: "string \<Rightarrow> string \<Rightarrow> bool" where
  "starts_with [] p = True"
| "starts_with (n # ns) [] = False"
| "starts_with (n # ns) (c # cs) = (n = c \<and> starts_with ns cs)"

text \<open>\<open>strstr (p, needle)\<close>: the inner option is the possibly null result.\<close>

fun strstr :: "cptr \<Rightarrow> string \<Rightarrow> cptr option option" where
  "strstr [] needle = None"
| "strstr (c # cs) needle =
     (if starts_with needle (c # cs) then Some (Some (c # cs))
      else if c = NUL then Some None else strstr cs needle)"

text \<open>\<open>strchr (p, ch)\<close> for a character other than NUL.\<close>

fun strchr :: "cptr \<Rightarrow> char \<Rightarrow> cptr option option" where
  "strchr [] ch = None"
| "strchr (c # cs) ch =
     (if c = ch then Some (Some (c # cs)) else if c = NUL then Some None else strchr cs ch)"

text \<open>\<open>strncpy (dst, src, n)\<close>: at most \<open>n\<close> bytes of the source string, the rest of the
  \<open>n\<close> bytes filled with NUL; reads no byte past a NUL or the \<open>n\<close>th one.\<close>

fun strncpy_bytes :: "cptr \<Rightarrow> nat \<Rightarrow> string option" where
  "strncpy_bytes p 0 = Some []"
| "strncpy_bytes [] (Suc n) = None"
| "strncpy_bytes (c # cs) (Suc n) =
     (if c = NUL then Some (replicate (Suc n) NUL) else map_option ((#) c) (strncpy_bytes cs n))"

definition strncpy :: "string \<Rightarrow> cptr \<Rightarrow> nat \<Rightarrow> string option" where
  "strncpy dst src n = do { bs \<leftarrow> strncpy_bytes src n; mem_put dst 0 bs }"

lemma cstr_append [cstr_simps]: "NUL \<notin> set s \<Longrightarrow> cstr (s @ NUL # t) = Some s"
  by (induction s) auto

lemma cstr_SomeD: "cstr p = Some s \<Longrightarrow> NUL \<notin> set s \<and> (\<exists>t. p = s @ NUL # t)"
proof (induction p arbitrary: s)
  case Nil
  then show ?case by simp
next
  case (Cons c p)
  show ?case
  proof (cases "c = NUL")
    case True
    with Cons.prems show ?thesis by simp
  next
    case False
    with Cons.prems obtain s' where "cstr p = Some s'" "s = c # s'" by auto
    with Cons.IH [of s'] False show ?thesis by auto
  qed
qed

lemma cstr_eq_Some_iff: "cstr p = Some s \<longleftrightarrow> NUL \<notin> set s \<and> (\<exists>t. p = s @ NUL # t)"
  using cstr_SomeD cstr_append by blast

lemma cstr_lit [cstr_simps]: "NUL \<notin> set s \<Longrightarrow> cstr (lit s) = Some s"
  by (simp add: lit_def cstr_append)

lemma cstr_noNUL: "cstr p = Some s \<Longrightarrow> NUL \<notin> set s"
  by (simp add: cstr_eq_Some_iff)

lemma strlen_append [cstr_simps]: "NUL \<notin> set s \<Longrightarrow> strlen (s @ NUL # t) = Some (length s)"
  by (simp add: strlen_def cstr_append)

lemma strncpy_bytes_short [cstr_simps]:
  "NUL \<notin> set s \<Longrightarrow> length s < n \<Longrightarrow>
   strncpy_bytes (s @ NUL # t) n = Some (s @ replicate (n - length s) NUL)"
proof (induction s arbitrary: n)
  case Nil
  then show ?case by (cases n) auto
next
  case (Cons c s)
  then show ?case by (cases n) auto
qed

lemma strncpy_bytes_exact [cstr_simps]:
  "NUL \<notin> set s \<Longrightarrow> strncpy_bytes (s @ t) (length s) = Some s"
  by (induction s) auto

lemma length_strncpy_bytes: "strncpy_bytes p n = Some bs \<Longrightarrow> length bs = n"
  by (induction p n arbitrary: bs rule: strncpy_bytes.induct) (auto split: if_splits)

section \<open>Lists as memory\<close>

lemma rd_of_drop: "drop i b = x # xs \<Longrightarrow> rd b i = Some x"
  by (metis rd_def list.discI drop_eq_Nil not_less nth_via_drop)

lemma drop_Suc_of_drop: "drop i b = x # xs \<Longrightarrow> drop (Suc i) b = xs"
  by (metis drop_Suc drop_tl list.sel(3))

lemma drop_length_less: "drop i b = x # xs \<Longrightarrow> i < length b"
  by (metis drop_eq_Nil list.discI not_less)

lemma take_Suc_update: "c < length b \<Longrightarrow> take (Suc c) (b[c := x]) = take c b @ [x]"
  by (simp add: take_Suc_conv_app_nth)

lemma take_Suc_drop: "i < length xs \<Longrightarrow> take (Suc n) (drop i xs) = xs ! i # take n (drop (Suc i) xs)"
  by (simp add: Cons_nth_drop_Suc [symmetric])

lemma min_add_diff: "min a b + (b - a) = (b :: nat)"
  by simp

lemma strncpy_bytes_terminated:
  assumes "NUL \<notin> set s"
  shows "strncpy_bytes (s @ NUL # t) n = Some (take n (s @ replicate n NUL))"
proof (cases "length s < n")
  case True
  with assms show ?thesis by (simp add: strncpy_bytes_short)
next
  case False
  then have "s @ NUL # t = take n s @ (drop n s @ NUL # t)" "n = length (take n s)" by simp_all
  then show ?thesis using strncpy_bytes_exact [of "take n s" "drop n s @ NUL # t"] assms False
    by (metis append_take_drop_id in_set_takeD length_take min.absorb4 not_less take_append diff_is_0_eq' append_Nil2 take0)
qed

lemma rd_lit: "n < length s \<Longrightarrow> rd (lit s) n = Some (s ! n)"
  by (simp add: rd_def lit_def nth_append)

lemma drop_update_same: "c \<le> i \<Longrightarrow> rd b i = Some x \<Longrightarrow> drop i (b[c := x]) = drop i b"
  by (cases "c = i") (auto simp: rd_eq_Some_iff)

lemma two_le_lengthE:
  assumes "2 \<le> length s"
  obtains y z s' where "s = y # z # s'"
  using assms by (cases s; cases "tl s") auto

section \<open>Character classes and numbers\<close>

definition isdigit :: "char \<Rightarrow> bool" where
  "isdigit c \<longleftrightarrow> (let n = of_char c :: nat in 48 \<le> n \<and> n \<le> 57)"

definition isspace :: "char \<Rightarrow> bool" where
  "isspace c \<longleftrightarrow> (let n = of_char c :: nat in n = 32 \<or> (9 \<le> n \<and> n \<le> 13))"

definition tolower :: "char \<Rightarrow> char" where
  "tolower c = (let n = of_char c :: nat in if 65 \<le> n \<and> n \<le> 90 then char_of (n + 32) else c)"

text \<open>Conversion to \<open>int\<close>: the low 32 bits, read as two's complement.\<close>

definition to_int :: "int \<Rightarrow> int" where
  "to_int x = signed_take_bit 31 x"

definition int_range :: "int \<Rightarrow> bool" where
  "int_range x \<longleftrightarrow> - (2 ^ 31) \<le> x \<and> x < 2 ^ 31"

definition long_range :: "int \<Rightarrow> bool" where
  "long_range x \<longleftrightarrow> - (2 ^ 63) \<le> x \<and> x < 2 ^ 63"

definition int_add :: "int \<Rightarrow> int \<Rightarrow> int option" where
  "int_add a b = (if int_range (a + b) then Some (a + b) else None)"

definition long_add :: "int \<Rightarrow> int \<Rightarrow> int option" where
  "long_add a b = (if long_range (a + b) then Some (a + b) else None)"

definition digit_val :: "char \<Rightarrow> nat" where
  "digit_val c = of_char c - 48"

text \<open>The value of the decimal digits at a pointer.\<close>

fun read_digits :: "cptr \<Rightarrow> nat \<Rightarrow> nat option" where
  "read_digits [] acc = None"
| "read_digits (c # cs) acc =
     (if isdigit c then read_digits cs (10 * acc + digit_val c) else Some acc)"

fun skip_space :: "cptr \<Rightarrow> cptr" where
  "skip_space [] = []"
| "skip_space (c # cs) = (if isspace c then skip_space cs else c # cs)"

text \<open>\<open>strtoul (p, NULL, 10)\<close> and \<open>strtol (p, NULL, 10)\<close>: white space, an optional
  sign, digits; saturating on overflow; 0 without digits.\<close>

definition strtoul :: "cptr \<Rightarrow> int option" where
  "strtoul p =
     (case skip_space p of
        [] \<Rightarrow> None
      | c # cs \<Rightarrow>
          do { n \<leftarrow> read_digits (if c = CHR ''-'' \<or> c = CHR ''+'' then cs else c # cs) 0;
               Some (if 2 ^ 64 \<le> n then 2 ^ 64 - 1
                     else if c = CHR ''-'' then (- int n) mod 2 ^ 64 else int n) })"

definition strtol :: "cptr \<Rightarrow> int option" where
  "strtol p =
     (case skip_space p of
        [] \<Rightarrow> None
      | c # cs \<Rightarrow>
          do { n \<leftarrow> read_digits (if c = CHR ''-'' \<or> c = CHR ''+'' then cs else c # cs) 0;
               Some (if c = CHR ''-'' then max (- (2 ^ 63)) (- int n)
                     else min (2 ^ 63 - 1) (int n)) })"

text \<open>Characters that \<open>printf\<close> formats use.\<close>

definition newline :: string where "newline = [CHR 0x0A]"
definition tab :: string where "tab = [CHR 0x09]"

text \<open>The text \<open>printf\<close> writes for \<open>%d\<close>.\<close>

fun dec_nat :: "nat \<Rightarrow> string" where
  "dec_nat n = (if n < 10 then [char_of (48 + n)] else dec_nat (n div 10) @ [char_of (48 + n mod 10)])"

declare dec_nat.simps [simp del]

definition dec :: "int \<Rightarrow> string" where
  "dec i = (if i < 0 then CHR ''-'' # dec_nat (nat (- i)) else dec_nat (nat i))"

text \<open>\<open>snprintf (buf, n, ...)\<close> of the text \<open>s\<close>, for a positive \<open>n\<close>: at most \<open>n - 1\<close> bytes and a
  NUL are written; the result is the length of the whole text.\<close>

definition snprintf :: "string \<Rightarrow> nat \<Rightarrow> string \<Rightarrow> (int \<times> string) option" where
  "snprintf buf n s = do {
     buf \<leftarrow> mem_put buf 0 (take (n - 1) s @ [NUL]);
     Some (int (length s), buf) }"

lemma snprintf_Some [mem_simps]:
  "min (n - 1) (length s) < length buf \<Longrightarrow>
   snprintf buf n s = Some (int (length s), take (n - 1) s @ NUL # drop (Suc (min (n - 1) (length s))) buf)"
  by (simp add: snprintf_def mem_put_Some min.commute)

lemma to_int_id: "int_range x \<Longrightarrow> to_int x = x"
  by (simp add: to_int_def int_range_def signed_take_bit_int_eq_self_iff)

lemma to_int_wrap:
  assumes "2 ^ 31 \<le> x" "x < 2 ^ 32"
  shows "to_int x = x - 2 ^ 32"
proof -
  have "(x + 2147483648) mod 4294967296 = (x - 2147483648 + 4294967296) mod 4294967296"
    by (simp add: algebra_simps)
  also have "\<dots> = x - 2147483648" unfolding mod_add_self2 using assms by simp
  finally show ?thesis by (simp add: to_int_def signed_take_bit_eq_take_bit_shift take_bit_eq_mod)
qed

lemma int_range_to_int: "int_range (to_int x)"
  using signed_take_bit_int_greater_eq_minus_exp [of 31 x] signed_take_bit_int_less_exp [of 31 x]
  by (simp add: to_int_def int_range_def)

lemma isdigit_NUL [simp]: "\<not> isdigit NUL"
  by (simp add: isdigit_def)

lemma isdigit_char_of [simp]: "n < 10 \<Longrightarrow> isdigit (char_of (48 + n :: nat))"
  by (simp add: isdigit_def Let_def)

lemma digit_val_char_of [simp]: "n < 10 \<Longrightarrow> digit_val (char_of (48 + n :: nat)) = n"
  by (simp add: digit_val_def)

lemma dec_nat_neq_Nil [simp]: "dec_nat n \<noteq> []"
  by (subst dec_nat.simps) simp

lemma dec_nat_digits: "c \<in> set (dec_nat n) \<Longrightarrow> isdigit c"
proof (induction n rule: dec_nat.induct)
  case (1 n)
  show ?case
  proof (cases "n < 10")
    case True
    with "1.prems" show ?thesis by (simp add: dec_nat.simps [of n])
  next
    case False
    with 1 show ?thesis by (auto simp: dec_nat.simps [of n])
  qed
qed

lemma read_digits_append:
  assumes "\<forall>c \<in> set ds. isdigit c"
  shows "read_digits (ds @ p) acc =
    read_digits p (foldl (\<lambda>a c. 10 * a + digit_val c) acc ds)"
  using assms by (induction ds arbitrary: acc) auto

lemma foldl_dec_nat: "foldl (\<lambda>a c. 10 * a + digit_val c) 0 (dec_nat n) = n"
proof (induction n rule: dec_nat.induct)
  case (1 n)
  then show ?case by (cases "n < 10") (simp_all add: dec_nat.simps [of n])
qed

lemma read_digits_dec_nat:
  "\<not> isdigit c \<Longrightarrow> read_digits (dec_nat n @ c # p) 0 = Some n"
  by (subst read_digits_append) (auto simp: foldl_dec_nat dest: dec_nat_digits)

lemma dec_nat_Cons:
  obtains d ds where "dec_nat n = d # ds" "isdigit d"
  using dec_nat_neq_Nil [of n] dec_nat_digits [of _ n] by (cases "dec_nat n") auto

lemma isdigit_not: "isdigit d \<Longrightarrow> d \<noteq> CHR ''d'' \<and> d \<noteq> CHR ''l'' \<and> d \<noteq> CHR ''i'' \<and> d \<noteq> CHR ''e'' \<and> d \<noteq> NUL \<and>
    d \<noteq> CHR ''-'' \<and> d \<noteq> CHR ''+'' \<and> d \<noteq> CHR '':'' \<and> \<not> isspace d"
  by (auto simp: isdigit_def isspace_def Let_def)

lemma strtoul_dec_nat:
  assumes "int n < 2 ^ 64" "\<not> isdigit c"
  shows "strtoul (dec_nat n @ c # p) = Some (int n)"
proof -
  obtain d ds where d: "dec_nat n = d # ds" "isdigit d" by (rule dec_nat_Cons)
  with isdigit_not [OF d(2)] have "skip_space (dec_nat n @ c # p) = d # ds @ c # p" "d \<noteq> CHR ''-''" "d \<noteq> CHR ''+''" by auto
  moreover have "\<not> 2 ^ 64 \<le> n" using assms(1) by simp
  ultimately show ?thesis using read_digits_dec_nat [OF assms(2), of n p] d by (simp add: strtoul_def)
qed

lemma strtol_dec_nat:
  assumes "int n < 2 ^ 63" "\<not> isdigit c"
  shows "strtol (dec_nat n @ c # p) = Some (int n)"
proof -
  obtain d ds where d: "dec_nat n = d # ds" "isdigit d" by (rule dec_nat_Cons)
  with isdigit_not [OF d(2)] have "skip_space (dec_nat n @ c # p) = d # ds @ c # p" "d \<noteq> CHR ''-''" "d \<noteq> CHR ''+''" by auto
  with read_digits_dec_nat [OF assms(2), of n p] d assms(1) show ?thesis by (simp add: strtol_def)
qed

lemma strtol_dec:
  assumes "int_range i" "\<not> isdigit c"
  shows "strtol (dec i @ c # p) = Some i"
proof (cases "i < 0")
  case True
  have "\<not> isspace CHR ''-''" by (simp add: isspace_def)
  with True read_digits_dec_nat [OF assms(2), of "nat (- i)" p] assms(1) show ?thesis
    by (simp add: strtol_def dec_def int_range_def)
next
  case False
  with strtol_dec_nat [of "nat i" c p] assms show ?thesis by (simp add: dec_def int_range_def)
qed

end
