(* ===== verification/World.thy ===== *)
theory World
  imports Prelude
begin

text \<open>
  The world the tracker's functions act on, and the services of the operating system that they
  call. \<open>world\<close> is the state that is passed through every function with an effect: the
  database behind the SQLite handle, the log of what was done to sockets, and the numbers of
  clock readings and of looks at the input of sockets taken so far. \<open>os\<close> holds the system calls as functions: they are not code of
  the repository, so every definition takes them as a parameter, and what a property relies on
  is a hypothesis about them. Diagnostics printed to the terminal are not modelled.
\<close>

text \<open>Effects on a socket: bytes the kernel accepted, a close, input discarded.\<close>

datatype event = Sent int string | Closed int | Flushed int

record 'db world =
  wdb :: 'db
  events :: "event list"
  ticks :: nat
  polls :: nat

text \<open>
  \<open>os_send fd bytes\<close> is the result of \<open>send\<close> (bytes accepted, or -1); \<open>os_time n\<close> the
  seconds the \<open>n\<close>th call of \<open>gettimeofday\<close> gives, \<^term>\<open>None\<close> if it fails;
  \<open>os_pton4\<close> and \<open>os_pton6\<close> are \<open>inet_pton\<close>; \<open>os_stack\<close> gives the bytes that an
  automatic array holds before it is written; \<open>os_recv fd n\<close> the bytes the \<open>n\<close>th \<open>recv\<close> with
  \<open>MSG_PEEK\<close> finds on a socket, \<^term>\<open>None\<close> for the result -1; \<open>os_peer fd n\<close> the peer address
  after that \<open>recv\<close> as \<open>getpeername\<close> and \<open>inet_ntop\<close> give it: whether it is of the IPv6 family, and
  its text, \<^term>\<open>None\<close> if \<open>getpeername\<close> fails.
\<close>

record os =
  os_send :: "int \<Rightarrow> string \<Rightarrow> int"
  os_time :: "nat \<Rightarrow> int option"
  os_pton4 :: "string \<Rightarrow> string option"
  os_pton6 :: "string \<Rightarrow> string option"
  os_stack :: "nat \<Rightarrow> char"
  os_recv :: "int \<Rightarrow> nat \<Rightarrow> string option"
  os_peer :: "int \<Rightarrow> nat \<Rightarrow> (bool \<times> string) option"

definition log_event :: "event \<Rightarrow> ('db, 'more) world_scheme \<Rightarrow> ('db, 'more) world_scheme" where
  "log_event ev w = w\<lparr>events := events w @ [ev]\<rparr>"

definition gettimeofday :: "os \<Rightarrow> 'db world \<Rightarrow> int option \<times> 'db world" where
  "gettimeofday e w = (os_time e (ticks w), w\<lparr>ticks := Suc (ticks w)\<rparr>)"

text \<open>The bytes a socket received, in order.\<close>

fun sent_bytes :: "int \<Rightarrow> event list \<Rightarrow> string" where
  "sent_bytes fd [] = []"
| "sent_bytes fd (Sent fd' bs # evs) = (if fd' = fd then bs @ sent_bytes fd evs else sent_bytes fd evs)"
| "sent_bytes fd (ev # evs) = sent_bytes fd evs"

lemma sent_bytes_append [simp]: "sent_bytes fd (xs @ ys) = sent_bytes fd xs @ sent_bytes fd ys"
  by (induction fd xs rule: sent_bytes.induct) auto

definition received :: "int \<Rightarrow> ('db, 'more) world_scheme \<Rightarrow> string" where
  "received fd w = sent_bytes fd (events w)"

text \<open>\<open>send\<close> takes the whole buffer: the hypothesis under which complete answers arrive.\<close>

definition full_send :: "os \<Rightarrow> bool" where
  "full_send e \<longleftrightarrow> (\<forall>fd bs. os_send e fd bs = int (length bs))"

definition crlf :: string where
  "crlf = [CHR 0x0D, CHR 0x0A]"

end
