(* ===== verification/Netlib.thy ===== *)
theory Netlib
  imports World
begin

text \<open>
  The HTTP client of the getpeers tool (\<^verbatim>\<open>src/getpeers/net.c\<close>, \<^verbatim>\<open>src/getpeers/net.h\<close>,
  \<^verbatim>\<open>src/getpeers/string.c\<close>). The calls of the operating system are the record \<open>net\<close>: its functions
  that depend on the instant take the number of calls made so far, which the state counts. A null
  pointer is \<^term>\<open>None\<close> in the inner option, use of one is \<^term>\<open>None\<close> in the outer.
\<close>

definition RESPONSE_BUFFER_CHUNK :: nat where "RESPONSE_BUFFER_CHUNK = 512"
definition MAX_SEND_RETRY_COUNT :: int where "MAX_SEND_RETRY_COUNT = 5"

section \<open>Joining strings\<close>

fun sum_lengths :: "cptr list \<Rightarrow> nat option" where
  "sum_lengths [] = Some 0"
| "sum_lengths (p # ps) = do { n \<leftarrow> strlen p; m \<leftarrow> sum_lengths ps; Some (n + m) }"

text \<open>The loop that copies the parts behind each other; the result is the buffer and the offset.\<close>

fun copy_parts :: "string \<Rightarrow> nat \<Rightarrow> cptr list \<Rightarrow> (string \<times> nat) option" where
  "copy_parts rv off [] = Some (rv, off)"
| "copy_parts rv off (p # ps) = do {
     n \<leftarrow> strlen p;
     bs \<leftarrow> strncpy_bytes p n;
     rv \<leftarrow> mem_put rv off bs;
     copy_parts rv (off + n) ps }"

text \<open>\<open>heap\<close> is the content of fresh memory, \<^term>\<open>None\<close> if there is none.\<close>

definition string_merge :: "(nat \<Rightarrow> char) option \<Rightarrow> cptr list \<Rightarrow> string option option" where
  "string_merge heap parts = do {
     len \<leftarrow> sum_lengths parts;
     (case heap of
        None \<Rightarrow> Some None
      | Some heap \<Rightarrow> do {
          (rv, off) \<leftarrow> copy_parts (uninit heap (len + 1)) 0 parts;
          rv \<leftarrow> wr rv off NUL;
          Some (Some rv) }) }"

section \<open>URLs\<close>

text \<open>The pointers of the code lead into the buffer that is parsed: here they are positions in it.\<close>

record 'p url_components =
  url_status :: int
  url_protocol :: "'p option"
  url_credentials :: "'p option"
  url_host :: "'p option"
  url_port :: "'p option"
  url_path :: "'p option"

definition no_url :: "'p url_components" where
  "no_url = \<lparr>url_status = 0, url_protocol = None, url_credentials = None, url_host = None, url_port = None, url_path = None\<rparr>"

text \<open>\<open>strstr\<close> and \<open>strchr\<close> from position \<open>p\<close> of a buffer, with the position as result.\<close>

definition find_str :: "string \<Rightarrow> nat \<Rightarrow> string \<Rightarrow> nat option option" where
  "find_str b p s = map_option (map_option (\<lambda>r. length b - length r)) (strstr (drop p b) s)"

definition find_chr :: "string \<Rightarrow> nat \<Rightarrow> char \<Rightarrow> nat option option" where
  "find_chr b p c = map_option (map_option (\<lambda>r. length b - length r)) (strchr (drop p b) c)"

text \<open>A separator is cut out: the position behind it.\<close>

definition cut_at :: "string \<Rightarrow> nat \<Rightarrow> nat \<Rightarrow> (nat \<times> string) option" where
  "cut_at b i n = do { b \<leftarrow> wr b i NUL; Some (i + n, b) }"

definition parse_url_destructive :: "string \<Rightarrow> (nat url_components \<times> string) option" where
  "parse_url_destructive url = do {
     sep \<leftarrow> find_str url 0 ''://'';
     (case sep of
        None \<Rightarrow> Some (no_url\<lparr>url_status := -1\<rparr>, url)
      | Some i \<Rightarrow> do {
          (p, url) \<leftarrow> cut_at url i 3;
          let rv = no_url\<lparr>url_protocol := Some 0\<rparr>;
          at \<leftarrow> find_chr url p (CHR ''@'');
          (rv, p, url) \<leftarrow>
            (case at of
               None \<Rightarrow> Some (rv, p, url)
             | Some j \<Rightarrow> do { (p', url) \<leftarrow> cut_at url j 1; Some (rv\<lparr>url_credentials := Some p\<rparr>, p', url) });
          let rv = rv\<lparr>url_host := Some p\<rparr>;
          slash \<leftarrow> find_chr url p (CHR ''/'');
          if slash = None then Some (rv\<lparr>url_status := -1\<rparr>, url)
          else do {
            colon \<leftarrow> find_chr url p (CHR '':'');
            (rv, p, url) \<leftarrow>
              (case colon of
                 None \<Rightarrow> Some (rv, p, url)
               | Some j \<Rightarrow> do { (p', url) \<leftarrow> cut_at url j 1; Some (rv\<lparr>url_port := Some p'\<rparr>, p', url) });
            slash \<leftarrow> find_chr url p (CHR ''/'');
            k \<leftarrow> slash;
            (p, url) \<leftarrow> cut_at url k 1;
            Some (rv\<lparr>url_path := Some p\<rparr>, url) } }) }"

text \<open>The components as pointers to the finished buffer.\<close>

definition url_pointers :: "string \<Rightarrow> nat url_components \<Rightarrow> cptr url_components" where
  "url_pointers b u = \<lparr>url_status = url_status u,
     url_protocol = map_option (\<lambda>p. drop p b) (url_protocol u),
     url_credentials = map_option (\<lambda>p. drop p b) (url_credentials u),
     url_host = map_option (\<lambda>p. drop p b) (url_host u),
     url_port = map_option (\<lambda>p. drop p b) (url_port u),
     url_path = map_option (\<lambda>p. drop p b) (url_path u)\<rparr>"

section \<open>The network\<close>

text \<open>\<open>nt_getaddrinfo host port family\<close> gives the status and the list of addresses; \<open>nt_connect\<close> whether
  the socket could be connected; \<open>nt_send n\<close> and \<open>nt_recv n\<close> are the results of the \<open>n\<close>th call,
  \<^term>\<open>None\<close> for the result -1 of \<open>recv\<close>; \<open>nt_heap n\<close> is fresh memory.\<close>

datatype family = AF_UNSPEC | AF_INET | AF_INET6

record net =
  nt_getaddrinfo :: "string \<Rightarrow> string \<Rightarrow> family \<Rightarrow> int \<times> string list"
  nt_socket :: "string \<Rightarrow> int"
  nt_connect :: "int \<Rightarrow> string \<Rightarrow> bool"
  nt_send :: "nat \<Rightarrow> string \<Rightarrow> int"
  nt_recv :: "nat \<Rightarrow> string option"
  nt_heap :: "nat \<Rightarrow> (nat \<Rightarrow> char) option"

text \<open>The state: what was sent and closed, and the number of calls.\<close>

record link =
  lk_events :: "event list"
  lk_calls :: nat

definition lk_log :: "event list \<Rightarrow> link \<Rightarrow> link" where
  "lk_log ev k = k\<lparr>lk_events := lk_events k @ ev, lk_calls := Suc (lk_calls k)\<rparr>"

text \<open>The loop over the addresses: the last socket and the last status.\<close>

fun connect_loop :: "net \<Rightarrow> string list \<Rightarrow> int \<Rightarrow> int \<Rightarrow> link \<Rightarrow> int \<times> int \<times> link" where
  "connect_loop t [] sock status k = (sock, status, k)"
| "connect_loop t (a # as) sock status k =
     (let sock = nt_socket t a in
      if sock = -1 then connect_loop t as sock status k
      else if nt_connect t sock a then (sock, 0, k)
      else connect_loop t as sock (-1) (lk_log [Closed sock] k))"

text \<open>The loop that sends the request; \<open>bytes\<close> were sent so far. The result is \<open>it_bytes\<close> of the
  last round.\<close>

function send_loop :: "net \<Rightarrow> int \<Rightarrow> cptr \<Rightarrow> int \<Rightarrow> int \<Rightarrow> int \<Rightarrow> link \<Rightarrow> (int \<times> link) option" where
  "send_loop t sock request bytes status it_bytes k = do {
     n \<leftarrow> strlen request;
     if bytes < int n \<and> status < MAX_SEND_RETRY_COUNT then do {
       p \<leftarrow> ptr_at request bytes;
       data \<leftarrow> mem_get p (n - nat bytes);
       let r = nt_send t (lk_calls k) data;
       let k = lk_log [Sent sock (take (nat r) data)] k;
       if r < 0 then Some (r, k) else send_loop t sock request (bytes + r) (status + 1) r k }
     else Some (it_bytes, k) }"
  by pat_completeness auto
termination
  by (relation "measure (\<lambda>(t, sock, request, bytes, status, it, k). nat (MAX_SEND_RETRY_COUNT - status))") auto

declare send_loop.simps [simp del]

text \<open>The loop that receives: \<open>response\<close> is the buffer, all of which has been used so far if it goes on.
  The result is the buffer and the number of bytes.\<close>

fun recv_loop :: "nat \<Rightarrow> net \<Rightarrow> string \<Rightarrow> nat \<Rightarrow> link \<Rightarrow> (string \<times> nat \<times> link) option" where
  "recv_loop 0 t response bytes k = None"
| "recv_loop (Suc n) t response bytes k = do {
     let offset = length response;
     heap \<leftarrow> nt_heap t (lk_calls k);
     let response = response @ uninit heap RESPONSE_BUFFER_CHUNK;
     (case nt_recv t (lk_calls k) of
        None \<Rightarrow> Some (response, bytes, lk_log [] k)
      | Some data \<Rightarrow> do {
          response \<leftarrow> (if length data \<le> RESPONSE_BUFFER_CHUNK then mem_put response offset data else None);
          if length data = RESPONSE_BUFFER_CHUNK
          then recv_loop n t response (bytes + length data) (lk_log [] k)
          else Some (response, bytes + length data, lk_log [] k) }) }"

definition request_parts :: "cptr \<Rightarrow> cptr \<Rightarrow> cptr \<Rightarrow> cptr list" where
  "request_parts host port path = [
     lit ''GET /'', path, lit ('' HTTP/1.1'' @ crlf),
     lit ''Host: '', host, lit '':'', port, lit crlf,
     lit ''User-Agent: '', lit ''traccoon/netlib'', lit crlf,
     lit ''Accept-Encoding: '', lit ''text/plain'', lit crlf,
     lit ''Connection: '', lit ''close'', lit crlf,
     lit crlf]"

text \<open>One request on a connected socket. A null \<open>request_text\<close> is used without a check.\<close>

definition http_exchange ::
    "nat \<Rightarrow> net \<Rightarrow> int \<Rightarrow> cptr \<Rightarrow> cptr \<Rightarrow> cptr \<Rightarrow> link \<Rightarrow> (int \<times> string option \<times> link) option" where
  "http_exchange n t sock host port path k = do {
     request_text \<leftarrow> string_merge (nt_heap t (lk_calls k)) (request_parts host port path);
     request_text \<leftarrow> request_text;
     (it_bytes, k) \<leftarrow> send_loop t sock request_text 0 0 0 k;
     if it_bytes < 0 then Some (-1, None, k)
     else do {
       (response, bytes, k) \<leftarrow> recv_loop n t [] 0 k;
       response \<leftarrow> wr response bytes NUL;
       http \<leftarrow> strncmp0 response (lit ''HTTP/'') 5;
       Some (if http then int bytes else -1, Some response, lk_log [Closed sock] k) } }"

definition http_get ::
    "nat \<Rightarrow> net \<Rightarrow> cptr url_components \<Rightarrow> family \<Rightarrow> link \<Rightarrow> (int \<times> string option \<times> link) option" where
  "http_get n t url hints k =
     (case (url_host url, url_port url, url_path url) of
        (Some host, Some port, Some path) \<Rightarrow> do {
          h \<leftarrow> cstr host;
          p \<leftarrow> cstr port;
          (case nt_getaddrinfo t h p hints of (status, conninfo) \<Rightarrow>
             if status = 0 \<and> conninfo \<noteq> [] then
               (case connect_loop t conninfo (-1) status k of (sock, status, k) \<Rightarrow>
                  if sock \<noteq> -1 \<and> status = 0 then http_exchange n t sock host port path k
                  else Some (-1, None, k))
             else Some (-1, None, k)) }
      | _ \<Rightarrow> Some (-1, None, k))"

end
