(* ===== verification/Benc.thy ===== *)
theory Benc
  imports Prelude
begin

text \<open>
  The bencode reader of \<^verbatim>\<open>src/benc/benc.c\<close>. A \<open>char*\<close> into a buffer is the buffer \<open>b\<close> with the
  position \<open>p\<close> of the pointer, since the offsets that the code adds can be negative. Offsets and
  lengths are \<open>int\<close>s: an addition that overflows is undefined, a conversion is cut to 32 bits. The
  loops over containers need not end on a malformed buffer, so the functions that run them take
  fuel, one unit for each call and each round; \<^term>\<open>None\<close> is undefined behaviour or fuel used up.
\<close>

datatype benc_entity_type_t = T_FAIL | T_DICT | T_LIST | T_INT | T_STRING

text \<open>The number of digits at a pointer.\<close>

fun digit_count :: "cptr \<Rightarrow> nat option" where
  "digit_count [] = None"
| "digit_count (c # p) = (if isdigit c then map_option Suc (digit_count p) else Some 0)"

definition benc_entity_type :: "string \<Rightarrow> int \<Rightarrow> benc_entity_type_t option" where
  "benc_entity_type b p = do {
     x \<leftarrow> rdi b p;
     if x = CHR ''d'' then Some T_DICT
     else if x = CHR ''l'' then Some T_LIST
     else if x = CHR ''i'' then Some T_INT
     else do {
       i \<leftarrow> digit_count (drop (nat p) b);
       y \<leftarrow> rdi b (p + int i);
       Some (if y = CHR '':'' \<and> i > 0 then T_STRING else T_FAIL) } }"

definition benc_string_length :: "string \<Rightarrow> int \<Rightarrow> int option" where
  "benc_string_length b p = do {
     t \<leftarrow> benc_entity_type b p;
     if t \<noteq> T_STRING then Some (-1) else map_option to_int (strtoul (drop (nat p) b)) }"

text \<open>The loop \<open>for(i=0;buf[i]!=':';i++)\<close>.\<close>

fun colon_index :: "cptr \<Rightarrow> nat option" where
  "colon_index [] = None"
| "colon_index (c # p) = (if c \<noteq> CHR '':'' then map_option Suc (colon_index p) else Some 0)"

definition benc_string_data_offset :: "string \<Rightarrow> int \<Rightarrow> int option" where
  "benc_string_data_offset b p = do {
     t \<leftarrow> benc_entity_type b p;
     if t \<noteq> T_STRING then Some (-1) else map_option (\<lambda>i. int i + 1) (colon_index (drop (nat p) b)) }"

definition benc_int_value :: "string \<Rightarrow> int \<Rightarrow> int \<Rightarrow> int option" where
  "benc_int_value b p defval = do {
     t \<leftarrow> benc_entity_type b p;
     if t \<noteq> T_INT then Some defval else do {
       x \<leftarrow> rdi b (p + 1);
       let i = (if x = CHR ''-'' then 1 else 0);
       n \<leftarrow> digit_count (drop (nat (p + i + 1)) b);
       let i = i + int n;
       y \<leftarrow> rdi b (p + i + 1);
       if i \<le> 1 \<or> y \<noteq> CHR ''e'' then Some defval
       else map_option to_int (strtol (drop (nat (p + 1)) b)) } }"

text \<open>The cases \<open>T_INT\<close> and \<open>T_STRING\<close> of \<open>benc_entity_length\<close>.\<close>

definition int_entity_length :: "string \<Rightarrow> int \<Rightarrow> int option" where
  "int_entity_length b p = do {
     x \<leftarrow> rdi b (p + 1);
     let i = (if x = CHR ''-'' then 2 else 1);
     n \<leftarrow> digit_count (drop (nat (p + i)) b);
     let i = i + int n;
     y \<leftarrow> rdi b (p + i);
     Some (if y = CHR ''e'' then i + 1 else -1) }"

definition string_entity_length :: "string \<Rightarrow> int \<Rightarrow> int option" where
  "string_entity_length b p = do {
     i \<leftarrow> digit_count (drop (nat p) b);
     y \<leftarrow> rdi b (p + int i);
     if y = CHR '':'' \<and> i > 0 then do {
       conv \<leftarrow> strtol (drop (nat p) b);
       s \<leftarrow> long_add (int i) conv;
       s \<leftarrow> long_add s 1;
       Some (to_int s) }
     else Some (-1) }"

text \<open>The parameter \<open>initial_offset\<close> of the source is used in diagnostics only.\<close>

fun benc_entity_length :: "nat \<Rightarrow> string \<Rightarrow> int \<Rightarrow> int option"
  and dict_length :: "nat \<Rightarrow> string \<Rightarrow> int \<Rightarrow> int \<Rightarrow> int \<Rightarrow> int option"
  and list_length :: "nat \<Rightarrow> string \<Rightarrow> int \<Rightarrow> int \<Rightarrow> int option" where
  "benc_entity_length 0 b p = None"
| "benc_entity_length (Suc n) b p = do {
     t \<leftarrow> benc_entity_type b p;
     (case t of
        T_DICT \<Rightarrow> dict_length n b p 0 0
      | T_LIST \<Rightarrow> list_length n b p 0
      | T_INT \<Rightarrow> int_entity_length b p
      | T_STRING \<Rightarrow> string_entity_length b p
      | T_FAIL \<Rightarrow> Some (-1)) }"
| "dict_length 0 b p offset item_index = None"
| "dict_length (Suc n) b p offset item_index = do {
     x \<leftarrow> rdi b (p + offset + 1);
     if x \<noteq> CHR ''e'' \<and> x \<noteq> NUL then do {
       t \<leftarrow> (if item_index mod 2 = 0 then benc_entity_type b (p + offset + 1) else Some T_STRING);
       if t \<noteq> T_STRING then Some (-1) else do {
         item_length \<leftarrow> benc_entity_length n b (p + offset + 1);
         if item_length = -1 then Some (-1) else do {
           offset \<leftarrow> int_add offset item_length;
           item_index \<leftarrow> int_add item_index 1;
           dict_length n b p offset item_index } } }
     else Some (if x = CHR ''e'' \<and> item_index mod 2 = 0 then offset + 2 else -1) }"
| "list_length 0 b p offset = None"
| "list_length (Suc n) b p offset = do {
     x \<leftarrow> rdi b (p + offset + 1);
     if x \<noteq> CHR ''e'' \<and> x \<noteq> NUL then do {
       item_length \<leftarrow> benc_entity_length n b (p + offset + 1);
       if item_length = -1 then Some (-1) else do {
         offset \<leftarrow> int_add offset item_length;
         list_length n b p offset } }
     else Some (if x = CHR ''e'' then offset + 2 else -1) }"

section \<open>Lookup\<close>

fun list_item_loop :: "nat \<Rightarrow> string \<Rightarrow> int \<Rightarrow> int \<Rightarrow> int \<Rightarrow> int \<Rightarrow> int option" where
  "list_item_loop 0 b p item offset cur_item = None"
| "list_item_loop (Suc n) b p item offset cur_item = do {
     x \<leftarrow> rdi b (p + offset + 1);
     if x \<noteq> CHR ''e'' \<and> x \<noteq> NUL then
       (if cur_item = item then Some (offset + 1)
        else do {
          len \<leftarrow> benc_entity_length n b (p + offset + 1);
          offset \<leftarrow> int_add offset len;
          cur_item \<leftarrow> int_add cur_item 1;
          list_item_loop n b p item offset cur_item })
     else Some (-1) }"

definition benc_list_item_offset :: "nat \<Rightarrow> string \<Rightarrow> int \<Rightarrow> int \<Rightarrow> int option" where
  "benc_list_item_offset n b p item =
     (if item < 0 then Some (-1) else do {
        t \<leftarrow> benc_entity_type b p;
        if t \<noteq> T_LIST then Some (-1) else list_item_loop n b p item 0 0 })"

text \<open>The length of the key is compared as a \<open>size_t\<close>. A second \<open>strncmp\<close> result of
  \<^term>\<open>True\<close> is the value 0.\<close>

definition key_matches :: "string \<Rightarrow> int \<Rightarrow> cptr \<Rightarrow> bool option" where
  "key_matches b p key = do {
     k \<leftarrow> strlen key;
     l \<leftarrow> benc_string_length b p;
     if int k = l mod 2 ^ 64 then do {
       d \<leftarrow> benc_string_data_offset b p;
       data \<leftarrow> ptr_at b (p + d);
       strncmp0 key data k }
     else Some False }"

fun dict_value_loop :: "nat \<Rightarrow> string \<Rightarrow> int \<Rightarrow> cptr \<Rightarrow> int \<Rightarrow> int \<Rightarrow> int option" where
  "dict_value_loop 0 b p key offset current_item = None"
| "dict_value_loop (Suc n) b p key offset current_item = do {
     x \<leftarrow> rdi b (p + offset + 1);
     if x \<noteq> CHR ''e'' \<and> x \<noteq> NUL then do {
       t \<leftarrow> (if current_item mod 2 = 0 then benc_entity_type b (p + offset + 1) else Some T_STRING);
       if t \<noteq> T_STRING then Some (-1) else do {
         found \<leftarrow> (if current_item mod 2 = 0 then key_matches b (p + offset + 1) key else Some False);
         len \<leftarrow> benc_entity_length n b (p + offset + 1);
         if found then int_add (offset + 1) len
         else do {
           offset \<leftarrow> int_add offset len;
           current_item \<leftarrow> int_add current_item 1;
           dict_value_loop n b p key offset current_item } } }
     else Some (-1) }"

definition benc_dict_value_offset :: "nat \<Rightarrow> string \<Rightarrow> int \<Rightarrow> cptr option \<Rightarrow> int option" where
  "benc_dict_value_offset n b p key =
     (case key of
        None \<Rightarrow> Some (-1)
      | Some key \<Rightarrow> do {
          t \<leftarrow> benc_entity_type b p;
          if t \<noteq> T_DICT then Some (-1) else dict_value_loop n b p key 0 0 })"

fun dict_key_loop :: "nat \<Rightarrow> string \<Rightarrow> int \<Rightarrow> int \<Rightarrow> int \<Rightarrow> int \<Rightarrow> int option" where
  "dict_key_loop 0 b p index offset current_item = None"
| "dict_key_loop (Suc n) b p index offset current_item = do {
     x \<leftarrow> rdi b (p + offset + 1);
     if x \<noteq> CHR ''e'' \<and> x \<noteq> NUL then do {
       t \<leftarrow> (if current_item mod 2 = 0 then benc_entity_type b (p + offset + 1) else Some T_STRING);
       if t \<noteq> T_STRING then Some (-1)
       else if current_item mod 2 = 0 \<and> \<not> int_range (index * 2) then None
       else if current_item mod 2 = 0 \<and> current_item = index * 2 then Some (offset + 1)
       else do {
         len \<leftarrow> benc_entity_length n b (p + offset + 1);
         offset \<leftarrow> int_add offset len;
         current_item \<leftarrow> int_add current_item 1;
         dict_key_loop n b p index offset current_item } }
     else Some (-1) }"

definition benc_dict_key_offset :: "nat \<Rightarrow> string \<Rightarrow> int \<Rightarrow> int \<Rightarrow> int option" where
  "benc_dict_key_offset n b p index =
     (if index < 0 then Some (-1) else do {
        t \<leftarrow> benc_entity_type b p;
        if t \<noteq> T_DICT then Some (-1) else dict_key_loop n b p index 0 0 })"

end
