(* ===== verification/Encoding.thy ===== *)
theory Encoding
  imports Prelude
begin

unbundle bit_operations_syntax

text \<open>
  The hash codecs of \<^verbatim>\<open>src/encoding.c\<close>: the in-place percent and hex decoders and the
  two encoders of a 20 byte hash. Each C function works on the array it is given; the model
  takes the array's bytes and returns the result with the updated bytes. The reference codecs
  \<open>url_decode\<close>, \<open>hex_decode\<close> and the per-byte encoders are what the loops are shown
  to compute; the locale \<open>byte_codec\<close> states the contract between the two halves of a codec.
\<close>

section \<open>The code\<close>

definition MAX_HASH_LEN :: nat where "MAX_HASH_LEN = 20"
definition MAX_URLENC_HASH_LEN :: nat where "MAX_URLENC_HASH_LEN = MAX_HASH_LEN * 3"
definition MAX_HEXENC_HASH_LEN :: nat where "MAX_HEXENC_HASH_LEN = MAX_HASH_LEN * 2"

lemmas max_len_defs = MAX_HASH_LEN_def MAX_URLENC_HASH_LEN_def MAX_HEXENC_HASH_LEN_def

definition hexdict :: string where
  "hexdict = ''0123456789abcdef''"

definition nonreserved :: string where
  "nonreserved = ''ABCDEFGHIJKLMNOPQRSTUVWXYZabcdefghijklmnopqrstuvwxyz0123456789-_.~''"

fun charIndex_loop :: "cptr \<Rightarrow> char \<Rightarrow> int \<Rightarrow> int option" where
  "charIndex_loop [] needle i = None"
| "charIndex_loop (h # hay) needle i =
     (if h = NUL then Some (-1)
      else if h = needle then Some i
      else charIndex_loop hay needle (i + 1))"

definition charIndex :: "cptr option \<Rightarrow> char \<Rightarrow> int option" where
  "charIndex hay needle =
     (case hay of None \<Rightarrow> Some (-1) | Some p \<Rightarrow> charIndex_loop p needle 0)"

text \<open>The condition \<open>encoded[i]=='%'&&encoded[i+1]!='\0'&&encoded[i+2]!='\0'\<close>, evaluated
  from left to right.\<close>

definition escape_at :: "string \<Rightarrow> nat \<Rightarrow> bool option" where
  "escape_at b i = do {
     x \<leftarrow> rd b i;
     if x \<noteq> CHR ''%'' then Some False else do {
       y \<leftarrow> rd b (i + 1);
       if y = NUL then Some False else do {
         z \<leftarrow> rd b (i + 2);
         Some (z \<noteq> NUL) } } }"

function url_decode_loop :: "string \<Rightarrow> nat \<Rightarrow> nat \<Rightarrow> (int \<times> string) option" where
  "url_decode_loop b i c = do {
     x \<leftarrow> rd b i;
     if x = NUL then do { b' \<leftarrow> wr b c NUL; Some (int c, b') }
     else do {
       b1 \<leftarrow> wr b c x;
       esc \<leftarrow> escape_at b1 i;
       if esc then do {
         y \<leftarrow> rd b1 (i + 1);
         z \<leftarrow> rd b1 (i + 2);
         first \<leftarrow> charIndex (Some (lit hexdict)) y;
         second \<leftarrow> charIndex (Some (lit hexdict)) z;
         if first \<noteq> -1 \<and> second \<noteq> -1
         then do { b2 \<leftarrow> wr b1 c (char_of (first * 16 + second)); url_decode_loop b2 (i + 3) (c + 1) }
         else Some (-1, b1) }
       else url_decode_loop b1 (i + 1) (c + 1) } }"
  by pat_completeness auto
termination
  by (relation "measure (\<lambda>(b, i, c). length b - i)") (auto simp: rd_eq_Some_iff wr_eq_Some_iff)

declare url_decode_loop.simps [simp del]

definition destructiveURLDecode :: "string \<Rightarrow> (int \<times> string) option" where
  "destructiveURLDecode encoded = url_decode_loop encoded 0 0"

function hex_decode_loop :: "string \<Rightarrow> nat \<Rightarrow> nat \<Rightarrow> (int \<times> string) option" where
  "hex_decode_loop b i c = do {
     x \<leftarrow> rd b i;
     if x = NUL then do { b' \<leftarrow> wr b c NUL; Some (int c, b') }
     else do {
       y \<leftarrow> rd b (i + 1);
       if y = NUL then Some (-1, b) else do {
         first \<leftarrow> charIndex (Some (lit hexdict)) x;
         second \<leftarrow> charIndex (Some (lit hexdict)) y;
         if first \<noteq> -1 \<and> second \<noteq> -1
         then do { b' \<leftarrow> wr b c (char_of (first * 16 + second)); hex_decode_loop b' (i + 2) (c + 1) }
         else Some (-1, b) } } }"
  by pat_completeness auto
termination
  by (relation "measure (\<lambda>(b, i, c). length b - i)") (auto simp: rd_eq_Some_iff wr_eq_Some_iff)

declare hex_decode_loop.simps [simp del]

definition destructiveHexDecode :: "string \<Rightarrow> (int \<times> string) option" where
  "destructiveHexDecode encoded = hex_decode_loop encoded 0 0"

text \<open>The dictionary entries for the high and the low half of a byte.\<close>

definition hex_high :: "char \<Rightarrow> char option" where
  "hex_high x = rd (lit hexdict) (drop_bit 4 (of_char x))"

definition hex_low :: "char \<Rightarrow> char option" where
  "hex_low x = rd (lit hexdict) (of_char x AND 0xF)"

text \<open>\<open>n\<close> counts the iterations left of \<open>for(i=0;i<MAX_HASH_LEN;i++)\<close>.\<close>

fun hex_encode_loop :: "nat \<Rightarrow> string \<Rightarrow> string \<Rightarrow> nat \<Rightarrow> string option" where
  "hex_encode_loop 0 hash buffer i = wr buffer (i * 2) NUL"
| "hex_encode_loop (Suc n) hash buffer i = do {
     x \<leftarrow> rd hash i;
     h \<leftarrow> hex_high x;
     buffer \<leftarrow> wr buffer (i * 2) h;
     l \<leftarrow> hex_low x;
     buffer \<leftarrow> wr buffer (i * 2 + 1) l;
     hex_encode_loop n hash buffer (i + 1) }"

text \<open>
  \<open>buffer_length\<close> is compared with a \<open>size_t\<close>, so a negative one counts as large.
  \<open>stk\<close> gives the bytes of the local array before they are written.
\<close>

definition hashEncodeHex :: "(nat \<Rightarrow> char) \<Rightarrow> string \<Rightarrow> int \<Rightarrow> (int \<times> string) option" where
  "hashEncodeHex stk hash buffer_length =
     (if buffer_length mod 2 ^ 64 < int (MAX_HEXENC_HASH_LEN + 1) then Some (-1, hash)
      else do {
        buffer \<leftarrow> hex_encode_loop MAX_HASH_LEN hash (uninit stk (MAX_HEXENC_HASH_LEN + 1)) 0;
        bs \<leftarrow> mem_get buffer (MAX_HEXENC_HASH_LEN + 1);
        hash \<leftarrow> mem_put hash 0 bs;
        Some (0, hash) })"

fun url_encode_loop :: "nat \<Rightarrow> string \<Rightarrow> string \<Rightarrow> nat \<Rightarrow> nat \<Rightarrow> string option" where
  "url_encode_loop 0 data buffer i c = wr buffer c NUL"
| "url_encode_loop (Suc n) data buffer i c = do {
     x \<leftarrow> rd data i;
     buffer \<leftarrow> wr buffer c x;
     k \<leftarrow> charIndex (Some (lit nonreserved)) x;
     if k = -1 then do {
       buffer \<leftarrow> wr buffer c CHR ''%'';
       h \<leftarrow> hex_high x;
       buffer \<leftarrow> wr buffer (c + 1) h;
       l \<leftarrow> hex_low x;
       buffer \<leftarrow> wr buffer (c + 2) l;
       url_encode_loop n data buffer (i + 1) (c + 3) }
     else url_encode_loop n data buffer (i + 1) (c + 1) }"

text \<open>The \<open>maxlen\<close> of \<open>strncpy\<close> is a \<open>size_t\<close>; both callers pass a positive one.\<close>

definition hashEncodeURL :: "(nat \<Rightarrow> char) \<Rightarrow> string \<Rightarrow> int \<Rightarrow> (int \<times> string) option" where
  "hashEncodeURL stk data maxlen = do {
     buffer \<leftarrow> url_encode_loop MAX_HASH_LEN data (uninit stk (MAX_URLENC_HASH_LEN + 1)) 0 0;
     data \<leftarrow> strncpy data buffer (nat (maxlen mod 2 ^ 64));
     Some (0, data) }"

section \<open>The reference codecs\<close>

text \<open>The position of a character in a dictionary, and the value of a hex digit.\<close>

fun index_of :: "'a list \<Rightarrow> 'a \<Rightarrow> nat option" where
  "index_of [] y = None"
| "index_of (x # xs) y = (if x = y then Some 0 else map_option Suc (index_of xs y))"

definition hexval :: "char \<Rightarrow> nat option" where
  "hexval c = index_of hexdict c"

lemma charIndex_loop_terminated:
  assumes "NUL \<notin> set s"
  shows "charIndex_loop (s @ NUL # t) y i =
    Some (case index_of s y of None \<Rightarrow> -1 | Some k \<Rightarrow> i + int k)"
  using assms by (induction s arbitrary: i) (auto split: option.splits)

lemma charIndex_lit [cstr_simps]:
  "NUL \<notin> set s \<Longrightarrow> charIndex (Some (lit s)) y =
     Some (case index_of s y of None \<Rightarrow> -1 | Some k \<Rightarrow> int k)"
  by (simp add: charIndex_def lit_def charIndex_loop_terminated split: option.splits)

lemma index_of_None_iff: "index_of s y = None \<longleftrightarrow> y \<notin> set s"
  by (induction s) auto

lemma index_of_SomeD: "index_of s y = Some k \<Longrightarrow> k < length s \<and> s ! k = y"
  by (induction s arbitrary: k) (auto split: if_splits)

lemma hexdict_noNUL [simp]: "NUL \<notin> set hexdict"
  by (simp add: hexdict_def)

lemma length_hexdict [simp]: "length hexdict = 16"
  by (simp add: hexdict_def)

lemma charIndex_hexdict [simp]:
  "charIndex (Some (lit hexdict)) y = Some (case hexval y of None \<Rightarrow> -1 | Some k \<Rightarrow> int k)"
  by (simp add: charIndex_lit hexval_def)

lemma hexval_less: "hexval y = Some k \<Longrightarrow> k < 16"
  using index_of_SomeD [of hexdict y k] by (simp add: hexval_def)

lemma hexval_hexdict [simp]:
  assumes "n < 16" shows "hexval (hexdict ! n) = Some n"
proof -
  have "\<forall>n \<in> set [0..<16]. hexval (hexdict ! n) = Some n"
    by (simp add: hexval_def hexdict_def upt_rec)
  with assms show ?thesis by simp
qed

lemma hexdict_nth_neq_NUL [simp]:
  "n < 16 \<Longrightarrow> hexdict ! n \<noteq> NUL" "n < 16 \<Longrightarrow> NUL \<noteq> hexdict ! n"
  using nth_mem [of n hexdict] hexdict_noNUL by (metis length_hexdict)+

lemma hexval_NUL [simp]: "hexval NUL = None"
  by (simp add: hexval_def index_of_None_iff)

lemma hex_high_eq [simp]: "hex_high x = Some (hexdict ! (of_char x div 16))"
proof -
  have "(of_char x :: nat) < 256" by simp
  then have "of_char x div 16 < (16::nat)" by arith
  then show ?thesis
    by (simp add: hex_high_def rd_lit drop_bit_eq_div)
qed

lemma nat_and_15: "(n::nat) AND 15 = n mod 16"
  using take_bit_eq_mask [of 4 n] by (simp add: mask_eq_exp_minus_1 take_bit_eq_mod)

lemma hex_low_eq [simp]: "hex_low x = Some (hexdict ! (of_char x mod 16))"
  by (simp add: hex_low_def nat_and_15 rd_lit)

text \<open>What the percent decoder computes: an escape needs two more characters, and both must be
  hex digits; every other character stands for itself.\<close>

fun url_decode :: "string \<Rightarrow> string option" where
  "url_decode [] = Some []"
| "url_decode (x # s) =
     (if x = CHR ''%'' \<and> 2 \<le> length s
      then (case hexval (s ! 0) of None \<Rightarrow> None | Some a \<Rightarrow>
            case hexval (s ! 1) of None \<Rightarrow> None | Some d \<Rightarrow>
              map_option ((#) (char_of (a * 16 + d))) (url_decode (drop 2 s)))
      else map_option ((#) x) (url_decode s))"

lemma url_decode_escape:
  "url_decode (CHR ''%'' # y # z # s) =
     (case hexval y of None \<Rightarrow> None | Some a \<Rightarrow>
      case hexval z of None \<Rightarrow> None | Some d \<Rightarrow>
        map_option ((#) (char_of (a * 16 + d))) (url_decode s))"
  by (auto split: option.splits)

declare url_decode.simps(2) [simp del]

lemma url_decode_plain:
  "\<not> (x = CHR ''%'' \<and> 2 \<le> length s) \<Longrightarrow> url_decode (x # s) = map_option ((#) x) (url_decode s)"
  by (auto simp: url_decode.simps(2))

fun hex_decode :: "string \<Rightarrow> string option" where
  "hex_decode [] = Some []"
| "hex_decode [x] = None"
| "hex_decode (x # y # s) =
     (case hexval x of None \<Rightarrow> None | Some a \<Rightarrow>
      case hexval y of None \<Rightarrow> None | Some d \<Rightarrow>
        map_option ((#) (char_of (a * 16 + d))) (hex_decode s))"

section \<open>The decoder loops compute the reference decoders\<close>

lemma escape_at_terminated:
  assumes "drop i b = s @ NUL # t" "NUL \<notin> set s" "s \<noteq> []"
  shows "escape_at b i = Some (hd s = CHR ''%'' \<and> 3 \<le> length s)"
proof -
  obtain x s1 where s: "s = x # s1" using assms(3) by (cases s) auto
  have x: "rd b i = Some x" using assms s by (auto intro: rd_of_drop)
  have d1: "drop (Suc i) b = s1 @ NUL # t" using assms s by (auto dest: drop_Suc_of_drop)
  show ?thesis
  proof (cases s1)
    case Nil
    with d1 have "rd b (Suc i) = Some NUL" by (auto intro: rd_of_drop)
    with x s Nil show ?thesis by (simp add: escape_at_def)
  next
    case (Cons y s2)
    with d1 have y: "rd b (Suc i) = Some y" by (auto intro: rd_of_drop)
    have d2: "drop (Suc (Suc i)) b = s2 @ NUL # t" using d1 Cons by (auto dest: drop_Suc_of_drop)
    show ?thesis
    proof (cases s2)
      case Nil
      with d2 have "rd b (Suc (Suc i)) = Some NUL" by (auto intro: rd_of_drop)
      with x y s Cons Nil show ?thesis by (simp add: escape_at_def)
    next
      case (Cons z s3)
      with d2 have "rd b (Suc (Suc i)) = Some z" by (auto intro: rd_of_drop)
      with x y s \<open>s1 = _\<close> Cons assms(2) show ?thesis by (auto simp: escape_at_def)
    qed
  qed
qed

text \<open>Result of a decoder loop at write index \<open>c\<close> for the abstract result \<open>r\<close>.\<close>

definition decoded :: "string \<Rightarrow> nat \<Rightarrow> string option \<Rightarrow> (int \<times> string) option \<Rightarrow> bool" where
  "decoded b c r res \<longleftrightarrow>
     (case r of
        Some d \<Rightarrow> res = Some (int (c + length d), take c b @ d @ NUL # drop (c + length d + 1) b)
      | None \<Rightarrow> \<exists>b'. res = Some (-1, b') \<and> length b' = length b)"

lemma decoded_step:
  assumes "decoded (b[c := x]) (Suc c) r res" "c < length b"
  shows "decoded b c (map_option ((#) x) r) res"
  using assms by (cases r) (auto simp: decoded_def take_Suc_update)

lemma decoded_overwrite: "decoded (b[c := x]) c r res \<Longrightarrow> decoded b c r res"
  by (cases r) (auto simp: decoded_def)

lemma url_decode_loop_plain:
  assumes "drop i b = x # s @ NUL # t" "NUL \<notin> set (x # s)" "c \<le> i"
    and "\<not> (x = CHR ''%'' \<and> 2 \<le> length s)"
    and "decoded (b[c := x]) (Suc c) r (url_decode_loop (b[c := x]) (Suc i) (Suc c))"
  shows "decoded b c (map_option ((#) x) r) (url_decode_loop b i c)"
proof -
  have rd: "rd b i = Some x" and c: "c < length b" and x: "x \<noteq> NUL"
    using assms(1-3) by (auto intro: rd_of_drop dest: drop_length_less)
  have "drop i (b[c := x]) = (x # s) @ NUL # t"
    using assms(1) drop_update_same [OF assms(3) rd] by simp
  then have "escape_at (b[c := x]) i = Some False"
    using escape_at_terminated [of i "b[c := x]" "x # s" t] assms(2,4) by auto
  then have "url_decode_loop b i c = url_decode_loop (b[c := x]) (Suc i) (Suc c)"
    using rd c x by (simp add: url_decode_loop.simps [of b] wr_Some)
  with assms(5) c show ?thesis by (simp add: decoded_step)
qed

lemma url_decode_loop_escape:
  assumes "drop i b = CHR ''%'' # y # z # s @ NUL # t" "NUL \<notin> set (y # z # s)" "c \<le> i"
    and IH: "\<And>a d v. hexval y = Some a \<Longrightarrow> hexval z = Some d \<Longrightarrow>
      decoded (b[c := v]) (Suc c) r (url_decode_loop (b[c := v]) (i + 3) (Suc c))"
  shows "decoded b c (case hexval y of None \<Rightarrow> None | Some a \<Rightarrow>
            case hexval z of None \<Rightarrow> None | Some d \<Rightarrow> map_option ((#) (char_of (a * 16 + d))) r)
          (url_decode_loop b i c)"
proof -
  let ?x = "CHR ''%''"
  have rd: "rd b i = Some ?x" and c: "c < length b"
    using assms(1,3) by (auto intro: rd_of_drop dest: drop_length_less)
  have dr: "drop i (b[c := ?x]) = (?x # y # z # s) @ NUL # t"
    using assms(1) drop_update_same [OF assms(3) rd] by simp
  then have esc: "escape_at (b[c := ?x]) i = Some True"
    using escape_at_terminated [of i "b[c := ?x]" "?x # y # z # s" t] assms(2) by auto
  from dr have d1: "drop (Suc i) (b[c := ?x]) = y # (z # s) @ NUL # t"
    by (auto dest: drop_Suc_of_drop)
  then have y: "rd (b[c := ?x]) (Suc i) = Some y" by (rule rd_of_drop)
  from d1 have "drop (Suc (Suc i)) (b[c := ?x]) = z # s @ NUL # t"
    by (auto dest: drop_Suc_of_drop)
  then have z: "rd (b[c := ?x]) (Suc (Suc i)) = Some z" by (rule rd_of_drop)
  have c': "char_of (int a * 16 + int d) = char_of (a * 16 + d)" for a d
    using char_of_nat [of "a * 16 + d", where ?'a = int] by simp
  show ?thesis
  proof (cases "hexval y = None \<or> hexval z = None")
    case True
    then show ?thesis
      using rd c esc y z
      by (auto simp: url_decode_loop.simps [of b] wr_Some decoded_def split: option.splits)
  next
    case False
    then obtain a d where ad: "hexval y = Some a" "hexval z = Some d" by auto
    have "decoded b c (map_option ((#) v) r) (url_decode_loop (b[c := v]) (i + 3) (Suc c))" for v
      using IH [OF ad] c by (rule decoded_step)
    with ad show ?thesis
      using rd c esc y z by (simp add: url_decode_loop.simps [of b] wr_Some c')
  qed
qed

lemma url_decode_loop_decoded:
  assumes "drop i b = s @ NUL # t" "NUL \<notin> set s" "c \<le> i"
  shows "decoded b c (url_decode s) (url_decode_loop b i c)"
  using assms
proof (induction s arbitrary: b i c rule: url_decode.induct)
  case 1
  then have "rd b i = Some NUL" "c < length b"
    by (auto intro: rd_of_drop dest: drop_length_less)
  then show ?case
    by (simp add: decoded_def url_decode_loop.simps [of b] wr_Some upd_conv_take_nth_drop)
next
  case (2 x s)
  have d1: "drop (Suc i) (b[c := v]) = s @ NUL # t" for v
    using "2.prems" by (auto dest: drop_Suc_of_drop)
  show ?case
  proof (cases "x = CHR ''%'' \<and> 2 \<le> length s")
    case True
    then obtain y z s' where s: "s = y # z # s'" by (auto elim: two_le_lengthE)
    have "drop (Suc (Suc i)) (b[c := v]) = z # s' @ NUL # t" for v
      using drop_Suc_of_drop [of "Suc i" "b[c := v]"] d1 [of v] s by simp
    then have d3: "drop (i + 3) (b[c := v]) = s' @ NUL # t" for v
      using drop_Suc_of_drop [of "Suc (Suc i)" "b[c := v]"] by (simp add: eval_nat_numeral)
    have "decoded (b[c := v]) (Suc c) (url_decode s') (url_decode_loop (b[c := v]) (i + 3) (Suc c))"
      if "hexval y = Some a" "hexval z = Some d" for a d v
      using "2.IH"(1) [OF True, of a d "i + 3" "b[c := v]" "Suc c"] that s "2.prems" d3 by simp
    then have "decoded b c (url_decode (CHR ''%'' # y # z # s')) (url_decode_loop b i c)"
      unfolding url_decode_escape
      using "2.prems" True s by (intro url_decode_loop_escape) auto
    with True s show ?thesis by simp
  next
    case False
    with "2.IH"(2) [OF False d1] "2.prems" 
    have "decoded (b[c := x]) (Suc c) (url_decode s) (url_decode_loop (b[c := x]) (Suc i) (Suc c))"
      by simp
    from url_decode_loop_plain [OF _ _ _ False this] "2.prems" False show ?thesis
      by (simp add: url_decode_plain)
  qed
qed

lemma hex_decode_loop_decoded:
  assumes "drop i b = s @ NUL # t" "NUL \<notin> set s" "c \<le> i"
  shows "decoded b c (hex_decode s) (hex_decode_loop b i c)"
  using assms
proof (induction s arbitrary: b i c rule: hex_decode.induct)
  case 1
  then have "rd b i = Some NUL" "c < length b"
    by (auto intro: rd_of_drop dest: drop_length_less)
  then show ?case
    by (simp add: decoded_def hex_decode_loop.simps [of b] wr_Some upd_conv_take_nth_drop)
next
  case (2 x)
  then have x: "rd b i = Some x" "x \<noteq> NUL" by (auto intro: rd_of_drop)
  from 2 have "rd b (Suc i) = Some NUL" by (auto intro: rd_of_drop dest: drop_Suc_of_drop)
  with x show ?case by (simp add: decoded_def hex_decode_loop.simps [of b])
next
  case (3 x y s)
  then have x: "rd b i = Some x" "x \<noteq> NUL" and c: "c < length b"
    by (auto intro: rd_of_drop dest: drop_length_less)
  from 3 have d1: "drop (Suc i) b = y # s @ NUL # t" by (auto dest: drop_Suc_of_drop)
  with 3 have y: "rd b (Suc i) = Some y" "y \<noteq> NUL" by (auto intro: rd_of_drop)
  from d1 have d2: "drop (Suc (Suc i)) b = s @ NUL # t" by (auto dest: drop_Suc_of_drop)
  have c': "char_of (int a * 16 + int d) = char_of (a * 16 + d)" for a d
    using char_of_nat [of "a * 16 + d", where ?'a = int] by simp
  show ?case
  proof (cases "hexval x = None \<or> hexval y = None")
    case True
    then show ?thesis
      using x y by (auto simp: hex_decode_loop.simps [of b] decoded_def split: option.splits)
  next
    case False
    then obtain a d where ad: "hexval x = Some a" "hexval y = Some d" by auto
    have "decoded (b[c := v]) (Suc c) (hex_decode s) (hex_decode_loop (b[c := v]) (Suc (Suc i)) (Suc c))" for v
      using "3.IH" [OF ad, of "Suc (Suc i)" "b[c := v]" "Suc c"] d2 "3.prems" by simp
    then have "decoded b c (map_option ((#) v) (hex_decode s))
        (hex_decode_loop (b[c := v]) (Suc (Suc i)) (Suc c))" for v
      using c by (rule decoded_step)
    with ad show ?thesis
      using x y c by (simp add: hex_decode_loop.simps [of b] wr_Some c')
  qed
qed

section \<open>The encoders\<close>

lemma nibbles [simp]: "char_of (of_char x div 16 * 16 + of_char x mod (16 :: nat)) = x"
  by simp

lemma of_char_div_16 [simp]: "of_char x div 16 < (16 :: nat)"
proof -
  have "(of_char x :: nat) < 256" by simp
  then show ?thesis by arith
qed

definition url_enc_byte :: "char \<Rightarrow> string" where
  "url_enc_byte x =
     (if x \<in> set nonreserved then [x]
      else [CHR ''%'', hexdict ! (of_char x div 16), hexdict ! (of_char x mod 16)])"

definition hex_enc_byte :: "char \<Rightarrow> string" where
  "hex_enc_byte x = [hexdict ! (of_char x div 16), hexdict ! (of_char x mod 16)]"

definition url_encode :: "string \<Rightarrow> string" where
  "url_encode s = concat (map url_enc_byte s)"

definition hex_encode :: "string \<Rightarrow> string" where
  "hex_encode s = concat (map hex_enc_byte s)"

text \<open>The contract of a codec that works byte by byte, for its decoder's clients.\<close>

locale byte_codec =
  fixes enc :: "char \<Rightarrow> string" and dec :: "string \<Rightarrow> string option" and width :: nat
  assumes dec_Nil: "dec [] = Some []"
    and dec_enc: "dec (enc x @ s) = map_option ((#) x) (dec s)"
    and enc_noNUL: "NUL \<notin> set (enc x)"
    and enc_pos: "0 < length (enc x)"
    and enc_width: "length (enc x) \<le> width"
begin

lemma roundtrip: "dec (concat (map enc xs)) = Some xs"
  by (induction xs) (simp_all add: dec_Nil dec_enc)

lemma encoded_noNUL: "NUL \<notin> set (concat (map enc xs))"
  by (simp add: enc_noNUL)

lemma encoded_length_le: "length (concat (map enc xs)) \<le> width * length xs"
proof (induction xs)
  case (Cons x xs)
  then show ?case using enc_width [of x] by simp
qed simp

lemma encoded_length_ge: "length xs \<le> length (concat (map enc xs))"
proof (induction xs)
  case (Cons x xs)
  then show ?case using enc_pos [of x] by (simp del: length_greater_0_conv)
qed simp

lemma encoded_inj: "concat (map enc xs) = concat (map enc ys) \<Longrightarrow> xs = ys"
  by (metis roundtrip option.inject)

end

lemma percent_reserved: "CHR ''%'' \<notin> set nonreserved" "NUL \<notin> set nonreserved"
  by (simp_all add: nonreserved_def)

interpretation url: byte_codec url_enc_byte url_decode 3
proof
  show "url_decode [] = Some []" by simp
  show "url_decode (url_enc_byte x @ s) = map_option ((#) x) (url_decode s)" for x s
    using percent_reserved by (auto simp: url_enc_byte_def url_decode_escape intro!: url_decode_plain)
  show "NUL \<notin> set (url_enc_byte x)" for x
    using percent_reserved by (auto simp: url_enc_byte_def)
qed (simp_all add: url_enc_byte_def)

interpretation hex: byte_codec hex_enc_byte hex_decode 2
proof
  show "NUL \<notin> set (hex_enc_byte x)" for x
    by (simp add: hex_enc_byte_def)
qed (simp_all add: hex_enc_byte_def)

lemma charIndex_nonreserved [simp]:
  "charIndex (Some (lit nonreserved)) x =
     Some (case index_of nonreserved x of None \<Rightarrow> -1 | Some k \<Rightarrow> int k)"
  using percent_reserved by (simp add: charIndex_lit)

lemma url_encode_loop_eq:
  assumes "i + n \<le> length data" "c + length (url_encode (take n (drop i data))) < length buffer"
  shows "url_encode_loop n data buffer i c =
    Some (take c buffer @ url_encode (take n (drop i data)) @
          NUL # drop (Suc (c + length (url_encode (take n (drop i data))))) buffer)"
  using assms
proof (induction n arbitrary: buffer i c)
  case 0
  then show ?case by (simp add: url_encode_def wr_Some upd_conv_take_nth_drop)
next
  case (Suc n)
  have i: "i < length data" and x: "rd data i = Some (data ! i)" 
    using Suc.prems by (simp_all add: rd_Some)
  have e: "url_encode (take (Suc n) (drop i data)) =
      url_enc_byte (data ! i) @ url_encode (take n (drop (Suc i) data))"
    using i by (simp add: take_Suc_drop url_encode_def)
  show ?case
  proof (cases "data ! i \<in> set nonreserved")
    case True
    then obtain k where k: "index_of nonreserved (data ! i) = Some k"
      by (metis index_of_None_iff option.exhaust)
    have c: "c < length buffer" using Suc.prems by simp
    have "url_encode_loop (Suc n) data buffer i c =
        url_encode_loop n data (buffer[c := data ! i]) (Suc i) (Suc c)"
      using x k c by (simp add: wr_Some)
    also have "\<dots> = Some (take (Suc c) (buffer[c := data ! i]) @ url_encode (take n (drop (Suc i) data)) @
        NUL # drop (Suc (Suc c + length (url_encode (take n (drop (Suc i) data))))) (buffer[c := data ! i]))"
      using Suc.prems True unfolding e by (intro Suc.IH) (simp_all add: url_enc_byte_def)
    finally show ?thesis
      using True c unfolding e by (simp add: url_enc_byte_def take_Suc_update)
  next
    case False
    then have k: "index_of nonreserved (data ! i) = None"
      by (simp add: index_of_None_iff)
    let ?h = "hexdict ! (of_char (data ! i) div 16)" and ?l = "hexdict ! (of_char (data ! i) mod 16)"
    let ?b = "buffer[c := CHR ''%'', Suc c := ?h, Suc (Suc c) := ?l]"
    have c: "Suc (Suc c) < length buffer"
      using Suc.prems(2) False unfolding e by (simp add: url_enc_byte_def)
    have t: "take (Suc (Suc (Suc c))) ?b = take c buffer @ [CHR ''%'', ?h, ?l]"
      using c by (simp add: take_Suc_update)
    have "url_encode_loop (Suc n) data buffer i c = url_encode_loop n data ?b (Suc i) (Suc (Suc (Suc c)))"
      using x k c by (simp add: wr_Some numeral_3_eq_3)
    also have "\<dots> = Some (take (Suc (Suc (Suc c))) ?b @ url_encode (take n (drop (Suc i) data)) @
        NUL # drop (Suc (Suc (Suc (Suc c)) + length (url_encode (take n (drop (Suc i) data))))) ?b)"
      using Suc.prems False unfolding e by (intro Suc.IH) (simp_all add: url_enc_byte_def)
    finally show ?thesis
      using False c unfolding e t by (simp add: url_enc_byte_def)
  qed
qed

lemma hex_encode_loop_eq:
  assumes "i + n \<le> length hash" "2 * (i + n) < length buffer"
  shows "hex_encode_loop n hash buffer i =
    Some (take (2 * i) buffer @ hex_encode (take n (drop i hash)) @
          NUL # drop (Suc (2 * (i + n))) buffer)"
  using assms
proof (induction n arbitrary: buffer i)
  case 0
  then show ?case by (simp add: hex_encode_def wr_Some upd_conv_take_nth_drop mult.commute)
next
  case (Suc n)
  have i: "i < length hash" and x: "rd hash i = Some (hash ! i)"
    using Suc.prems by (simp_all add: rd_Some)
  let ?h = "hexdict ! (of_char (hash ! i) div 16)" and ?l = "hexdict ! (of_char (hash ! i) mod 16)"
  let ?b = "buffer[2 * i := ?h, Suc (2 * i) := ?l]"
  have c: "Suc (2 * i) < length buffer" using Suc.prems by simp
  have t: "take (2 * Suc i) ?b = take (2 * i) buffer @ [?h, ?l]"
    using c by (simp add: take_Suc_update)
  have "hex_encode_loop (Suc n) hash buffer i = hex_encode_loop n hash ?b (Suc i)"
    using x c by (simp add: wr_Some mult.commute)
  also have "\<dots> = Some (take (2 * Suc i) ?b @ hex_encode (take n (drop (Suc i) hash)) @
          NUL # drop (Suc (2 * (Suc i + n))) ?b)"
    using Suc.prems by (intro Suc.IH) simp_all
  finally show ?case
    using i unfolding t by (simp add: take_Suc_drop hex_encode_def hex_enc_byte_def)
qed

lemma length_hex_encode [simp]: "length (hex_encode s) = 2 * length s"
  by (induction s) (simp_all add: hex_encode_def hex_enc_byte_def)

text \<open>The result of \<open>hashEncodeHex\<close> in one equation.\<close>

lemma hashEncodeHex_eq:
  assumes "41 \<le> length hash" "41 \<le> n" "n < 2 ^ 64"
  shows "hashEncodeHex stk hash n =
    Some (0, hex_encode (take 20 hash) @ NUL # drop 41 hash)"
proof -
  have "hex_encode_loop 20 hash (uninit stk 41) 0 = Some (hex_encode (take 20 hash) @ [NUL])"
    using assms by (subst hex_encode_loop_eq) simp_all
  then show ?thesis
    using assms by (simp add: hashEncodeHex_def max_len_defs mem_get_def mem_put_def)
qed

lemma url_encode_noNUL: "NUL \<notin> set (url_encode s)"
  using url.encoded_noNUL by (simp add: url_encode_def)

lemma length_url_encode: "length s \<le> length (url_encode s)" "length (url_encode s) \<le> 3 * length s"
  using url.encoded_length_ge url.encoded_length_le by (simp_all add: url_encode_def)

text \<open>The result of \<open>hashEncodeURL\<close>: the encoding, cut or filled up to \<open>maxlen\<close> bytes.\<close>

lemma hashEncodeURL_eq:
  assumes "20 \<le> length data" "0 \<le> n" "n \<le> int (length data)" "n < 2 ^ 64"
  shows "hashEncodeURL stk data n =
    Some (0, take (nat n) (url_encode (take 20 data) @ replicate (nat n) NUL) @ drop (nat n) data)"
proof -
  have len: "length (url_encode (take 20 data)) \<le> 60"
    using length_url_encode(2) [of "take 20 data"] assms by simp
  then have "url_encode_loop 20 data (uninit stk 61) 0 0 =
      Some (url_encode (take 20 data) @ NUL # drop (Suc (length (url_encode (take 20 data)))) (uninit stk 61))"
    using assms by (subst url_encode_loop_eq) simp_all
  then show ?thesis
    using assms url_encode_noNUL
    by (simp add: hashEncodeURL_def max_len_defs strncpy_def strncpy_bytes_terminated mem_put_def
        min_add_diff)
qed

section \<open>Properties\<close>

lemma destructiveURLDecode_decoded:
  "NUL \<notin> set s \<Longrightarrow> decoded (s @ NUL # t) 0 (url_decode s) (destructiveURLDecode (s @ NUL # t))"
  unfolding destructiveURLDecode_def by (rule url_decode_loop_decoded) simp_all

lemma destructiveHexDecode_decoded:
  "NUL \<notin> set s \<Longrightarrow> decoded (s @ NUL # t) 0 (hex_decode s) (destructiveHexDecode (s @ NUL # t))"
  unfolding destructiveHexDecode_def by (rule hex_decode_loop_decoded) simp_all

lemma destructiveURLDecode_Some:
  "NUL \<notin> set s \<Longrightarrow> url_decode s = Some d \<Longrightarrow>
   destructiveURLDecode (s @ NUL # t) = Some (int (length d), d @ NUL # drop (length d + 1) (s @ NUL # t))"
  using destructiveURLDecode_decoded [of s t] by (simp add: decoded_def)

lemma destructiveHexDecode_Some:
  "NUL \<notin> set s \<Longrightarrow> hex_decode s = Some d \<Longrightarrow>
   destructiveHexDecode (s @ NUL # t) = Some (int (length d), d @ NUL # drop (length d + 1) (s @ NUL # t))"
  using destructiveHexDecode_decoded [of s t] by (simp add: decoded_def)

text \<open>C30: On an array that holds the C string \<open>s\<close>, \<open>destructiveURLDecode\<close> never leaves the
  array; it returns the length of the reference decoding \<open>d\<close> and leaves \<open>d\<close>, terminated, in
  front of the untouched rest of the array, or it returns -1 exactly when \<open>s\<close> has an escape that
  is not two lower-case hex digits.\<close>
theorem destructiveURLDecode_refines:
  assumes "NUL \<notin> set s"
  shows "case url_decode s of
      Some d \<Rightarrow> destructiveURLDecode (s @ NUL # t) =
                  Some (int (length d), d @ NUL # drop (length d + 1) (s @ NUL # t))
    | None \<Rightarrow> \<exists>b'. destructiveURLDecode (s @ NUL # t) = Some (-1, b') \<and>
                  length b' = length (s @ NUL # t)"
  using destructiveURLDecode_decoded [OF assms, of t] by (simp add: decoded_def split: option.splits)

theorem destructiveURLDecode_refines_witness:
  "NUL \<notin> set ''a%2fb'' \<and>
   destructiveURLDecode (''a%2fb'' @ NUL # ''xy'') = Some (3, ''a/b'' @ NUL # ''b'' @ NUL # ''xy'')"
proof -
  have "url_decode ''a%2fb'' = Some ''a/b''"
    by (simp add: url_decode_plain url_decode_escape hexval_def hexdict_def char_of_def bit_0)
  with destructiveURLDecode_refines [of "''a%2fb''" "''xy''"] show ?thesis by simp
qed

text \<open>On an array that holds the C string \<open>s\<close>, \<open>destructiveHexDecode\<close> never leaves the
  array; it returns the number of decoded bytes and leaves them, terminated, in front of the
  untouched rest of the array, or it returns -1 exactly when \<open>s\<close> has an odd number of
  characters or one that is not a lower-case hex digit.\<close>
theorem destructiveHexDecode_refines:
  assumes "NUL \<notin> set s"
  shows "case hex_decode s of
      Some d \<Rightarrow> destructiveHexDecode (s @ NUL # t) =
                  Some (int (length d), d @ NUL # drop (length d + 1) (s @ NUL # t))
    | None \<Rightarrow> \<exists>b'. destructiveHexDecode (s @ NUL # t) = Some (-1, b') \<and>
                  length b' = length (s @ NUL # t)"
  using destructiveHexDecode_decoded [OF assms, of t] by (simp add: decoded_def split: option.splits)

theorem destructiveHexDecode_refines_witness:
  "NUL \<notin> set ''2f41'' \<and>
   destructiveHexDecode (''2f41'' @ [NUL]) = Some (2, ''/A'' @ NUL # ''1'' @ [NUL])"
proof -
  have "hex_decode ''2f41'' = Some ''/A''"
    by (simp add: hexval_def hexdict_def char_of_def bit_0)
  with destructiveHexDecode_refines [of "''2f41''" "[]"] show ?thesis by simp
qed

text \<open>C31: \<open>hashEncodeURL\<close> followed by \<open>destructiveURLDecode\<close> gives back the 20 bytes of any
  hash, NUL and reserved bytes included, whatever the local array held before. The array needs
  room for 60 characters and a terminator (already there when \<open>maxlen\<close> is 60, the value
  \<^verbatim>\<open>getpeers.c\<close> passes).\<close>
theorem hashEncodeURL_roundtrip:
  assumes "60 < length data" "60 \<le> n" "n \<le> int (length data)" "n < 2 ^ 64"
    and "60 < n \<or> data ! 60 = NUL"
  shows "\<exists>e r. hashEncodeURL stk data n = Some (0, e) \<and> length e = length data \<and>
           destructiveURLDecode e = Some (20, take 20 data @ NUL # r)"
proof -
  let ?u = "url_encode (take 20 data)" 
  let ?e = "take (nat n) (?u @ replicate (nat n) NUL) @ drop (nat n) data"
  have u: "length ?u \<le> 60" using length_url_encode(2) [of "take 20 data"] assms(1) by simp
  obtain t where t: "?e = ?u @ NUL # t"
  proof (cases "length ?u < nat n")
    case True
    then obtain k where "nat n - length ?u = Suc k" by (metis Suc_diff_Suc)
    with True that show ?thesis by simp
  next
    case False
    with u assms(2) have "n = 60" "length ?u = 60" by linarith+
    moreover have "drop 60 data = NUL # drop 61 data"
      using assms(1,5) calculation(1) Cons_nth_drop_Suc [of 60 data] by simp
    ultimately show ?thesis using that by simp
  qed
  have "hashEncodeURL stk data n = Some (0, ?e)"
    using assms by (intro hashEncodeURL_eq) simp_all
  moreover have "length (?u @ NUL # t) = length data"
    unfolding t [symmetric] using assms(1-3) by simp
  moreover have "url_decode ?u = Some (take 20 data)"
    using url.roundtrip by (simp add: url_encode_def)
  ultimately show ?thesis
    using destructiveURLDecode_Some [OF url_encode_noNUL, of "take 20 data" "take 20 data" t] assms(1) t
    by simp
qed

theorem hashEncodeURL_roundtrip_witness:
  "\<exists>e r. hashEncodeURL (\<lambda>_. CHR ''x'') (replicate 61 CHR ''/'') 61 = Some (0, e) \<and> length e = 61 \<and>
     destructiveURLDecode e = Some (20, replicate 20 CHR ''/'' @ NUL # r)"
  using hashEncodeURL_roundtrip [of "replicate 61 CHR ''/''" 61 "\<lambda>_. CHR ''x''"] by simp

text \<open>\<open>hashEncodeHex\<close> turns the first 20 bytes of the array into the C string of their 40
  hex digits, and \<open>destructiveHexDecode\<close> gives the 20 bytes back.\<close>
theorem hashEncodeHex_roundtrip:
  assumes "41 \<le> length hash" "41 \<le> n" "n < 2 ^ 64"
  shows "\<exists>e r. hashEncodeHex stk hash n = Some (0, e) \<and> length e = length hash \<and>
           cstr e = Some (hex_encode (take 20 hash)) \<and>
           destructiveHexDecode e = Some (20, take 20 hash @ NUL # r)"
proof -
  let ?h = "hex_encode (take 20 hash)"
  have "NUL \<notin> set ?h" using hex.encoded_noNUL by (simp add: hex_encode_def)
  moreover have "hex_decode ?h = Some (take 20 hash)"
    using hex.roundtrip by (simp add: hex_encode_def)
  ultimately show ?thesis
    using hashEncodeHex_eq [OF assms, of stk] assms(1)
      destructiveHexDecode_Some [of ?h "take 20 hash" "drop 41 hash"]
    by (simp add: cstr_append)
qed

theorem hashEncodeHex_roundtrip_witness:
  "\<exists>e r. hashEncodeHex (\<lambda>_. CHR ''x'') (replicate 60 NUL) 60 = Some (0, e) \<and> length e = 60 \<and>
     cstr e = Some (replicate 40 CHR ''0'') \<and>
     destructiveHexDecode e = Some (20, replicate 20 NUL @ NUL # r)"
proof -
  have "hex_encode (replicate 20 NUL) = replicate 40 CHR ''0''"
    by code_simp
  then show ?thesis
    using hashEncodeHex_roundtrip [of "replicate 60 NUL" 60 "\<lambda>_. CHR ''x''"] by simp
qed

text \<open>A length below 41 is refused and the hash left alone.\<close>

lemma url_decode_loop_length: "url_decode_loop b i c = Some (r, b') \<Longrightarrow> length b' = length b"
  by (induction b i c rule: url_decode_loop.induct)
    (subst (asm) url_decode_loop.simps,
      auto simp: wr_eq_Some_iff elim!: bind_SomeE split: if_split_asm)

lemma decoders_length: "destructiveURLDecode b = Some (r, b') \<Longrightarrow> length b' = length b"
  by (simp add: destructiveURLDecode_def url_decode_loop_length)

lemma hashEncodeHex_short_buffer:
  assumes "0 \<le> n" "n < 41"
  shows "hashEncodeHex stk hash n = Some (-1, hash)"
  using assms by (simp add: hashEncodeHex_def max_len_defs)

text \<open>An escape written with an upper-case hex digit makes \<open>destructiveURLDecode\<close> fail, so a
  client that escapes its info hash as \<^verbatim>\<open>%AF\<close> instead of \<^verbatim>\<open>%af\<close> is not understood.\<close>
theorem destructiveURLDecode_rejects_uppercase:
  assumes "NUL \<notin> set (pre @ z # s)" "CHR ''%'' \<notin> set pre" "y \<in> set ''ABCDEF''"
  shows "\<exists>b'. destructiveURLDecode (pre @ CHR ''%'' # y # z # s @ [NUL]) = Some (-1, b')"
proof -
  have "y \<notin> set hexdict" using assms(3) by (auto simp: hexdict_def)
  then have "hexval y = None" by (simp add: hexval_def index_of_None_iff)
  then have "url_decode (CHR ''%'' # y # z # s) = None" by (simp add: url_decode_escape)
  moreover have "url_decode (pre @ r) = None" if "url_decode r = None" for r
    using assms(2)
  proof (induction pre)
    case (Cons p pre)
    then have "p \<noteq> CHR ''%''" by auto
    with Cons show ?case by (simp add: url_decode_plain)
  qed (simp add: that)
  ultimately have "url_decode (pre @ CHR ''%'' # y # z # s) = None" by blast
  moreover have "NUL \<notin> set (pre @ CHR ''%'' # y # z # s)" using assms by auto
  ultimately show ?thesis
    using destructiveURLDecode_decoded [of "pre @ CHR ''%'' # y # z # s" "[]"]
    by (auto simp: decoded_def)
qed

theorem destructiveURLDecode_rejects_uppercase_witness:
  "\<exists>b'. destructiveURLDecode (''a'' @ CHR ''%'' # CHR ''A'' # CHR ''b'' # ''cd'' @ [NUL]) = Some (-1, b')"
  by (rule destructiveURLDecode_rejects_uppercase) simp_all

lemma hex_decode_length: "hex_decode s = Some d \<Longrightarrow> length d \<le> length s"
proof (induction s arbitrary: d rule: hex_decode.induct)
  case (3 x y s)
  then obtain a b d' where "hexval x = Some a" "hexval y = Some b" "hex_decode s = Some d'"
      "length d = Suc (length d')"
    by (auto split: option.splits)
  with "3.IH" [of a b d'] show ?case by simp
qed auto

lemma url_decode_length: "url_decode s = Some d \<Longrightarrow> length d \<le> length s"
proof (induction s arbitrary: d rule: url_decode.induct)
  case (2 x s)
  show ?case
  proof (cases "x = CHR ''%'' \<and> 2 \<le> length s")
    case True
    then obtain y z s' where s: "s = y # z # s'" by (auto elim: two_le_lengthE)
    from "2.prems" True s obtain a b d' where
      *: "hexval y = Some a" "hexval z = Some b" "url_decode s' = Some d'" "length d = Suc (length d')"
      by (auto simp: url_decode_escape split: option.splits)
    with "2.IH"(1) [OF True, of a b d'] s show ?thesis by simp
  next
    case False
    then show ?thesis using "2.IH"(2) [OF False] "2.prems" by (auto simp: url_decode_plain)
  qed
qed auto

text \<open>C38: On every array that contains a NUL both decoders stay inside the array, keep its
  length, terminate, and return -1 or a length smaller than that of the array.\<close>
theorem decoders_in_bounds:
  assumes "NUL \<in> set b"
  shows "(\<exists>r b'. destructiveURLDecode b = Some (r, b') \<and> length b' = length b \<and> -1 \<le> r \<and> r < int (length b)) \<and>
         (\<exists>r b'. destructiveHexDecode b = Some (r, b') \<and> length b' = length b \<and> -1 \<le> r \<and> r < int (length b))"
proof -
  obtain s t where b: "b = s @ NUL # t" "NUL \<notin> set s"
    using assms by (meson split_list_first)
  show ?thesis
    using destructiveURLDecode_decoded [OF b(2), of t] destructiveHexDecode_decoded [OF b(2), of t]
      url_decode_length hex_decode_length b(1)
    by (fastforce simp: decoded_def less_Suc_eq_le split: option.splits)
qed

theorem decoders_in_bounds_witness:
  "(\<exists>r b'. destructiveURLDecode [NUL] = Some (r, b') \<and> length b' = 1 \<and> -1 \<le> r \<and> r < 1) \<and>
   (\<exists>r b'. destructiveHexDecode [NUL] = Some (r, b') \<and> length b' = 1 \<and> -1 \<le> r \<and> r < 1)"
  using decoders_in_bounds [of "[NUL]"] by simp

end
