(* ===== verification/Torrentfile.thy ===== *)
theory Torrentfile
  imports Benc Encoding World
begin

text \<open>
  Reading a torrent file in the getpeers tool (\<^verbatim>\<open>src/getpeers/file.c\<close>). \<open>disk\<close> is what the C library
  and OpenSSL do: \<open>dk_file\<close> gives the size of a file and the bytes that \<open>fread\<close> gets, at most
  that many, \<open>dk_heap\<close> fresh memory, \<open>dk_sha1\<close> the digest.
\<close>

record disk =
  dk_file :: "string \<Rightarrow> (nat \<times> string) option"
  dk_heap :: "(nat \<Rightarrow> char) option"
  dk_sha1 :: "string \<Rightarrow> string"

datatype loaded = No_file | No_memory | Loaded string

text \<open>A file is read into a buffer of its size and one byte more, and terminated.\<close>

definition load_file :: "disk \<Rightarrow> string \<Rightarrow> loaded option" where
  "load_file d filename =
     (case dk_file d filename of
        None \<Rightarrow> Some No_file
      | Some (filesize, data) \<Rightarrow>
          (case dk_heap d of
             None \<Rightarrow> Some No_memory
           | Some heap \<Rightarrow> do {
               buffer \<leftarrow> mem_put (uninit heap (filesize + 1)) 0 data;
               buffer \<leftarrow> wr buffer (length data) NUL;
               Some (Loaded buffer) }))"

text \<open>\<open>len\<close> bytes at position \<open>p\<close> of a buffer; a negative length is a huge \<open>size_t\<close>.\<close>

definition bytes_at :: "string \<Rightarrow> int \<Rightarrow> int \<Rightarrow> string option" where
  "bytes_at b p len = (if len < 0 then None else do { q \<leftarrow> ptr_at b p; mem_get q (nat len) })"

text \<open>The tracker of the file: \<^term>\<open>Some None\<close> when the function fails.\<close>

definition read_tracker :: "nat \<Rightarrow> disk \<Rightarrow> string \<Rightarrow> string option option" where
  "read_tracker n d buffer = do {
     offset \<leftarrow> benc_dict_value_offset n buffer 0 (Some (lit ''announce''));
     len \<leftarrow> benc_string_length buffer offset;
     if offset < 0 \<or> len < 0 then Some None
     else do {
       heap \<leftarrow> dk_heap d;
       data_offset \<leftarrow> benc_string_data_offset buffer offset;
       data \<leftarrow> bytes_at buffer (data_offset + offset) len;
       tracker \<leftarrow> mem_put (uninit heap (nat len + 1)) 0 data;
       tracker \<leftarrow> wr tracker (nat len) NUL;
       Some (Some tracker) } }"

definition SHA_DIGEST_LENGTH :: nat where "SHA_DIGEST_LENGTH = 20"

text \<open>The loop that writes the digest in hexadecimal.\<close>

definition digest_hex :: "string \<Rightarrow> string \<Rightarrow> string option" where
  "digest_hex hash digest = hex_encode_loop SHA_DIGEST_LENGTH digest hash 0"

text \<open>The hash of the file. When there is no dictionary of that name, the code frees a pointer that
  \<open>malloc\<close> never gave, which is undefined.\<close>

definition read_hash :: "nat \<Rightarrow> disk \<Rightarrow> string \<Rightarrow> string \<Rightarrow> string option" where
  "read_hash n d buffer hash = do {
     offset \<leftarrow> benc_dict_value_offset n buffer 0 (Some (lit ''info''));
     len \<leftarrow> benc_entity_length n buffer offset;
     t \<leftarrow> (if offset < 0 \<or> len < 0 then Some T_FAIL else benc_entity_type buffer offset);
     if t \<noteq> T_DICT then None
     else do {
       info \<leftarrow> bytes_at buffer offset len;
       digest_hex hash (dk_sha1 d info) } }"

text \<open>\<open>tracker\<close> and \<open>hash\<close> are the values behind the pointers of the code; \<open>hash\<close> is a buffer.
  Both are given back with the result.\<close>

definition read_torrentfile ::
    "nat \<Rightarrow> disk \<Rightarrow> string \<Rightarrow> string option \<Rightarrow> string \<Rightarrow> (int \<times> string option \<times> string) option" where
  "read_torrentfile n d filename tracker hash = do {
     f \<leftarrow> load_file d filename;
     (case f of
        Loaded buffer \<Rightarrow> do {
          t \<leftarrow> benc_entity_type buffer 0;
          len \<leftarrow> (if t \<noteq> T_DICT then Some (-1) else benc_entity_length n buffer 0);
          if len < 0 then Some (-1, tracker, hash)
          else do {
            found \<leftarrow> (if tracker = None then read_tracker n d buffer else Some tracker);
            if found = None then Some (-1, tracker, hash)
            else do {
              h0 \<leftarrow> rd hash 0;
              hash \<leftarrow> (if h0 = NUL then read_hash n d buffer hash else Some hash);
              Some (0, found, hash) } } }
      | _ \<Rightarrow> Some (-1, tracker, hash)) }"

end
