(* ===== verification/Getpeers.thy ===== *)
theory Getpeers
  imports Netlib Torrentfile
begin

text \<open>
  The getpeers tool (\<^verbatim>\<open>src/getpeers/getpeers.c\<close>): it announces itself to a tracker and prints the
  peers in the answer. What \<open>main\<close> prints is part of the result (what the functions of \<open>Netlib\<close> and
  \<open>Torrentfile\<close> report is not); there is always memory for a copy of the tracker option. The random
  numbers and the bytes of the stack are parameters.
\<close>

definition getpeers_usage :: "string \<Rightarrow> string" where
  "getpeers_usage fn =
     fn @ '' <infile>'' @ tab @ tab @ ''Get information from <infile>'' @ newline @
     fn @ '' -t <tracker-url>'' @ tab @ ''Use specific tracker'' @ newline @
     fn @ '' -h <info-hash>'' @ tab @ tab @ ''Query for specific hash'' @ newline @
     fn @ '' -c'' @ tab @ tab @ tab @ ''Request peers in compact notation [No]'' @ newline @
     fn @ '' -s'' @ tab @ tab @ tab @ ''Also issue scrape request [No]'' @ newline @
     fn @ '' -v <4|6>'' @ tab @ tab @ ''Force IPv4/6 connection'' @ newline @
     fn @ '' -n <peers>'' @ tab @ tab @ ''Number of peers to request [50]'' @ newline @
     fn @ '' -p <port>'' @ tab @ tab @ ''Opened port [6969]'' @ newline @
     fn @ '' -e <event>'' @ tab @ tab @ ''Event to send [none]'' @ newline @
     fn @ '' -i <peerid>'' @ tab @ tab @ ''URLEncoded peer ID to send [-TC0010-%rand%]'' @ newline"

section \<open>Options\<close>

record request =
  rq_infile :: "string option"
  rq_tracker :: "string option"
  rq_hash :: string
  rq_peerid :: string
  rq_family :: family
  rq_numwant :: "string option"
  rq_port :: "string option"
  rq_event :: "string option"
  rq_compact :: bool
  rq_scrape :: bool

definition empty_request :: request where
  "empty_request = \<lparr>rq_infile = None, rq_tracker = None, rq_hash = replicate (MAX_URLENC_HASH_LEN + 1) NUL,
     rq_peerid = replicate (MAX_URLENC_HASH_LEN + 1) NUL, rq_family = AF_UNSPEC, rq_numwant = None, rq_port = None,
     rq_event = None, rq_compact = False, rq_scrape = False\<rparr>"

text \<open>Each part of the program goes on with a value or ends it, with an exit code and a text printed.\<close>

datatype 'a progress = Go 'a | Exit int string

definition isxdigit :: "char \<Rightarrow> bool" where
  "isxdigit c \<longleftrightarrow> isdigit c \<or> c \<in> set ''abcdefABCDEF''"

text \<open>\<^verbatim>\<open>-i\<close>: the identifier is decoded and encoded again, in place.\<close>

definition peerid_option :: "(nat \<Rightarrow> char) \<Rightarrow> string \<Rightarrow> request \<Rightarrow> request progress option" where
  "peerid_option stk v r =
     (if length v < MAX_URLENC_HASH_LEN then do {
        peerid \<leftarrow> mem_put (rq_peerid r) 0 (lit v);
        (n, peerid) \<leftarrow> destructiveURLDecode peerid;
        if n \<noteq> 20 then Some (Exit 1 (''Supplied peer ID has invalid length, aborting'' @ newline))
        else do {
          (_, peerid) \<leftarrow> hashEncodeURL stk peerid (int (MAX_URLENC_HASH_LEN + 1));
          Some (Go (r\<lparr>rq_peerid := peerid\<rparr>)) } }
      else Some (Exit 1 (''Illegal peer ID supplied, aborting'' @ newline)))"

text \<open>An option \<open>opt\<close> with the argument \<open>v\<close>; \<open>fn\<close> is the name of the program.\<close>

definition getpeers_option ::
    "(nat \<Rightarrow> char) \<Rightarrow> string \<Rightarrow> char \<Rightarrow> string \<Rightarrow> request \<Rightarrow> request progress option" where
  "getpeers_option stk fn opt v r =
     (if opt = CHR ''t'' then Some (Go (r\<lparr>rq_tracker := Some (lit v)\<rparr>))
      else if opt = CHR ''h'' then
        (if length v > MAX_URLENC_HASH_LEN
         then Some (Exit 1 (''Hash argument too long, aborting'' @ newline @ getpeers_usage fn))
         else if \<not> list_all isxdigit v
         then Some (Exit 1 (''Argument is not a valid hash, aborting'' @ newline @ getpeers_usage fn))
         else map_option (\<lambda>h. Go (r\<lparr>rq_hash := h\<rparr>)) (strncpy (rq_hash r) (lit v) (length v + 1)))
      else if opt = CHR ''v'' then do {
        x \<leftarrow> rd (lit v) 0;
        Some (if x = CHR ''4'' then Go (r\<lparr>rq_family := AF_INET\<rparr>)
              else if x = CHR ''6'' then Go (r\<lparr>rq_family := AF_INET6\<rparr>)
              else Exit 1 (''Unrecognized IP Version, aborting'' @ newline @ getpeers_usage fn)) }
      else if opt = CHR ''n'' then
        Some (if list_all isdigit v then Go (r\<lparr>rq_numwant := Some v\<rparr>)
              else Exit 1 (''Peer count argument invalid, aborting'' @ newline @ getpeers_usage fn))
      else if opt = CHR ''p'' then
        Some (if list_all isdigit v then Go (r\<lparr>rq_port := Some v\<rparr>)
              else Exit 1 (''Port argument invalid, aborting'' @ newline @ getpeers_usage fn))
      else if opt = CHR ''e'' then Some (Go (r\<lparr>rq_event := Some v\<rparr>))
      else if opt = CHR ''i'' then peerid_option stk v r
      else Some (Go r))"

text \<open>The loop over the arguments. An option that is not known takes an argument too; one that
  lacks its argument is ignored.\<close>

fun getpeers_args :: "(nat \<Rightarrow> char) \<Rightarrow> string \<Rightarrow> string list \<Rightarrow> request \<Rightarrow> request progress option" where
  "getpeers_args stk fn [] r = Some (Go r)"
| "getpeers_args stk fn [a] r = do {
     x \<leftarrow> rd (lit a) 0;
     if x \<noteq> CHR ''-'' then Some (Go (r\<lparr>rq_infile := Some a\<rparr>))
     else do {
       opt \<leftarrow> rd (lit a) 1;
       Some (Go (if opt = CHR ''c'' then r\<lparr>rq_compact := True\<rparr>
                 else if opt = CHR ''s'' then r\<lparr>rq_scrape := True\<rparr> else r)) } }"
| "getpeers_args stk fn (a # v # args) r = do {
     x \<leftarrow> rd (lit a) 0;
     if x \<noteq> CHR ''-'' then getpeers_args stk fn (v # args) (r\<lparr>rq_infile := Some a\<rparr>)
     else do {
       opt \<leftarrow> rd (lit a) 1;
       if opt = CHR ''c'' then getpeers_args stk fn (v # args) (r\<lparr>rq_compact := True\<rparr>)
       else if opt = CHR ''s'' then getpeers_args stk fn (v # args) (r\<lparr>rq_scrape := True\<rparr>)
       else do {
         st \<leftarrow> getpeers_option stk fn opt v r;
         (case st of Go r \<Rightarrow> getpeers_args stk fn args r | Exit code out \<Rightarrow> Some (Exit code out)) } } }"

section \<open>The request\<close>

text \<open>A random identifier: \<open>rnd i\<close> is the \<open>i\<close>th result of \<open>rand\<close>.\<close>

definition random_peerid :: "(nat \<Rightarrow> nat) \<Rightarrow> string \<Rightarrow> string option" where
  "random_peerid rnd peerid = do {
     peerid \<leftarrow> strncpy peerid (lit ''-TC0010-'') 8;
     mem_put peerid 8 (map (\<lambda>i. char_of (rnd i mod 128 + 33)) [0..<12]) }"

definition fill_peerid :: "(nat \<Rightarrow> char) \<Rightarrow> (nat \<Rightarrow> nat) \<Rightarrow> request \<Rightarrow> request option" where
  "fill_peerid stk rnd r = do {
     x \<leftarrow> rd (rq_peerid r) 0;
     if x \<noteq> NUL then Some r
     else do {
       peerid \<leftarrow> random_peerid rnd (rq_peerid r);
       (_, peerid) \<leftarrow> hashEncodeURL stk peerid (int (MAX_URLENC_HASH_LEN + 1));
       Some (r\<lparr>rq_peerid := peerid\<rparr>) } }"

text \<open>The hash in the notation of a URL.\<close>

definition encode_hash :: "(nat \<Rightarrow> char) \<Rightarrow> string \<Rightarrow> string option" where
  "encode_hash stk hash = do {
     (_, hash) \<leftarrow> destructiveHexDecode hash;
     (_, hash) \<leftarrow> hashEncodeURL stk hash (int MAX_URLENC_HASH_LEN);
     Some hash }"

definition path_parts :: "request \<Rightarrow> cptr \<Rightarrow> cptr \<Rightarrow> cptr list" where
  "path_parts r path hash = [path, lit ''?info_hash='', hash,
     lit ''&port='', lit (case rq_port r of Some p \<Rightarrow> p | None \<Rightarrow> ''6969''),
     lit ''&numwant='', lit (case rq_numwant r of Some n \<Rightarrow> n | None \<Rightarrow> ''50''),
     lit ''&peer_id='', rq_peerid r,
     lit (if rq_event r \<noteq> None then ''&event='' else ''''), lit (case rq_event r of Some ev \<Rightarrow> ev | None \<Rightarrow> ''''),
     lit ''&compact='', lit (if rq_compact r then ''1'' else ''0'')]"

text \<open>From the URL of the tracker to its response.\<close>

definition fetch_peers ::
    "nat \<Rightarrow> net \<Rightarrow> request \<Rightarrow> string \<Rightarrow> cptr \<Rightarrow> link \<Rightarrow> (string progress \<times> link) option" where
  "fetch_peers n t r tracker hash k = do {
     (u, tracker) \<leftarrow> parse_url_destructive tracker;
     let url = url_pointers tracker u;
     if url_status url \<noteq> 0 then Some (Exit 1 ''Failed to parse tracker URL, aborting.'', k)
     else do {
       protocol \<leftarrow> url_protocol url;
       http \<leftarrow> strcmp0 protocol (lit ''http'');
       p \<leftarrow> cstr protocol;
       if \<not> http then Some (Exit 1 (''Unknown tracker protocol ('' @ p @ ''), aborting'' @ newline), k)
       else do {
         let url = (if url_port url = None then url\<lparr>url_port := Some (lit ''80'')\<rparr> else url);
         (case (url_host url, url_path url) of
            (Some _, Some path) \<Rightarrow> do {
              path \<leftarrow> string_merge (nt_heap t (lk_calls k)) (path_parts r path hash);
              (i, response, k) \<leftarrow> http_get n t (url\<lparr>url_path := path\<rparr>) (rq_family r) k;
              Some (case response of
                      Some b \<Rightarrow> if i < 0 then Exit 1 (''Error fetching peers, aborting'' @ newline) else Go b
                    | None \<Rightarrow> Exit 1 (''Error fetching peers, aborting'' @ newline), k) }
          | _ \<Rightarrow> Some (Exit 1 ''Tracker URL invalid'', k)) } } }"

section \<open>The answer\<close>

text \<open>The bytes of a string entity at position \<open>p\<close>, as \<open>fwrite\<close> prints them.\<close>

definition string_at :: "string \<Rightarrow> int \<Rightarrow> string option" where
  "string_at b p = do {
     d \<leftarrow> benc_string_data_offset b p;
     len \<leftarrow> benc_string_length b p;
     bytes_at b (p + d) len }"

text \<open>One peer in the long notation.\<close>

definition print_peer :: "nat \<Rightarrow> string \<Rightarrow> int \<Rightarrow> string option" where
  "print_peer n b p = do {
     t \<leftarrow> benc_entity_type b p;
     if t \<noteq> T_DICT then Some (''Invalid data received'' @ newline)
     else do {
       ip_offset \<leftarrow> benc_dict_value_offset n b p (Some (lit ''ip''));
       port_offset \<leftarrow> benc_dict_value_offset n b p (Some (lit ''port''));
       id_offset \<leftarrow> benc_dict_value_offset n b p (Some (lit ''peer id''));
       if ip_offset < 0 \<or> port_offset < 0 then Some (''Incomplete peer dictionary'' @ newline)
       else do {
         ip \<leftarrow> string_at b (p + ip_offset);
         port \<leftarrow> benc_int_value b (p + port_offset) (-1);
         peer_id \<leftarrow> (if id_offset > 0 then map_option ((@) '' '') (string_at b (p + id_offset)) else Some []);
         Some (tab @ tab @ ip @ '':'' @ dec port @ peer_id @ newline) } } }"

text \<open>The loop over the peers; \<open>item_offset\<close> is the offset of the peer \<open>item\<close>.\<close>

fun print_peer_list :: "nat \<Rightarrow> string \<Rightarrow> int \<Rightarrow> int \<Rightarrow> int \<Rightarrow> string option" where
  "print_peer_list 0 b p item item_offset = None"
| "print_peer_list (Suc n) b p item item_offset =
     (if item_offset > 0 then do {
        out \<leftarrow> print_peer n b (p + item_offset);
        item \<leftarrow> int_add item 1;
        item_offset \<leftarrow> benc_list_item_offset n b p item;
        more \<leftarrow> print_peer_list n b p item item_offset;
        Some (out @ more) }
      else Some [])"

text \<open>\<open>inet_ntop\<close> of an IPv4 address, and the port behind it in network byte order.\<close>

fun inet_ntop4 :: "string \<Rightarrow> string" where
  "inet_ntop4 [] = []"
| "inet_ntop4 [a] = dec_nat (of_char a)"
| "inet_ntop4 (a # as) = dec_nat (of_char a) @ ''.'' @ inet_ntop4 as"

fun ntohs :: "string \<Rightarrow> int" where
  "ntohs [a, b] = 256 * of_char a + of_char b"
| "ntohs _ = 0"

fun print_compact :: "nat \<Rightarrow> string \<Rightarrow> int \<Rightarrow> string option" where
  "print_compact 0 b p = Some []"
| "print_compact (Suc n) b p = do {
     addr \<leftarrow> bytes_at b p 4;
     port \<leftarrow> bytes_at b (p + 4) 2;
     more \<leftarrow> print_compact n b (p + 6);
     Some (tab @ tab @ inet_ntop4 addr @ '':'' @ dec (ntohs port) @ newline @ more) }"

text \<open>The peers section of the answer at position \<open>p\<close>.\<close>

definition print_peers :: "nat \<Rightarrow> string \<Rightarrow> int \<Rightarrow> string option" where
  "print_peers n b p = do {
     offset \<leftarrow> benc_dict_value_offset n b p (Some (lit ''peers''));
     t \<leftarrow> benc_entity_type b (p + offset);
     (case t of
        T_LIST \<Rightarrow> do {
          item_offset \<leftarrow> benc_list_item_offset n b (p + offset) 0;
          out \<leftarrow> print_peer_list n b (p + offset) 0 item_offset;
          Some (tab @ ''Peers (received in non-compact format):'' @ newline @ out) }
      | T_STRING \<Rightarrow> do {
          len \<leftarrow> benc_string_length b (p + offset);
          d \<leftarrow> benc_string_data_offset b (p + offset);
          out \<leftarrow> (if len < 0 then (if len mod 6 \<noteq> 0 then Some (''Compact peer data is invalid'' @ newline) else Some [])
                 else if len mod 6 \<noteq> 0 then Some (''Compact peer data is invalid'' @ newline)
                 else print_compact (nat (len div 6)) b (p + offset + d));
          Some (tab @ ''Peers (received in compact format):'' @ newline @ out) }
      | _ \<Rightarrow> Some (''Failed to read peers section of reply'' @ newline)) }"

text \<open>A number of the answer; its lines differ in what is printed around it.\<close>

definition print_number :: "nat \<Rightarrow> string \<Rightarrow> int \<Rightarrow> string \<Rightarrow> string \<Rightarrow> string \<Rightarrow> string \<Rightarrow> string option" where
  "print_number n b p key before after absent = do {
     offset \<leftarrow> benc_dict_value_offset n b p (Some (lit key));
     if offset > 0 then map_option (\<lambda>v. before @ dec v @ after) (benc_int_value b (p + offset) (-1))
     else Some absent }"

definition print_answer :: "nat \<Rightarrow> string \<Rightarrow> int \<Rightarrow> string option" where
  "print_answer n b p = do {
     offset \<leftarrow> benc_dict_value_offset n b p (Some (lit ''failure reason''));
     out \<leftarrow>
       (if offset > 0 then do {
          t \<leftarrow> benc_entity_type b (p + offset);
          reason \<leftarrow> (if t \<noteq> T_STRING then Some ''Reason in invalid format'' else string_at b (p + offset));
          Some (''Tracker error: '' @ reason) }
        else do {
          interval \<leftarrow> print_number n b p ''interval'' (tab @ ''Announce interval: '') ('' seconds'' @ newline)
            (''Tracker response did not include announce interval'' @ newline);
          seeds \<leftarrow> print_number n b p ''complete'' (tab @ ''Active Seeds: '') newline [];
          leeches \<leftarrow> print_number n b p ''incomplete'' (tab @ ''Active Peers: '') newline [];
          peers \<leftarrow> print_peers n b p;
          Some (interval @ seeds @ leeches @ peers) });
     Some (newline @ ''Tracker response:'' @ newline @ out) }"

text \<open>The response: its body starts behind the first empty line.\<close>

definition print_response :: "nat \<Rightarrow> string \<Rightarrow> (int \<times> string) option" where
  "print_response n b = do {
     end \<leftarrow> find_str b 0 (crlf @ crlf);
     (case end of
        None \<Rightarrow> Some (-1, ''Invalid reply or non-protocol conforming server, aborting'' @ newline)
      | Some i \<Rightarrow> do {
          let p = int i + 4;
          t \<leftarrow> benc_entity_type b p;
          if t \<noteq> T_DICT then Some (-1, ''Response not a proper bencoded dictionary'' @ newline)
          else map_option (Pair 0) (print_answer n b p) }) }"

section \<open>The program\<close>

definition print_settings :: "request \<Rightarrow> string \<Rightarrow> string option" where
  "print_settings r tracker = do {
     t \<leftarrow> cstr tracker;
     hash \<leftarrow> cstr (rq_hash r);
     peerid \<leftarrow> cstr (rq_peerid r);
     Some (''Input:'' @ newline @
       tab @ ''Input file'' @ tab @ (case rq_infile r of Some f \<Rightarrow> f | None \<Rightarrow> ''-none-'') @ newline @
       tab @ ''Tracker'' @ tab @ tab @ t @ newline @
       tab @ ''Hash'' @ tab @ tab @ (if hash \<noteq> [] then hash else ''-none-'') @ newline @
       newline @ ''Request Settings:'' @ newline @
       tab @ ''Compact'' @ tab @ tab @ (if rq_compact r then ''true'' else ''false'') @ newline @
       tab @ ''Scrape'' @ tab @ tab @ (if rq_scrape r then ''true'' else ''false'') @ newline @
       tab @ ''Req. Peers'' @ tab @ (case rq_numwant r of Some m \<Rightarrow> m | None \<Rightarrow> ''50'') @ newline @
       tab @ ''Peer ID'' @ tab @ tab @ peerid @ newline) }"

text \<open>The sources of tracker and hash: the options, or else the file.\<close>

definition given :: "request \<Rightarrow> bool option" where
  "given r = map_option (\<lambda>h0. rq_tracker r \<noteq> None \<and> h0 \<noteq> NUL) (rd (rq_hash r) 0)"

definition check_sources :: "string \<Rightarrow> request \<Rightarrow> request progress option" where
  "check_sources fn r = do {
     ok \<leftarrow> given r;
     Some (if rq_infile r = None \<and> \<not> ok then Exit 1 (''Insufficient data'' @ newline @ getpeers_usage fn) else Go r) }"

definition read_sources :: "nat \<Rightarrow> disk \<Rightarrow> request \<Rightarrow> request progress option" where
  "read_sources n d r = do {
     ok \<leftarrow> given r;
     (case rq_infile r of
        Some infile \<Rightarrow>
          (if ok then Some (Go r)
           else do {
             (rc, tracker, hash) \<leftarrow> read_torrentfile n d infile (rq_tracker r) (rq_hash r);
             Some (if rc < 0 then Exit 1 (''Reading the input file failed, aborting'' @ newline)
                   else Go (r\<lparr>rq_tracker := tracker, rq_hash := hash\<rparr>)) })
      | None \<Rightarrow> Some (Go r)) }"

text \<open>The program from the complete request on.\<close>

definition query_tracker ::
    "nat \<Rightarrow> (nat \<Rightarrow> char) \<Rightarrow> net \<Rightarrow> request \<Rightarrow> link \<Rightarrow> (int \<times> string \<times> link) option" where
  "query_tracker n stk t r k =
     (case rq_tracker r of
        None \<Rightarrow> Some (9001, ''Something went terribly wrong. Aborting.'' @ newline, k)
      | Some tracker \<Rightarrow> do {
          settings \<leftarrow> print_settings r tracker;
          hash \<leftarrow> encode_hash stk (rq_hash r);
          (st, k) \<leftarrow> fetch_peers n t r tracker hash k;
          (case st of
             Exit code out \<Rightarrow> Some (code, settings @ out, k)
           | Go response \<Rightarrow> do {
               (code, out) \<leftarrow> print_response n response;
               Some (code, settings @ out, k) }) })"

text \<open>\<open>proceed st k f\<close>: go on with \<open>f\<close>, unless the program has ended.\<close>

definition proceed :: "'a progress \<Rightarrow> link \<Rightarrow> ('a \<Rightarrow> (int \<times> string \<times> link) option) \<Rightarrow> (int \<times> string \<times> link) option" where
  "proceed st k f = (case st of Go r \<Rightarrow> f r | Exit code out \<Rightarrow> Some (code, out, k))"

definition getpeers_main ::
    "nat \<Rightarrow> (nat \<Rightarrow> char) \<Rightarrow> (nat \<Rightarrow> nat) \<Rightarrow> disk \<Rightarrow> net \<Rightarrow> string list \<Rightarrow> link \<Rightarrow> (int \<times> string \<times> link) option" where
  "getpeers_main n stk rnd d t argv k =
     (case argv of
        [] \<Rightarrow> None
      | fn # args \<Rightarrow>
        (if args = [] then Some (1, getpeers_usage fn, k)
         else do {
           st \<leftarrow> getpeers_args stk fn args empty_request;
           proceed st k (\<lambda>r. do {
             st \<leftarrow> check_sources fn r;
             proceed st k (\<lambda>r. do {
               r \<leftarrow> fill_peerid stk rnd r;
               st \<leftarrow> read_sources n d r;
               proceed st k (\<lambda>r. query_tracker n stk t r k) }) }) }))"

end
