(* ===== verification/Neth.thy ===== *)
theory Neth
  imports Encoding World
begin

text \<open>
  The network helpers of \<^verbatim>\<open>src/neth.c\<close>: sending, the search for request parameters, and the
  length a percent-encoded parameter will decode to.
\<close>

section \<open>The code\<close>

text \<open>The commented-out loop of \<open>reallySend\<close> leaves one call of \<open>send\<close>.\<close>

definition reallySend :: "os \<Rightarrow> int \<Rightarrow> cptr \<Rightarrow> nat \<Rightarrow> 'db world \<Rightarrow> (int \<times> 'db world) option" where
  "reallySend e fd msg len w = do {
     bs \<leftarrow> mem_get msg len;
     let r = os_send e fd bs;
     Some (to_int r, log_event (Sent fd (take (nat r) bs)) w) }"

definition sendString :: "os \<Rightarrow> int \<Rightarrow> cptr \<Rightarrow> 'db world \<Rightarrow> (int \<times> 'db world) option" where
  "sendString e fd msg w = do { n \<leftarrow> strlen msg; reallySend e fd msg n w }"

definition textAfter :: "cptr option \<Rightarrow> cptr \<Rightarrow> cptr option option" where
  "textAfter buf param =
     (case buf of
        None \<Rightarrow> Some None
      | Some p \<Rightarrow> do {
          needle \<leftarrow> cstr param;
          t \<leftarrow> strstr p needle;
          case t of None \<Rightarrow> Some None
          | Some q \<Rightarrow> do { n \<leftarrow> strlen param; Some (Some (drop n q)) } })"

definition sendHttpHeaders :: "os \<Rightarrow> int \<Rightarrow> cptr \<Rightarrow> cptr \<Rightarrow> 'db world \<Rightarrow> (int \<times> 'db world) option" where
  "sendHttpHeaders e fd rcode headers w = do {
     (_, w) \<leftarrow> sendString e fd (lit ''HTTP/1.1 '') w;
     (_, w) \<leftarrow> sendString e fd rcode w;
     (_, w) \<leftarrow> sendString e fd (lit crlf) w;
     (_, w) \<leftarrow> sendString e fd headers w;
     (_, w) \<leftarrow> sendString e fd (lit (''Content-type: text/plain'' @ crlf @ ''Connection: close'' @ crlf @
                                ''Server: traccoon'' @ crlf @ crlf)) w;
     Some (0, w) }"

fun decodedStrlen_loop :: "cptr \<Rightarrow> int \<Rightarrow> int \<Rightarrow> int \<Rightarrow> int option" where
  "decodedStrlen_loop [] mlen i c = None"
| "decodedStrlen_loop (x # p) mlen i c =
     (if x \<noteq> NUL \<and> (mlen = -1 \<or> i < mlen)
      then (if x = CHR ''%''
            then (case p of [] \<Rightarrow> None
                  | y # p1 \<Rightarrow>
                      if y = NUL then decodedStrlen_loop p mlen (i + 1) (c + 1)
                      else (case p1 of [] \<Rightarrow> None
                            | z # p2 \<Rightarrow>
                                if z = NUL then decodedStrlen_loop p mlen (i + 1) (c + 1)
                                else decodedStrlen_loop p2 mlen (i + 3) (c + 1)))
            else decodedStrlen_loop p mlen (i + 1) (c + 1))
      else Some c)"

definition decodedStrlen :: "cptr \<Rightarrow> int \<Rightarrow> int option" where
  "decodedStrlen str mlen = decodedStrlen_loop str mlen 0 0"

function strtolower_loop :: "string \<Rightarrow> nat \<Rightarrow> string option" where
  "strtolower_loop b i = do {
     x \<leftarrow> rd b i;
     if x = NUL then Some b
     else do { b' \<leftarrow> wr b i (tolower x); strtolower_loop b' (i + 1) } }"
  by pat_completeness auto
termination
  by (relation "measure (\<lambda>(b, i). length b - i)") (auto simp: rd_eq_Some_iff wr_eq_Some_iff)

declare strtolower_loop.simps [simp del]

definition strtolower :: "string \<Rightarrow> string option" where
  "strtolower b = strtolower_loop b 0"

fun httpParamLength_loop :: "cptr \<Rightarrow> nat \<Rightarrow> nat option" where
  "httpParamLength_loop [] i = None"
| "httpParamLength_loop (c # p) i =
     (if c \<noteq> NUL \<and> c \<noteq> CHR ''&'' \<and> c \<noteq> CHR '' '' then httpParamLength_loop p (i + 1) else Some i)"

definition httpParamLength :: "cptr \<Rightarrow> nat option" where
  "httpParamLength p = httpParamLength_loop p 0"

definition min_zero :: "int \<Rightarrow> int \<Rightarrow> int" where
  "min_zero a b =
     (if a < 0 then (if b < 0 then 0 else b)
      else if b < 0 then a
      else if b > a then a
      else b)"

section \<open>Sending\<close>

text \<open>What the log holds of the bytes given to one \<open>send\<close>.\<close>

definition sent_event :: "os \<Rightarrow> int \<Rightarrow> string \<Rightarrow> event" where
  "sent_event e fd s = Sent fd (take (nat (os_send e fd s)) s)"

lemma sendString_eq:
  "NUL \<notin> set s \<Longrightarrow> sendString e fd (s @ NUL # t) w =
     Some (to_int (os_send e fd s), log_event (sent_event e fd s) w)"
  by (simp add: sendString_def reallySend_def strlen_append mem_get_append Let_def sent_event_def)

lemma sendString_lit:
  "NUL \<notin> set s \<Longrightarrow> sendString e fd (lit s) w =
     Some (to_int (os_send e fd s), log_event (sent_event e fd s) w)"
  by (simp add: lit_def sendString_eq)

lemma reallySend_eq:
  "length s = n \<Longrightarrow> reallySend e fd (s @ t) n w =
     Some (to_int (os_send e fd s), log_event (sent_event e fd s) w)"
  by (auto simp: reallySend_def mem_get_append Let_def sent_event_def)

lemma sent_event_full: "full_send e \<Longrightarrow> sent_event e fd s = Sent fd s"
  by (simp add: sent_event_def full_send_def)

lemma sent_bytes_sent_events:
  "full_send e \<Longrightarrow> sent_bytes fd (map (sent_event e fd) ss) = concat ss"
  by (induction ss) (simp_all add: sent_event_full)

lemma sendString_full:
  "full_send e \<Longrightarrow> NUL \<notin> set s \<Longrightarrow>
   sendString e fd (lit s) w = Some (to_int (int (length s)), log_event (Sent fd s) w)"
  by (simp add: sendString_lit sent_event_full full_send_def)

lemma reallySend_full:
  "full_send e \<Longrightarrow> reallySend e fd (s @ t) (length s) w =
     Some (to_int (int (length s)), log_event (Sent fd s) w)"
  by (simp add: reallySend_def mem_get_append full_send_def)

lemma received_log_event [simp]:
  "received fd (log_event (Sent fd s) w) = received fd w @ s"
  "received fd (log_event (Closed fd') w) = received fd w"
  "received fd (log_event (Flushed fd') w) = received fd w"
  by (simp_all add: received_def log_event_def)

lemma wdb_log_event [simp]: "wdb (log_event ev w) = wdb w" "ticks (log_event ev w) = ticks w"
  by (simp_all add: log_event_def)

definition http_head :: "string \<Rightarrow> string \<Rightarrow> string" where
  "http_head rcode headers = ''HTTP/1.1 '' @ rcode @ crlf @ headers @ ''Content-type: text/plain'' @ crlf @
     ''Connection: close'' @ crlf @ ''Server: traccoon'' @ crlf @ crlf"

lemma crlf_noNUL [simp]: "NUL \<notin> set crlf"
  by (simp add: crlf_def)

lemma sendHttpHeaders_eq:
  assumes "NUL \<notin> set rc" "NUL \<notin> set h"
  shows "sendHttpHeaders e fd (lit rc) (lit h) w = Some (0, w\<lparr>events := events w @ map (sent_event e fd)
    [''HTTP/1.1 '', rc, crlf, h, ''Content-type: text/plain'' @ crlf @ ''Connection: close'' @ crlf @
       ''Server: traccoon'' @ crlf @ crlf]\<rparr>)"
  using assms by (simp add: sendHttpHeaders_def sendString_lit log_event_def)

lemma sendHttpHeaders_full:
  assumes "full_send e" "NUL \<notin> set rc" "NUL \<notin> set h"
  obtains w' where "sendHttpHeaders e fd (lit rc) (lit h) w = Some (0, w')"
    "received fd w' = received fd w @ http_head rc h" "wdb w' = wdb w" "ticks w' = ticks w"
  using assms by (simp add: sendHttpHeaders_def sendString_full http_head_def)

section \<open>Parameters\<close>

lemma starts_with_iff: "starts_with n p \<longleftrightarrow> (\<exists>q. p = n @ q)"
  by (induction n p rule: starts_with.induct) auto

lemma strstr_Some_Some:
  "strstr p n = Some (Some q) \<Longrightarrow> \<exists>pre r. p = pre @ q \<and> q = n @ r \<and> NUL \<notin> set pre"
proof (induction p)
  case (Cons c p)
  show ?case
  proof (cases "starts_with n (c # p)")
    case True
    with Cons.prems show ?thesis by (auto simp: starts_with_iff intro: exI [of _ "[]"])
  next
    case False
    with Cons.prems have "c \<noteq> NUL" "strstr p n = Some (Some q)" by (auto split: if_splits)
    with Cons.IH obtain pre r where "p = pre @ q" "q = n @ r" "NUL \<notin> set pre" by blast
    with \<open>c \<noteq> NUL\<close> have "c # p = (c # pre) @ q \<and> q = n @ r \<and> NUL \<notin> set (c # pre)" by simp
    then show ?thesis by blast
  qed
qed simp

lemma strstr_total: "NUL \<in> set p \<Longrightarrow> \<exists>r. strstr p n = Some r"
  by (induction p) auto

text \<open>\<open>units s\<close> counts the bytes \<open>s\<close> stands for, whether or not its escapes are valid.\<close>

fun units :: "string \<Rightarrow> nat" where
  "units [] = 0"
| "units (x # s) = Suc (units (if x = CHR ''%'' \<and> 2 \<le> length s then drop 2 s else s))"

lemma decodedStrlen_loop_unbounded:
  "NUL \<notin> set s \<Longrightarrow> decodedStrlen_loop (s @ NUL # t) (-1) i c = Some (c + int (units s))"
proof (induction s arbitrary: i c rule: units.induct)
  case (2 x s)
  show ?case
  proof (cases "x = CHR ''%'' \<and> 2 \<le> length s")
    case True
    then obtain y z s' where s: "s = y # z # s'" by (auto elim: two_le_lengthE)
    with 2 True show ?thesis by auto
  next
    case False
    then have "x \<noteq> CHR ''%'' \<or> s = [] \<or> (\<exists>y. s = [y])"
      by (cases s; cases "tl s") auto
    with 2 False show ?thesis by auto
  qed
qed simp

lemma url_decode_units: "url_decode s = Some d \<Longrightarrow> length d = units s"
proof (induction s arbitrary: d rule: units.induct)
  case (2 x s)
  show ?case
  proof (cases "x = CHR ''%'' \<and> 2 \<le> length s")
    case True
    then obtain y z s' where s: "s = y # z # s'" by (auto elim: two_le_lengthE)
    with 2 True show ?thesis by (auto simp: url_decode_escape split: option.splits)
  next
    case False
    with 2 show ?thesis by (auto simp: url_decode_plain)
  qed
qed simp

lemma decodedStrlen_loop_escape:
  "NUL \<notin> set (y # z # s) \<Longrightarrow> i < n \<Longrightarrow>
   decodedStrlen_loop (CHR ''%'' # y # z # s @ q) n i c = decodedStrlen_loop (s @ q) n (i + 3) (c + 1)"
  by auto

lemma decodedStrlen_loop_plain:
  "x \<noteq> NUL \<Longrightarrow> \<not> (x = CHR ''%'' \<and> 2 \<le> length s) \<Longrightarrow> NUL \<notin> set s \<Longrightarrow> i < n \<Longrightarrow>
   decodedStrlen_loop (x # s @ NUL # t) n i c = decodedStrlen_loop (s @ NUL # t) n (i + 1) (c + 1)"
  by (cases s; cases "tl s") auto

lemma decodedStrlen_loop_stop [simp]:
  "decodedStrlen_loop (NUL # p) n i c = Some c"
  "n \<noteq> -1 \<Longrightarrow> n \<le> i \<Longrightarrow> decodedStrlen_loop (x # p) n i c = Some c"
  by simp_all

declare decodedStrlen_loop.simps [simp del]

lemma decodedStrlen_loop_bounds:
  assumes "NUL \<notin> set s" "n \<le> i + int (length s)" "0 \<le> i" "0 \<le> n"
    and "decodedStrlen_loop (s @ NUL # t) n i c = Some c'"
  shows "n - i \<le> 3 * (c' - c) \<and> c' - c \<le> max 0 (n - i)"
  using assms
proof (induction "length s" arbitrary: s i c rule: less_induct)
  case less
  show ?case
  proof (cases "s = [] \<or> n \<le> i")
    case True
    with less.prems show ?thesis by (cases s) auto
  next
    case False
    then obtain x s1 where s: "s = x # s1" and i: "i < n" by (cases s) auto
    show ?thesis
    proof (cases "x = CHR ''%'' \<and> 2 \<le> length s1")
      case True
      then obtain y z s2 where s1: "s1 = y # z # s2" by (auto elim: two_le_lengthE)
      have "decodedStrlen_loop (s2 @ NUL # t) n (i + 3) (c + 1) = Some c'"
        using decodedStrlen_loop_escape [of y z s2 i n "NUL # t" c] less.prems s s1 True i by simp
      then have "n - (i + 3) \<le> 3 * (c' - (c + 1)) \<and> c' - (c + 1) \<le> max 0 (n - (i + 3))"
        using less.prems s s1 by (intro less.hyps) simp_all
      then show ?thesis using i by (simp add: max_def split: if_splits)
    next
      case False
      have "decodedStrlen_loop (s1 @ NUL # t) n (i + 1) (c + 1) = Some c'"
        using decodedStrlen_loop_plain [of x s1 i n t c] less.prems s False i by simp
      then have "n - (i + 1) \<le> 3 * (c' - (c + 1)) \<and> c' - (c + 1) \<le> max 0 (n - (i + 1))"
        using less.prems s by (intro less.hyps) simp_all
      then show ?thesis using i by simp
    qed
  qed
qed

lemma set_drop_last_two:
  "set (drop (length s - 2) s) \<subseteq> set (drop (length (p @ s) - 2) (p @ s))"
  by (cases "2 \<le> length s") (auto dest: in_set_dropD)

lemma decodedStrlen_loop_prefix:
  assumes "NUL \<notin> set (s @ r)" "CHR ''%'' \<notin> set (drop (length s - 2) s)" "0 \<le> i"
  shows "decodedStrlen_loop (s @ r @ NUL # t) (i + int (length s)) i c = Some (c + int (units s))"
  using assms
proof (induction "length s" arbitrary: s i c rule: less_induct)
  case less
  show ?case
  proof (cases s)
    case Nil
    with less.prems(3) show ?thesis by (cases r) auto
  next
    case (Cons x s1)
    show ?thesis
    proof (cases "x = CHR ''%''")
      case True
      have "2 \<le> length s1" using less.prems(2) Cons True by (cases "length s1 < 2") auto
      then obtain y z s2 where s1: "s1 = y # z # s2" by (auto elim: two_le_lengthE)
      have "CHR ''%'' \<notin> set (drop (length s2 - 2) s2)"
        using less.prems(2) set_drop_last_two [of s2 "[x, y, z]"] Cons s1 by auto
      then have "decodedStrlen_loop (s2 @ r @ NUL # t) (i + 3 + int (length s2)) (i + 3) (c + 1) =
          Some (c + 1 + int (units s2))"
        using less.prems Cons s1 by (intro less.hyps) simp_all
      then show ?thesis
        using decodedStrlen_loop_escape [of y z s2 i "i + 3 + int (length s2)" "r @ NUL # t" c] 
          less.prems Cons s1 True by (simp add: algebra_simps)
    next
      case False
      have "CHR ''%'' \<notin> set (drop (length s1 - 2) s1)"
        using less.prems(2) set_drop_last_two [of s1 "[x]"] Cons by auto
      then have "decodedStrlen_loop (s1 @ r @ NUL # t) (i + 1 + int (length s1)) (i + 1) (c + 1) =
          Some (c + 1 + int (units s1))"
        using less.prems Cons by (intro less.hyps) simp_all
      then show ?thesis
        using decodedStrlen_loop_plain [of x "s1 @ r" i "i + 1 + int (length s1)" t c]
          less.prems Cons False by (simp add: algebra_simps)
    qed
  qed
qed

lemma decodedStrlen_loop_total:
  assumes "NUL \<notin> set s" "0 \<le> n" "0 \<le> i"
  shows "\<exists>c'. decodedStrlen_loop (s @ NUL # t) n i c = Some c'"
  using assms
proof (induction "length s" arbitrary: s i c rule: less_induct)
  case less
  show ?case
  proof (cases "s = [] \<or> n \<le> i")
    case True
    with less.prems show ?thesis by (cases s) auto
  next
    case False
    then obtain x s1 where s: "s = x # s1" and i: "i < n" by (cases s) auto
    show ?thesis
    proof (cases "x = CHR ''%'' \<and> 2 \<le> length s1")
      case True
      then obtain y z s2 where s1: "s1 = y # z # s2" by (auto elim: two_le_lengthE)
      have "\<exists>c'. decodedStrlen_loop (s2 @ NUL # t) n (i + 3) (c + 1) = Some c'"
        using less.prems s s1 by (intro less.hyps) simp_all
      then show ?thesis
        using decodedStrlen_loop_escape [of y z s2 i n "NUL # t" c] less.prems s s1 True i by simp
    next
      case False
      have "\<exists>c'. decodedStrlen_loop (s1 @ NUL # t) n (i + 1) (c + 1) = Some c'"
        using less.prems s by (intro less.hyps) simp_all
      then show ?thesis
        using decodedStrlen_loop_plain [of x s1 i n t c] less.prems s False i by auto
    qed
  qed
qed

lemma strtolower_loop_eq:
  assumes "drop i b = s @ NUL # t" "NUL \<notin> set s"
  shows "strtolower_loop b i = Some (take i b @ map tolower s @ NUL # t)"
  using assms
proof (induction s arbitrary: b i)
  case Nil
  then have "rd b i = Some NUL" by (auto intro: rd_of_drop)
  then have "strtolower_loop b i = Some b" by (simp add: strtolower_loop.simps [of b])
  moreover have "b = take i b @ NUL # t"
    using Nil append_take_drop_id [of i b] by simp
  ultimately show ?case by simp
next
  case (Cons x s)
  then have x: "rd b i = Some x" "x \<noteq> NUL" and i: "i < length b"
    by (auto intro: rd_of_drop dest: drop_length_less)
  from Cons.prems have "drop (Suc i) (b[i := tolower x]) = s @ NUL # t"
    by (auto dest: drop_Suc_of_drop)
  with Cons.IH Cons.prems(2)
  have "strtolower_loop (b[i := tolower x]) (Suc i) =
      Some (take (Suc i) (b[i := tolower x]) @ map tolower s @ NUL # t)" by simp
  with x i show ?case
    by (simp add: strtolower_loop.simps [of b] wr_Some take_Suc_update)
qed

definition param_end :: "char \<Rightarrow> bool" where
  "param_end c \<longleftrightarrow> c = NUL \<or> c = CHR ''&'' \<or> c = CHR '' ''"

lemma httpParamLength_loop_eq:
  "\<forall>c \<in> set s. \<not> param_end c \<Longrightarrow> param_end d \<Longrightarrow>
   httpParamLength_loop (s @ d # t) i = Some (i + length s)"
  by (induction s arbitrary: i) (auto simp: param_end_def)

lemma httpParamLength_Some_iff:
  "httpParamLength p = Some n \<longleftrightarrow>
     (\<exists>s d t. p = s @ d # t \<and> length s = n \<and> (\<forall>c \<in> set s. \<not> param_end c) \<and> param_end d)" 
proof
  have "httpParamLength_loop p i = Some n \<Longrightarrow> 
    \<exists>s d t. p = s @ d # t \<and> i + length s = n \<and> (\<forall>c \<in> set s. \<not> param_end c) \<and> param_end d" for i
  proof (induction p arbitrary: i)
    case (Cons c p)
    show ?case
    proof (cases "param_end c")
      case True
      with Cons.prems have "c # p = [] @ c # p \<and> i + length ([]::string) = n" by (auto simp: param_end_def)
      with True show ?thesis by (metis empty_iff list.set(1))
    next
      case False
      with Cons.prems Cons.IH [of "Suc i"] obtain s d t where
        "p = s @ d # t" "Suc i + length s = n" "\<forall>c \<in> set s. \<not> param_end c" "param_end d"
        by (auto simp: param_end_def)
      with False show ?thesis by (intro exI [of _ "c # s"] exI [of _ d] exI [of _ t]) auto
    qed
  qed simp
  then show "httpParamLength p = Some n \<Longrightarrow>
     \<exists>s d t. p = s @ d # t \<and> length s = n \<and> (\<forall>c \<in> set s. \<not> param_end c) \<and> param_end d"
    by (fastforce simp: httpParamLength_def)
qed (auto simp: httpParamLength_def httpParamLength_loop_eq)


lemma strstr_first:
  assumes "strstr p n = Some (Some q)"
  shows "\<exists>pre. p = pre @ q \<and> starts_with n q \<and> NUL \<notin> set pre \<and>
           (\<forall>k < length pre. \<not> starts_with n (drop k p))"
  using assms
proof (induction p)
  case (Cons c p)
  show ?case
  proof (cases "starts_with n (c # p)")
    case True
    with Cons.prems show ?thesis by auto
  next
    case False
    with Cons.prems have c: "c \<noteq> NUL" and "strstr p n = Some (Some q)" by (auto split: if_splits)
    with Cons.IH obtain pre where pre: "p = pre @ q" "starts_with n q" "NUL \<notin> set pre"
      "\<forall>k < length pre. \<not> starts_with n (drop k p)" by blast
    have "\<not> starts_with n (drop k (c # p))" if "k < length (c # pre)" for k
      using pre(4) False that by (cases k) auto
    with pre c show ?thesis by (intro exI [of _ "c # pre"]) simp
  qed
qed simp

lemma strstr_None:
  assumes "strstr (s @ NUL # t) n = Some None" "NUL \<notin> set s" "k \<le> length s"
  shows "\<not> starts_with n (drop k s @ NUL # t)"
  using assms
proof (induction s arbitrary: k)
  case Nil
  then show ?case by (auto split: if_splits)
next
  case (Cons c s)
  then show ?case by (cases k) (auto split: if_splits)
qed

lemma textAfter_eq:
  "NUL \<notin> set param \<Longrightarrow> textAfter (Some p) (lit param) =
     (case strstr p param of None \<Rightarrow> None | Some t \<Rightarrow> Some (map_option (drop (length param)) t))"
  by (auto simp: textAfter_def cstr_lit strlen_def split: option.splits)

lemma httpParamLength_loop_le: "httpParamLength_loop (s @ NUL # t) i = Some n \<Longrightarrow> n \<le> i + length s"
  by (induction s arbitrary: i) (fastforce split: if_splits)+

lemma param_lengths:
  assumes "NUL \<notin> set s" "httpParamLength (s @ NUL # t) = Some n"
  shows "\<exists>c. decodedStrlen (s @ NUL # t) (int n) = Some c \<and> c \<le> int n \<and> int n \<le> 3 * c"
proof -
  have n: "n \<le> length s"
    using httpParamLength_loop_le [of s t 0 n] assms(2) by (simp add: httpParamLength_def)
  obtain c where c: "decodedStrlen_loop (s @ NUL # t) (int n) 0 0 = Some c"
    using decodedStrlen_loop_total [OF assms(1), of "int n" 0 t 0] by auto
  with decodedStrlen_loop_bounds [OF assms(1) _ _ _ c] n show ?thesis
    by (auto simp: decodedStrlen_def)
qed

section \<open>Properties\<close>

text \<open>\<open>textAfter\<close> on a C string: it answers NULL exactly when the parameter name occurs
  nowhere, and otherwise points right behind the first occurrence, wherever in the text that
  occurrence is (the name need not follow a separator).\<close>
theorem textAfter_first_occurrence:
  assumes "NUL \<notin> set s" "NUL \<notin> set param"
  shows "\<exists>r. textAfter (Some (s @ NUL # t)) (lit param) = Some r \<and>
     (case r of
        None \<Rightarrow> \<forall>k \<le> length s. \<not> starts_with param (drop k s @ NUL # t)
      | Some q \<Rightarrow> \<exists>pre. s @ NUL # t = pre @ param @ q \<and>
                   (\<forall>k < length pre. \<not> starts_with param (drop k (s @ NUL # t))))"
proof -
  obtain r where r: "strstr (s @ NUL # t) param = Some r"
    using strstr_total [of "s @ NUL # t" param] by auto
  show ?thesis
  proof (cases r)
    case None
    with r assms show ?thesis by (auto simp: textAfter_eq dest: strstr_None)
  next
    case (Some q)
    from strstr_first [OF r [unfolded Some]] obtain pre where
      "s @ NUL # t = pre @ q" "starts_with param q"
      "\<forall>k < length pre. \<not> starts_with param (drop k (s @ NUL # t))" by blast
    then show ?thesis
      using r Some assms by (auto simp: textAfter_eq starts_with_iff)
  qed
qed

theorem textAfter_first_occurrence_witness:
  "\<exists>r. textAfter (Some (''?no_peer_id=1'' @ NUL # [])) (lit ''peer_id='') = Some r \<and>
     (case r of
        None \<Rightarrow> \<forall>k \<le> length ''?no_peer_id=1''. \<not> starts_with ''peer_id='' (drop k ''?no_peer_id=1'' @ NUL # [])
      | Some q \<Rightarrow> \<exists>pre. ''?no_peer_id=1'' @ NUL # [] = pre @ ''peer_id='' @ q \<and>
                   (\<forall>k < length pre. \<not> starts_with ''peer_id='' (drop k (''?no_peer_id=1'' @ NUL # []))))"
  by (rule textAfter_first_occurrence) simp_all

text \<open>A parameter value that \<open>parseSocket\<close> accepts as 20 bytes has between 20 and 60
  characters, so the copy into the 61 byte array of the request leaves a terminator. The bound
  holds for every length: \<open>c\<close> decoded bytes come from between \<open>c\<close> and \<open>3 * c\<close> characters.\<close>
theorem decodedStrlen_param_bounds:
  assumes "NUL \<notin> set s" "httpParamLength (s @ NUL # t) = Some n"
  shows "\<exists>c. decodedStrlen (s @ NUL # t) (int n) = Some c \<and> c \<le> int n \<and> int n \<le> 3 * c"
  using assms by (rule param_lengths)

theorem decodedStrlen_param_bounds_witness:
  "\<exists>c. decodedStrlen (''a%2fb&port=1'' @ NUL # []) (int 5) = Some c \<and> c \<le> int 5 \<and> int 5 \<le> 3 * c"
  by (rule decodedStrlen_param_bounds) (simp_all add: httpParamLength_def)



text \<open>Without that restriction the prediction is wrong: for a parameter of 21 characters that
  ends in a percent sign and one more character, \<open>decodedStrlen\<close> also reads the separator behind
  the parameter and answers 20, the only length \<open>parseSocket\<close> accepts, but the copy of the
  parameter decodes to 21 bytes.\<close>
theorem decodedStrlen_reads_past_parameter:
  assumes "length s = 19" "\<forall>c \<in> set (y # s). \<not> param_end c \<and> c \<noteq> CHR ''%''"
    and "NUL \<notin> set r"
  shows "httpParamLength (s @ CHR ''%'' # y # CHR ''&'' # r @ [NUL]) = Some 21 \<and>
         decodedStrlen (s @ CHR ''%'' # y # CHR ''&'' # r @ [NUL]) 21 = Some 20 \<and>
         (\<exists>b. destructiveURLDecode (s @ CHR ''%'' # y # [NUL]) = Some (21, b))"
proof -
  have noNUL: "NUL \<notin> set (y # s)" using assms(2) by (auto simp: param_end_def)
  have len: "httpParamLength (s @ CHR ''%'' # y # CHR ''&'' # r @ [NUL]) = Some 21"
    using httpParamLength_loop_eq [of "s @ [CHR ''%'', y]" "CHR ''&''" "r @ [NUL]" 0] assms
    by (auto simp: httpParamLength_def param_end_def)
  have skip: "decodedStrlen_loop (u @ v @ [NUL]) n i c = decodedStrlen_loop (v @ [NUL]) n (i + int (length u)) (c + int (length u))"
    if "set u \<subseteq> set s" "NUL \<notin> set v" "i + int (length u) \<le> n" "0 \<le> i" for u v n i c
    using that
  proof (induction u arbitrary: i c)
    case (Cons x u)
    then have "x \<noteq> NUL" "x \<noteq> CHR ''%''" "NUL \<notin> set u" using assms(2) noNUL by auto
    with Cons show ?case
      using decodedStrlen_loop_plain [of x "u @ v" i n "[]" c] Cons.IH [of "i + 1" "c + 1"]
      by (simp add: algebra_simps)
  qed simp
  have esc: "decodedStrlen_loop (CHR ''%'' # y # CHR ''&'' # r @ [NUL]) 21 19 19 =
      decodedStrlen_loop (r @ [NUL]) 21 22 20"
    using decodedStrlen_loop_escape [of y "CHR ''&''" "[]" 19 21 "r @ [NUL]" 19] noNUL by simp
  have "decodedStrlen_loop (r @ [NUL]) 21 22 20 = Some 20" by (cases r) simp_all
  with esc skip [of s "CHR ''%'' # y # CHR ''&'' # r" 0 21 0] assms noNUL
  have dec: "decodedStrlen (s @ CHR ''%'' # y # CHR ''&'' # r @ [NUL]) 21 = Some 20"
    by (simp add: decodedStrlen_def)
  have tail: "url_decode [CHR ''%'', y] = Some [CHR ''%'', y]" by (simp add: url_decode_plain)
  have "url_decode (u @ [CHR ''%'', y]) = Some (u @ [CHR ''%'', y])" if "set u \<subseteq> set s" for u
    using that
  proof (induction u)
    case (Cons x u)
    then have "x \<noteq> CHR ''%''" using assms(2) by auto
    with Cons show ?case by (simp add: url_decode_plain)
  qed (simp add: tail)
  then have "url_decode (s @ [CHR ''%'', y]) = Some (s @ [CHR ''%'', y])" by simp
  with destructiveURLDecode_Some [of "s @ [CHR ''%'', y]" _ "[]"] noNUL assms(1)
  have "\<exists>b. destructiveURLDecode (s @ CHR ''%'' # y # [NUL]) = Some (21, b)" by auto
  with len dec show ?thesis by blast
qed

theorem decodedStrlen_reads_past_parameter_witness:
  "httpParamLength (replicate 19 CHR ''a'' @ CHR ''%'' # CHR ''1'' # CHR ''&'' # ''port=1'' @ [NUL]) = Some 21 \<and>
   decodedStrlen (replicate 19 CHR ''a'' @ CHR ''%'' # CHR ''1'' # CHR ''&'' # ''port=1'' @ [NUL]) 21 = Some 20 \<and>
   (\<exists>b. destructiveURLDecode (replicate 19 CHR ''a'' @ CHR ''%'' # CHR ''1'' # [NUL]) = Some (21, b))"
  by (rule decodedStrlen_reads_past_parameter) (auto simp: param_end_def)

text \<open>\<open>reallySend\<close> calls \<open>send\<close> once, whatever the name says: the peer gets the bytes that one
  call accepts, the answer is that count, and the rest of the message is dropped.\<close>
theorem reallySend_single_send:
  "\<exists>w'. reallySend e fd (bs @ t) (length bs) w = Some (to_int (os_send e fd bs), w') \<and>
     received fd w' = received fd w @ take (nat (os_send e fd bs)) bs \<and> wdb w' = wdb w"
  by (simp add: reallySend_def mem_get_append Let_def)

text \<open>\<open>min_zero\<close> keeps the promise of its header comment: the minimum of two non-negative
  numbers, the non-negative one if the other is negative, and 0 if both are negative.\<close>
theorem min_zero_spec:
  "min_zero a b = (if 0 \<le> a \<and> 0 \<le> b then min a b else max 0 (max a b))"
  by (auto simp: min_zero_def)

lemma strtolower_eq:
  "NUL \<notin> set s \<Longrightarrow> strtolower (s @ NUL # t) = Some (map tolower s @ NUL # t)"
  using strtolower_loop_eq [of 0 "s @ NUL # t" s t] by (simp add: strtolower_def)

end
