(* ===== verification/Netlib_Spec.thy ===== *)
theory Netlib_Spec
  imports Netlib Neth
begin

text \<open>
  The HTTP client: strings are joined as they should be, the components of a URL are found, and
  a request and its response are exchanged completely as long as the response arrives in full chunks.
\<close>

section \<open>Joining strings\<close>

lemma sum_lengths_eq: "map cstr ps = map Some ss \<Longrightarrow> sum_lengths ps = Some (length (concat ss))"
proof (induction ps arbitrary: ss)
  case (Cons p ps)
  then obtain s ss' where "ss = s # ss'" by (cases ss) auto
  with Cons show ?case by (simp add: strlen_def)
qed simp

lemma copy_parts_eq:
  assumes "map cstr ps = map Some ss" "off + length (concat ss) \<le> length rv"
  shows "copy_parts rv off ps = Some (take off rv @ concat ss @ drop (off + length (concat ss)) rv, off + length (concat ss))"
  using assms
proof (induction ps arbitrary: ss off rv)
  case (Cons p ps)
  then obtain s ss' where ss: "ss = s # ss'" by (cases ss) auto
  with Cons.prems obtain t where p: "p = s @ NUL # t" "NUL \<notin> set s" by (auto simp: cstr_eq_Some_iff)
  let ?rv = "take off rv @ s @ drop (off + length s) rv"
  have "strlen p = Some (length s)" using p by (simp add: strlen_append)
  moreover have "strncpy_bytes p (length s) = Some s" using p by (simp add: strncpy_bytes_exact)
  moreover have "mem_put rv off s = Some ?rv" using Cons.prems(2) ss by (simp add: mem_put_Some)
  moreover have "copy_parts ?rv (off + length s) ps =
      Some (take (off + length s) ?rv @ concat ss' @ drop (off + length s + length (concat ss')) ?rv,
        off + length s + length (concat ss'))"
    using Cons.prems ss by (intro Cons.IH) simp_all
  ultimately show ?case using Cons.prems(2) ss by (simp add: ac_simps)
qed simp

lemma string_merge_eq:
  assumes "map cstr ps = map Some ss"
  shows "string_merge (Some heap) ps = Some (Some (concat ss @ [NUL]))"
proof -
  have "length (drop (length (concat ss)) (uninit heap (length (concat ss) + 1))) = 1" by simp
  then obtain x where x: "drop (length (concat ss)) (uninit heap (length (concat ss) + 1)) = [x]"
    by (metis length_0_conv length_Suc_conv One_nat_def)
  show ?thesis
    using copy_parts_eq [OF assms, of 0 "uninit heap (length (concat ss) + 1)"] x
    by (simp add: string_merge_def sum_lengths_eq [OF assms] wr_append [of "concat ss" x "[]"])
qed

section \<open>URLs\<close>

lemma strchr_first: "c \<notin> set s \<Longrightarrow> NUL \<notin> set s \<Longrightarrow> strchr (s @ c # t) c = Some (Some (c # t))"
  by (induction s) auto

lemma strchr_absent: "c \<notin> set s \<Longrightarrow> NUL \<notin> set s \<Longrightarrow> c \<noteq> NUL \<Longrightarrow> strchr (s @ NUL # t) c = Some None"
  by (induction s) auto

lemma find_chr_first:
  "c \<notin> set s \<Longrightarrow> NUL \<notin> set s \<Longrightarrow> p = length pre \<Longrightarrow> find_chr (pre @ s @ c # t) p c = Some (Some (length (pre @ s)))"
  by (simp add: find_chr_def strchr_first)

lemma find_chr_absent:
  "c \<notin> set s \<Longrightarrow> NUL \<notin> set s \<Longrightarrow> c \<noteq> NUL \<Longrightarrow> p = length pre \<Longrightarrow> find_chr (pre @ s @ NUL # t) p c = Some None"
  by (simp add: find_chr_def strchr_absent)

lemma find_sep:
  assumes "CHR '':'' \<notin> set s" "NUL \<notin> set s"
  shows "find_str (s @ ''://'' @ t) 0 ''://'' = Some (Some (length s))"
proof -
  have "strstr (s @ ''://'' @ t) ''://'' = Some (Some (''://'' @ t))" using assms by (induction s) auto
  then show ?thesis by (simp add: find_str_def)
qed

lemma cut_at_eq: "i = length pre \<Longrightarrow> cut_at (pre @ c # t) i n = Some (length pre + n, pre @ NUL # t)"
  by (simp add: cut_at_def wr_append)

definition url_text :: "string \<Rightarrow> string option \<Rightarrow> string \<Rightarrow> string option \<Rightarrow> string \<Rightarrow> string" where
  "url_text protocol credentials host port path = protocol @ ''://'' @
     (case credentials of None \<Rightarrow> [] | Some c \<Rightarrow> c @ ''@'') @ host @
     (case port of None \<Rightarrow> [] | Some p \<Rightarrow> '':'' @ p) @ ''/'' @ path"

text \<open>The URLs that the parser is made for.\<close>

definition plain_url :: "string \<Rightarrow> string option \<Rightarrow> string \<Rightarrow> string option \<Rightarrow> string \<Rightarrow> bool" where
  "plain_url protocol credentials host port path \<longleftrightarrow>
     NUL \<notin> set (url_text protocol credentials host port path) \<and> CHR '':'' \<notin> set protocol \<and>
     (case credentials of Some c \<Rightarrow> CHR ''@'' \<notin> set c | None \<Rightarrow> CHR ''@'' \<notin> set (host @ path) \<and> CHR ''@'' \<notin> set (case port of None \<Rightarrow> [] | Some p \<Rightarrow> p)) \<and>
     CHR ''/'' \<notin> set host \<and> CHR '':'' \<notin> set host \<and>
     (case port of Some p \<Rightarrow> CHR ''/'' \<notin> set p | None \<Rightarrow> CHR '':'' \<notin> set path)"

text \<open>Parsing from the host on, in a buffer whose first bytes are done with.\<close>

definition parse_host :: "nat url_components \<Rightarrow> string \<Rightarrow> nat \<Rightarrow> (nat url_components \<times> string) option" where
  "parse_host rv url p = do {
     let rv = rv\<lparr>url_host := Some p\<rparr>;
     slash \<leftarrow> find_chr url p (CHR ''/'');
     if slash = None then Some (rv\<lparr>url_status := -1\<rparr>, url)
     else do {
       colon \<leftarrow> find_chr url p (CHR '':'');
       (rv, p, url) \<leftarrow>
         (case colon of
            None \<Rightarrow> Some (rv, p, url)
          | Some j \<Rightarrow> do { (p', url) \<leftarrow> cut_at url j 1; Some (rv\<lparr>url_port := Some p'\<rparr>, p', url) });
       slash \<leftarrow> find_chr url p (CHR ''/'');
       k \<leftarrow> slash;
       (p, url) \<leftarrow> cut_at url k 1;
       Some (rv\<lparr>url_path := Some p\<rparr>, url) } }"

lemma parse_host_port:
  assumes "NUL \<notin> set host" "NUL \<notin> set port" "CHR ''/'' \<notin> set host" "CHR '':'' \<notin> set host" "CHR ''/'' \<notin> set port"
    and "p = length pre"
  shows "parse_host rv (pre @ host @ CHR '':'' # port @ CHR ''/'' # t) p =
    Some (rv\<lparr>url_host := Some p, url_port := Some (p + length host + 1), url_path := Some (p + length host + length port + 2)\<rparr>,
      pre @ host @ NUL # port @ NUL # t)"
proof -
  have 1: "find_chr (pre @ host @ CHR '':'' # port @ CHR ''/'' # t) p (CHR ''/'') =
      Some (Some (length (pre @ host @ CHR '':'' # port)))"
    using find_chr_first [of "CHR ''/''" "host @ CHR '':'' # port" p pre t] assms by simp
  have 2: "find_chr (pre @ host @ CHR '':'' # port @ CHR ''/'' # t) p (CHR '':'') = Some (Some (length (pre @ host)))"
    using find_chr_first [of "CHR '':''" host p pre] assms by simp
  have 3: "cut_at (pre @ host @ CHR '':'' # port @ CHR ''/'' # t) (length (pre @ host)) 1 =
      Some (length pre + length host + 1, pre @ host @ NUL # port @ CHR ''/'' # t)"
    using cut_at_eq [of "length (pre @ host)" "pre @ host" "CHR '':''" _ 1] by simp
  have 4: "find_chr (pre @ host @ NUL # port @ CHR ''/'' # t) (length pre + length host + 1) (CHR ''/'') =
      Some (Some (length (pre @ host @ NUL # port)))"
    using find_chr_first [of "CHR ''/''" port "length pre + length host + 1" "pre @ host @ [NUL]" t] assms by simp
  have 5: "cut_at (pre @ host @ NUL # port @ CHR ''/'' # t) (length (pre @ host @ NUL # port)) 1 =
      Some (length pre + length host + length port + 2, pre @ host @ NUL # port @ NUL # t)"
    using cut_at_eq [of "length (pre @ host @ NUL # port)" "pre @ host @ NUL # port" "CHR ''/''" t 1] by simp
  show ?thesis
    unfolding parse_host_def Let_def 1 2 3 Option.bind.bind_lunit prod.case option.case 4 5 using assms(6)
    by (simp add: 4 5 [unfolded length_append])
qed

lemma parse_host_default:
  assumes "NUL \<notin> set host" "CHR ''/'' \<notin> set host" "CHR '':'' \<notin> set host" "NUL \<notin> set path" "CHR '':'' \<notin> set path"
    and "p = length pre"
  shows "parse_host rv (pre @ host @ CHR ''/'' # path @ NUL # t) p =
    Some (rv\<lparr>url_host := Some p, url_path := Some (p + length host + 1)\<rparr>, pre @ host @ NUL # path @ NUL # t)"
proof -
  have 1: "find_chr (pre @ host @ CHR ''/'' # path @ NUL # t) p (CHR ''/'') = Some (Some (length (pre @ host)))"
    using find_chr_first [of "CHR ''/''" host p pre] assms by simp
  have 2: "find_chr (pre @ host @ CHR ''/'' # path @ NUL # t) p (CHR '':'') = Some None"
    using find_chr_absent [of "CHR '':''" "host @ CHR ''/'' # path" p pre] assms by simp
  have 3: "cut_at (pre @ host @ CHR ''/'' # path @ NUL # t) (length (pre @ host)) 1 =
      Some (length pre + length host + 1, pre @ host @ NUL # path @ NUL # t)"
    using cut_at_eq [of "length (pre @ host)" "pre @ host" "CHR ''/''" _ 1] by simp
  show ?thesis
    unfolding parse_host_def Let_def 1 2 3 Option.bind.bind_lunit prod.case option.case using assms(6)
    by (simp add: 1 3 [unfolded length_append])
qed

lemma cut_protocol:
  "cut_at (protocol @ ''://'' @ r) (length protocol) 3 = Some (length protocol + 3, protocol @ NUL # ''//'' @ r)"
  using cut_at_eq [of "length protocol" protocol "CHR '':''" "''//'' @ r" 3] by simp

lemma parse_url_plain:
  assumes "NUL \<notin> set protocol" "CHR '':'' \<notin> set protocol" "NUL \<notin> set rest" "CHR ''@'' \<notin> set rest"
  shows "parse_url_destructive (protocol @ ''://'' @ rest @ NUL # t) =
    parse_host (no_url\<lparr>url_protocol := Some 0\<rparr>) (protocol @ NUL # ''//'' @ rest @ NUL # t) (length protocol + 3)"
proof -
  have "find_chr (protocol @ NUL # ''//'' @ rest @ NUL # t) (length protocol + 3) (CHR ''@'') = Some None"
    using find_chr_absent [of "CHR ''@''" rest "length protocol + 3" "protocol @ NUL # ''//''" t] assms by simp
  then show ?thesis
    by (simp add: parse_url_destructive_def find_sep [OF assms(2,1), simplified] cut_protocol [simplified] parse_host_def Let_def)
qed

lemma parse_url_credentials:
  assumes "NUL \<notin> set protocol" "CHR '':'' \<notin> set protocol" "NUL \<notin> set c" "CHR ''@'' \<notin> set c"
  shows "parse_url_destructive (protocol @ ''://'' @ c @ ''@'' @ rest @ NUL # t) =
    parse_host (no_url\<lparr>url_protocol := Some 0, url_credentials := Some (length protocol + 3)\<rparr>)
      (protocol @ NUL # ''//'' @ c @ NUL # rest @ NUL # t) (length protocol + length c + 4)"
proof -
  have 1: "find_chr (protocol @ NUL # ''//'' @ c @ ''@'' @ rest @ NUL # t) (length protocol + 3) (CHR ''@'') =
      Some (Some (length protocol + length c + 3))"
    using find_chr_first [of "CHR ''@''" c "length protocol + 3" "protocol @ NUL # ''//''" "rest @ NUL # t"] assms by simp
  have 2: "cut_at (protocol @ NUL # ''//'' @ c @ ''@'' @ rest @ NUL # t) (length protocol + length c + 3) 1 =
      Some (length protocol + length c + 4, protocol @ NUL # ''//'' @ c @ NUL # rest @ NUL # t)"
    using cut_at_eq [of "length protocol + length c + 3" "protocol @ NUL # ''//'' @ c" "CHR ''@''" "rest @ NUL # t" 1] by simp
  show ?thesis
    by (simp add: parse_url_destructive_def find_sep [OF assms(2,1), simplified] cut_protocol [simplified] parse_host_def Let_def
      1 [simplified] 2 [simplified])
qed

text \<open>The parts of a URL, as pointers into a buffer.\<close>

definition components_are ::
    "cptr url_components \<Rightarrow> string \<Rightarrow> string option \<Rightarrow> string \<Rightarrow> string option \<Rightarrow> string \<Rightarrow> bool" where
  "components_are u protocol credentials host port path \<longleftrightarrow>
     url_status u = 0 \<and> map_option cstr (url_protocol u) = Some (Some protocol) \<and>
     map_option cstr (url_credentials u) = map_option Some credentials \<and>
     map_option cstr (url_host u) = Some (Some host) \<and>
     map_option cstr (url_port u) = map_option Some port \<and>
     map_option cstr (url_path u) = Some (Some path)"

lemma parse_host_components:
  assumes "NUL \<notin> set host" "NUL \<notin> set path" "CHR ''/'' \<notin> set host" "CHR '':'' \<notin> set host"
    and "case port of Some p \<Rightarrow> NUL \<notin> set p \<and> CHR ''/'' \<notin> set p | None \<Rightarrow> CHR '':'' \<notin> set path"
    and "p = length pre"
  shows "\<exists>q b. parse_host rv (pre @ (host @ (case port of None \<Rightarrow> [] | Some p \<Rightarrow> '':'' @ p) @ ''/'' @ path) @ NUL # t) p =
      Some (rv\<lparr>url_host := Some p, url_port := (if port = None then url_port rv else Some (p + length host + 1)), url_path := Some q\<rparr>, pre @ b) \<and>
    cstr b = Some host \<and> cstr (drop q (pre @ b)) = Some path \<and>
    (\<forall>x. port = Some x \<longrightarrow> cstr (drop (p + length host + 1) (pre @ b)) = Some x)"
proof (cases port)
  case None
  with parse_host_default [of host path p pre rv t] assms show ?thesis
    by (intro exI [of _ "p + length host + 1"] exI [of _ "host @ NUL # path @ NUL # t"]) (simp add: cstr_append)
next
  case (Some x)
  with parse_host_port [of host x p pre rv "path @ NUL # t"] assms show ?thesis
    by (intro exI [of _ "p + length host + length x + 2"] exI [of _ "host @ NUL # x @ NUL # path @ NUL # t"]) (simp add: cstr_append)
qed

lemma url_components_found:
  assumes "plain_url protocol credentials host port path"
  shows "\<exists>u b. parse_url_destructive (lit (url_text protocol credentials host port path)) = Some (u, b) \<and>
    components_are (url_pointers b u) protocol credentials host port path"
proof -
  let ?rest = "host @ (case port of None \<Rightarrow> [] | Some p \<Rightarrow> '':'' @ p) @ ''/'' @ path"
  have ok: "NUL \<notin> set protocol" "CHR '':'' \<notin> set protocol" "NUL \<notin> set host" "NUL \<notin> set path" "CHR ''/'' \<notin> set host" "CHR '':'' \<notin> set host"
    "case port of Some p \<Rightarrow> NUL \<notin> set p \<and> CHR ''/'' \<notin> set p | None \<Rightarrow> CHR '':'' \<notin> set path"
    using assms by (auto simp: plain_url_def url_text_def split: option.splits)
  then have rest: "NUL \<notin> set ?rest" by (auto split: option.splits)
  show ?thesis
  proof (cases credentials)
    case None
    then have "CHR ''@'' \<notin> set ?rest" using assms by (auto simp: plain_url_def split: option.splits)
    note p = parse_url_plain [OF ok(1,2) rest this, of "[]"]
    show ?thesis
      using parse_host_components [OF ok(3-7), where pre = "protocol @ NUL # ''//''" and p = "length protocol + 3" and t = "[]"
          and rv = "no_url\<lparr>url_protocol := Some 0\<rparr>"] None ok(1)
      by (auto simp: p [simplified] url_text_def lit_def components_are_def url_pointers_def no_url_def cstr_append)
  next
    case (Some c)
    then have c: "NUL \<notin> set c" "CHR ''@'' \<notin> set c" using assms by (auto simp: plain_url_def url_text_def)
    note p = parse_url_credentials [OF ok(1,2) c, of ?rest "[]"]
    show ?thesis
      using parse_host_components [OF ok(3-7), where pre = "protocol @ NUL # ''//'' @ c @ [NUL]" and p = "length protocol + length c + 4"
          and t = "[]" and rv = "no_url\<lparr>url_protocol := Some 0, url_credentials := Some (length protocol + 3)\<rparr>"] Some ok(1) c(1)
      by (auto simp: p [simplified] url_text_def lit_def components_are_def url_pointers_def no_url_def cstr_append drop_Cons')
  qed
qed

section \<open>One exchange\<close>

lemma lk_log_Nil [simp]: "lk_log [] k = k\<lparr>lk_calls := Suc (lk_calls k)\<rparr>"
  by (cases k) (simp add: lk_log_def)

text \<open>Memory can be had, and no socket is left half open.\<close>

definition heap_full :: "net \<Rightarrow> bool" where
  "heap_full t \<longleftrightarrow> (\<forall>n. nt_heap t n \<noteq> None)"

definition send_full :: "net \<Rightarrow> bool" where
  "send_full t \<longleftrightarrow> (\<forall>n bs. nt_send t n bs = int (length bs))"

text \<open>The network gives the chunks \<open>cs\<close>, from the \<open>n\<close>th call on.\<close>

definition receives :: "net \<Rightarrow> nat \<Rightarrow> string list \<Rightarrow> bool" where
  "receives t n cs \<longleftrightarrow> (\<forall>i < length cs. nt_recv t (n + i) = Some (cs ! i))"

lemma receives_Cons: "receives t n (c # cs) \<longleftrightarrow> nt_recv t n = Some c \<and> receives t (Suc n) cs"
  by (auto simp: receives_def nth_Cons' less_Suc_eq_0_disj split: if_splits)

lemma recv_loop_chunks:
  assumes "heap_full t" "receives t (lk_calls k) (cs @ [d])" "list_all (\<lambda>c. length c = RESPONSE_BUFFER_CHUNK) cs"
    and "length d < RESPONSE_BUFFER_CHUNK" "length cs < n"
  shows "\<exists>j js. recv_loop n t response bytes k =
    Some (response @ concat cs @ d @ j # js, bytes + length (concat cs @ d), k\<lparr>lk_calls := lk_calls k + length cs + 1\<rparr>)"
  using assms(2,3,5)
proof (induction cs arbitrary: n k response bytes)
  case Nil
  then obtain m where n: "n = Suc m" by (cases n) auto
  obtain h where h: "nt_heap t (lk_calls k) = Some h" using assms(1) by (auto simp: heap_full_def)
  have r: "nt_recv t (lk_calls k) = Some d" using Nil by (simp add: receives_Cons)
  have "drop (length d) (uninit h RESPONSE_BUFFER_CHUNK) \<noteq> []" using assms(4) by simp
  then obtain j js where "drop (length d) (uninit h RESPONSE_BUFFER_CHUNK) = j # js" by (meson neq_Nil_conv)
  then show ?case using assms(4) by (simp add: n h r mem_put_def)
next
  case (Cons c cs)
  then obtain m where n: "n = Suc m" by (cases n) auto
  obtain h where h: "nt_heap t (lk_calls k) = Some h" using assms(1) by (auto simp: heap_full_def)
  have r: "nt_recv t (lk_calls k) = Some c" "receives t (lk_calls (k\<lparr>lk_calls := Suc (lk_calls k)\<rparr>)) (cs @ [d])"
    using Cons.prems by (simp_all add: receives_Cons)
  have "\<exists>j js. recv_loop m t (response @ c) (bytes + length c) (k\<lparr>lk_calls := Suc (lk_calls k)\<rparr>) =
      Some ((response @ c) @ concat cs @ d @ j # js, bytes + length c + length (concat cs @ d),
        (k\<lparr>lk_calls := Suc (lk_calls k)\<rparr>)\<lparr>lk_calls := lk_calls (k\<lparr>lk_calls := Suc (lk_calls k)\<rparr>) + length cs + 1\<rparr>)"
    using Cons.prems n by (intro Cons.IH r(2)) simp_all
  then show ?case using Cons.prems(2) by (simp add: n h r mem_put_def ac_simps)
qed

definition request_text :: "string \<Rightarrow> string \<Rightarrow> string \<Rightarrow> string" where
  "request_text host port path = ''GET /'' @ path @ '' HTTP/1.1'' @ crlf @ ''Host: '' @ host @ '':'' @ port @ crlf @
     ''User-Agent: traccoon/netlib'' @ crlf @ ''Accept-Encoding: text/plain'' @ crlf @ ''Connection: close'' @ crlf @ crlf"

lemma request_merged:
  assumes "cstr h = Some host" "cstr p = Some port" "cstr q = Some path"
  shows "string_merge (Some heap) (request_parts h p q) = Some (Some (lit (request_text host port path)))"
proof -
  have "map cstr (request_parts h p q) = map Some [''GET /'', path, '' HTTP/1.1'' @ crlf, ''Host: '', host, '':'', port, crlf,
      ''User-Agent: '', ''traccoon/netlib'', crlf, ''Accept-Encoding: '', ''text/plain'', crlf, ''Connection: '', ''close'', crlf, crlf]"
    using assms by (simp add: request_parts_def cstr_lit crlf_def)
  from string_merge_eq [OF this, of heap] show ?thesis by (simp add: request_text_def lit_def)
qed

lemma send_loop_full:
  assumes "send_full t" "NUL \<notin> set r" "r \<noteq> []"
  shows "send_loop t sock (lit r) 0 0 0 k = Some (int (length r), lk_log [Sent sock r] k)"
proof -
  have l: "strlen (lit r) = Some (length r)" using assms(2) by (simp add: lit_def strlen_append)
  have s: "ptr_at (lit r) 0 = Some (lit r)" "mem_get (lit r) (length r) = Some r"
    by (simp_all add: ptr_at_def mem_get_def lit_def)
  have 1: "send_loop t sock (lit r) (int (length r)) 1 (int (length r)) k' = Some (int (length r), k')" for k'
    by (subst send_loop.simps) (simp add: l)
  show ?thesis using assms(1,3)
    by (subst send_loop.simps) (simp add: l s MAX_SEND_RETRY_COUNT_def send_full_def Let_def 1)
qed

lemma strncmp0_lit_prefix: "strncmp0 (bs @ NUL # r) (lit s) (length s) = Some (\<exists>u. bs = s @ u)" if "NUL \<notin> set s"
  using that
proof (induction s arbitrary: bs)
  case (Cons c s)
  then show ?case by (cases bs) (auto simp: lit_def)
qed simp

lemma http_exchange_chunks:
  assumes "heap_full t" "send_full t" "cstr h = Some host" "cstr p = Some port" "cstr q = Some path"
    and "receives t (Suc (lk_calls k)) (cs @ [d])" "list_all (\<lambda>c. length c = RESPONSE_BUFFER_CHUNK) cs"
    and "length d < RESPONSE_BUFFER_CHUNK" "length cs < n"
  shows "\<exists>js k'. http_exchange n t sock h p q k =
      Some (if \<exists>u. concat cs @ d = ''HTTP/'' @ u then int (length (concat cs @ d)) else -1,
        Some (concat cs @ d @ NUL # js), k') \<and>
    lk_events k' = lk_events k @ [Sent sock (request_text host port path), Closed sock]"
proof -
  obtain hp where hp: "nt_heap t (lk_calls k) = Some hp" using assms(1) by (auto simp: heap_full_def)
  let ?r = "request_text host port path" and ?k = "lk_log [Sent sock (request_text host port path)] k"
  have noNUL: "NUL \<notin> set ?r" using assms(3-5) [THEN cstr_noNUL] by (auto simp: request_text_def crlf_def)
  have "?r \<noteq> []" by (simp add: request_text_def)
  note sl = send_loop_full [OF assms(2) noNUL this, of sock k]
  have "receives t (lk_calls ?k) (cs @ [d])" using assms(6) by (simp add: lk_log_def)
  from recv_loop_chunks [OF assms(1) this assms(7-9), of "[]" 0] obtain j js where
    rl: "recv_loop n t [] 0 ?k = Some (concat cs @ d @ j # js, length (concat cs @ d), ?k\<lparr>lk_calls := lk_calls ?k + length cs + 1\<rparr>)"
    by auto
  have w: "wr (concat cs @ d @ j # js) (length (concat cs @ d)) NUL = Some (concat cs @ d @ NUL # js)"
    using wr_append [of "concat cs @ d" j js] by simp
  have c: "strncmp0 (concat cs @ d @ NUL # js) (lit ''HTTP/'') 5 = Some (\<exists>u. concat cs @ d = ''HTTP/'' @ u)"
    using strncmp0_lit_prefix [of "''HTTP/''" "concat cs @ d" js] by (simp add: eval_nat_numeral)
  show ?thesis
    unfolding http_exchange_def hp request_merged [OF assms(3-5)] Option.bind.bind_lunit sl prod.case rl w c
    by (simp add: lk_log_def)
qed

lemma connect_loop_first: "nt_socket t a = sock \<Longrightarrow> sock \<noteq> -1 \<Longrightarrow> nt_connect t sock a \<Longrightarrow>
    connect_loop t (a # as) s st k = (sock, 0, k)"
  by simp

section \<open>Properties\<close>


text \<open>a colon in the path of a URL without a port is taken for the separator of the port; when
  no slash follows it, \<open>parse_url_destructive\<close> writes through a null pointer.\<close>

theorem parse_url_colon_undefined:
  assumes "plain_url protocol None host (Some ''80'') (path @ '':'' @ path')" "CHR '':'' \<notin> set path" "CHR ''/'' \<notin> set path'"
  shows "parse_url_destructive (lit (url_text protocol None host None (path @ '':'' @ path'))) = None"
proof -
  let ?rest = "host @ ''/'' @ path @ '':'' @ path'"
  have ok: "NUL \<notin> set protocol" "CHR '':'' \<notin> set protocol" "NUL \<notin> set ?rest" "CHR ''@'' \<notin> set ?rest" "CHR ''/'' \<notin> set host"
    "CHR '':'' \<notin> set host"
    using assms by (auto simp: plain_url_def url_text_def)
  let ?pre = "protocol @ NUL # ''//''"
  have 1: "find_chr (?pre @ ?rest @ [NUL]) (length protocol + 3) (CHR ''/'') = Some (Some (length (?pre @ host)))"
    using find_chr_first [of "CHR ''/''" host "length protocol + 3" ?pre] ok by simp
  have 2: "find_chr (?pre @ ?rest @ [NUL]) (length protocol + 3) (CHR '':'') = Some (Some (length (?pre @ host @ ''/'' @ path)))"
    using find_chr_first [of "CHR '':''" "host @ ''/'' @ path" "length protocol + 3" ?pre "path' @ [NUL]"] ok assms(2) by simp
  have 3: "cut_at (?pre @ ?rest @ [NUL]) (length (?pre @ host @ ''/'' @ path)) 1 =
      Some (length (?pre @ host @ ''/'' @ path) + 1, ?pre @ host @ ''/'' @ path @ NUL # path' @ [NUL])"
    using cut_at_eq [of _ "?pre @ host @ ''/'' @ path" "CHR '':''" "path' @ [NUL]" 1] by simp
  have 4: "find_chr (?pre @ host @ ''/'' @ path @ NUL # path' @ [NUL]) (length (?pre @ host @ ''/'' @ path) + 1) (CHR ''/'') = Some None"
    using find_chr_absent [of "CHR ''/''" path' _ "?pre @ host @ ''/'' @ path @ [NUL]" "[]"] ok assms(3) by simp
  show ?thesis
    using parse_url_plain [OF ok(1-4), of "[]"] 1 2 3 4
    by (simp add: parse_host_def Let_def url_text_def lit_def)
qed

text \<open>\<open>http_get\<close> exchanges one request and one response: with a connection to the first address and
  sends that are not cut short, exactly the request text is sent, the socket is closed, and the
  buffer that is returned holds the chunks that were received up to the first one that is not full,
  terminated; the result is their length if they start as an HTTP response. So a response that
  arrives in short segments is cut after the first one.\<close>

theorem http_get_exchange:
  assumes "heap_full t" "send_full t" "url_host u = Some h" "cstr h = Some host" "url_port u = Some p" "cstr p = Some port"
    and "url_path u = Some q" "cstr q = Some path" "nt_getaddrinfo t host port hints = (0, a # as)" "nt_socket t a = sock" "sock \<noteq> -1"
    and "nt_connect t sock a" "receives t (Suc (lk_calls k)) (cs @ d # later)"
    and "list_all (\<lambda>c. length c = RESPONSE_BUFFER_CHUNK) cs" "length d < RESPONSE_BUFFER_CHUNK" "length cs < n"
  shows "\<exists>js k'. http_get n t u hints k =
      Some (if \<exists>v. concat cs @ d = ''HTTP/'' @ v then int (length (concat cs @ d)) else -1,
        Some (concat cs @ d @ NUL # js), k') \<and>
    lk_events k' = lk_events k @ [Sent sock (request_text host port path), Closed sock]"
proof -
  have "receives t (Suc (lk_calls k)) (cs @ [d])"
    using assms(13) by (auto simp: receives_def nth_append split: if_splits)
  note ex = http_exchange_chunks [OF assms(1,2,4,6,8) this assms(14-16), of sock]
  show ?thesis
    using ex assms(3-12) by (simp add: http_get_def connect_loop_first del: connect_loop.simps)
qed

section \<open>Witnesses\<close>

text \<open>A network that answers with given segments.\<close>

definition sample_net :: "string list \<Rightarrow> net" where
  "sample_net cs = \<lparr>nt_getaddrinfo = (\<lambda>_ _ _. (0, [''10.0.0.1''])), nt_socket = (\<lambda>_. 3), nt_connect = (\<lambda>_ _. True),
     nt_send = (\<lambda>_ bs. int (length bs)),
     nt_recv = (\<lambda>n. if n = 0 then None else if n - 1 < length cs then Some (cs ! (n - 1)) else Some []),
     nt_heap = (\<lambda>_. Some (\<lambda>_. NUL))\<rparr>"

definition sample_link :: link where
  "sample_link = \<lparr>lk_events = [], lk_calls = 0\<rparr>"

definition sample_url :: "cptr url_components" where
  "sample_url = \<lparr>url_status = 0, url_protocol = Some (lit ''http''), url_credentials = None, url_host = Some (lit ''tracker''),
     url_port = Some (lit ''80''), url_path = Some (lit ''announce'')\<rparr>"

lemma sample_net_facts:
  "heap_full (sample_net cs)" "send_full (sample_net cs)" "receives (sample_net cs) 1 cs"
  by (simp_all add: sample_net_def heap_full_def send_full_def receives_def)


theorem parse_url_colon_undefined_witness: "parse_url_destructive (lit ''http://tracker.org/a:b'') = None"
  using parse_url_colon_undefined [of "''http''" "''tracker.org''" "''a''" "''b''"] by (simp add: plain_url_def url_text_def)

theorem http_get_exchange_witness:
  "\<exists>js k'. http_get 1 (sample_net [''HTTP/1.1 200 OK'', ''lost'']) sample_url AF_UNSPEC sample_link =
     Some (15, Some (''HTTP/1.1 200 OK'' @ NUL # js), k')"
proof -
  let ?t = "sample_net [''HTTP/1.1 200 OK'', ''lost'']"
  have "url_host sample_url = Some (lit ''tracker'')" "url_port sample_url = Some (lit ''80'')" "url_path sample_url = Some (lit ''announce'')"
    by (simp_all add: sample_url_def)
  note u = this
  have c: "cstr (lit ''tracker'') = Some ''tracker''" "cstr (lit ''80'') = Some ''80''" "cstr (lit ''announce'') = Some ''announce''"
    by (simp_all add: cstr_lit)
  have n: "nt_getaddrinfo ?t ''tracker'' ''80'' AF_UNSPEC = (0, [''10.0.0.1''])" "nt_socket ?t ''10.0.0.1'' = 3"
    "nt_connect ?t 3 ''10.0.0.1''" by (simp_all add: sample_net_def)
  have r: "receives ?t (Suc (lk_calls sample_link)) ([] @ ''HTTP/1.1 200 OK'' # [''lost''])"
    using sample_net_facts(3) by (simp add: sample_link_def)
  from http_get_exchange [OF sample_net_facts(1,2) u(1) c(1) u(2) c(2) u(3) c(3) n(1,2) _ n(3) r, of 1]
  show ?thesis by (simp add: RESPONSE_BUFFER_CHUNK_def) blast
qed

end
