(* ===== verification/Benc_Spec.thy ===== *)
theory Benc_Spec
  imports Benc
begin

text \<open>
  The bencode reader against the grammar of bencode: values, their text, and that the reader finds
  in the text of a value what the value has.
\<close>

section \<open>Values and their text\<close>

datatype benc = BInt int | BStr string | BList "benc list" | BDict "(string \<times> benc) list"

fun benc_text :: "benc \<Rightarrow> string" where
  "benc_text (BInt i) = ''i'' @ dec i @ ''e''"
| "benc_text (BStr s) = dec_nat (length s) @ '':'' @ s"
| "benc_text (BList vs) = ''l'' @ concat (map benc_text vs) @ ''e''"
| "benc_text (BDict kvs) =
     ''d'' @ concat (map (\<lambda>(k, v). dec_nat (length k) @ '':'' @ k @ benc_text v) kvs) @ ''e''"

fun benc_type :: "benc \<Rightarrow> benc_entity_type_t" where
  "benc_type (BInt _) = T_INT"
| "benc_type (BStr _) = T_STRING"
| "benc_type (BList _) = T_LIST"
| "benc_type (BDict _) = T_DICT"

section \<open>Reading at a position\<close>

lemma rdi_at: "i = int (length xs) \<Longrightarrow> rdi (xs @ c # ys) i = Some c"
  by (simp add: rdi_def rd_append)

lemma rdi_inside:
  "rdi (pre @ x # mid @ c # r) (int (length pre) + int (length mid) + 1) = Some c"
  using rdi_at [of "int (length pre) + int (length mid) + 1" "pre @ x # mid"] by simp

lemma isdigit_letters [simp]:
  "\<not> isdigit CHR ''d''" "\<not> isdigit CHR ''l''" "\<not> isdigit CHR ''i''" "\<not> isdigit CHR ''e''" "\<not> isdigit CHR '':''"
  by (simp_all add: isdigit_def)

lemma digit_count_append: "\<forall>c\<in>set ds. isdigit c \<Longrightarrow> \<not> isdigit c \<Longrightarrow> digit_count (ds @ c # p) = Some (length ds)"
  by (induction ds) auto

lemma digit_count_dec_nat: "\<not> isdigit c \<Longrightarrow> digit_count (dec_nat n @ c # p) = Some (length (dec_nat n))"
  by (rule digit_count_append) (auto dest: dec_nat_digits)

lemma type_string:
  assumes "q = int (length pre)"
  shows "benc_entity_type (pre @ dec_nat n @ CHR '':'' # r) q = Some T_STRING"
proof -
  obtain d ds where d: "dec_nat n = d # ds" "isdigit d" by (rule dec_nat_Cons)
  have "rdi (pre @ dec_nat n @ CHR '':'' # r) q = Some d" using rdi_at [OF assms, of d] d by simp
  moreover have "rdi (pre @ dec_nat n @ CHR '':'' # r) (q + int (length (dec_nat n))) = Some CHR '':''"
    using rdi_at [of _ "pre @ dec_nat n"] assms by simp
  ultimately show ?thesis
    using assms isdigit_not [OF d(2)] by (simp add: benc_entity_type_def digit_count_dec_nat)
qed

lemma type_text:
  assumes "q = int (length pre)"
  shows "benc_entity_type (pre @ benc_text v @ r) q = Some (benc_type v)"
proof (cases v)
  case (BStr s)
  with type_string [OF assms, of "length s" "s @ r"] show ?thesis by simp
qed (use rdi_at [OF assms] in \<open>simp_all add: benc_entity_type_def\<close>)

lemma string_length_at:
  assumes "q = int (length pre)" and len: "int (length (dec_nat (length s))) + int (length s) + 1 < 2 ^ 31"
  shows "string_entity_length (pre @ dec_nat (length s) @ CHR '':'' # s @ r) q =
    Some (int (length (dec_nat (length s))) + int (length s) + 1)"
proof -
  let ?b = "pre @ dec_nat (length s) @ CHR '':'' # s @ r"
  have "rdi ?b (q + int (length (dec_nat (length s)))) = Some CHR '':''"
    using rdi_at [of _ "pre @ dec_nat (length s)"] assms by simp
  moreover have "int_range (int (length (dec_nat (length s))) + int (length s) + 1)"
    using len by (simp add: int_range_def)
  ultimately show ?thesis
    using assms by (simp add: string_entity_length_def digit_count_dec_nat strtol_dec_nat long_add_def long_range_def to_int_id)
qed

lemma int_length_at:
  assumes "q = int (length pre)"
  shows "int_entity_length (pre @ CHR ''i'' # dec i @ CHR ''e'' # r) q = Some (int (length (dec i)) + 2)"
proof (cases "i < 0")
  case True
  let ?n = "dec_nat (nat (- i))"
  have "rdi (pre @ CHR ''i'' # CHR ''-'' # ?n @ CHR ''e'' # r) (q + 1) = Some CHR ''-''"
    using rdi_at [of "q + 1" "pre @ ''i''"] assms by simp
  moreover have "rdi (pre @ CHR ''i'' # CHR ''-'' # ?n @ CHR ''e'' # r) (q + (2 + int (length ?n))) = Some CHR ''e''"
    using rdi_at [of "q + (2 + int (length ?n))" "pre @ ''i-'' @ ?n"] assms by simp
  moreover have "drop (nat (q + 2)) (pre @ CHR ''i'' # CHR ''-'' # ?n @ CHR ''e'' # r) = ?n @ CHR ''e'' # r"
    using assms by (simp add: nat_add_distrib)
  ultimately show ?thesis
    using True by (simp add: int_entity_length_def dec_def digit_count_dec_nat)
next
  case False
  let ?n = "dec_nat (nat i)"
  obtain d ds where d: "?n = d # ds" "isdigit d" by (rule dec_nat_Cons)
  have "rdi (pre @ CHR ''i'' # ?n @ CHR ''e'' # r) (q + 1) = Some d"
    using rdi_at [of "q + 1" "pre @ ''i''"] assms d by simp
  moreover have "rdi (pre @ CHR ''i'' # ?n @ CHR ''e'' # r) (q + (1 + int (length ?n))) = Some CHR ''e''"
    using rdi_at [of "q + (1 + int (length ?n))" "pre @ ''i'' @ ?n"] assms by simp
  moreover have "drop (nat (q + 1)) (pre @ CHR ''i'' # ?n @ CHR ''e'' # r) = ?n @ CHR ''e'' # r"
    using assms by (simp add: nat_add_distrib)
  ultimately show ?thesis
    using False isdigit_not [OF d(2)] by (simp add: int_entity_length_def dec_def digit_count_dec_nat)
qed

section \<open>The length of an entity\<close>

lemma benc_text_head:
  obtains x xs where "benc_text v = x # xs" "x \<noteq> CHR ''e''" "x \<noteq> NUL"
proof (cases v)
  case (BStr s)
  moreover obtain d ds where "dec_nat (length s) = d # ds" "isdigit d" by (rule dec_nat_Cons)
  ultimately show ?thesis using that isdigit_not by simp
qed (use that in simp_all)

lemma length_benc_text: "2 \<le> length (benc_text v)"
proof (cases v)
  case (BStr s)
  then show ?thesis using dec_nat_neq_Nil [of "length s"] by (cases "dec_nat (length s)") auto
qed auto

definition benc_texts :: "benc list \<Rightarrow> string" where
  "benc_texts vs = concat (map benc_text vs)"

lemma benc_texts_simps [simp]: "benc_texts [] = []" "benc_texts (v # vs) = benc_text v @ benc_texts vs" "benc_texts (us @ vs) = benc_texts us @ benc_texts vs"
  by (simp_all add: benc_texts_def)

fun entries :: "(string \<times> benc) list \<Rightarrow> benc list" where
  "entries [] = []"
| "entries ((k, v) # kvs) = BStr k # v # entries kvs"

lemma benc_text_container:
  "benc_text (BList vs) = CHR ''l'' # benc_texts vs @ ''e''"
  "benc_text (BDict kvs) = CHR ''d'' # benc_texts (entries kvs) @ ''e''"
proof -
  have "concat (map (\<lambda>(k, v). dec_nat (length k) @ '':'' @ k @ benc_text v) kvs) = benc_texts (entries kvs)"
    by (induction kvs rule: entries.induct) auto
  then show "benc_text (BDict kvs) = CHR ''d'' # benc_texts (entries kvs) @ ''e''" by simp
qed (simp add: benc_texts_def)

text \<open>What the induction provides for the values inside a container.\<close>

definition reads :: "benc \<Rightarrow> bool" where
  "reads v \<longleftrightarrow> (\<forall>n pre r. length (benc_text v) \<le> n \<longrightarrow> int (length (benc_text v)) < 2 ^ 31 \<longrightarrow>
     benc_entity_length n (pre @ benc_text v @ r) (int (length pre)) = Some (int (length (benc_text v))))"

lemma readsD:
  assumes "reads v" "length (benc_text v) \<le> n" "int (length (benc_text v)) < 2 ^ 31" "q = int (length pre)"
  shows "benc_entity_length n (pre @ benc_text v @ r) q = Some (int (length (benc_text v)))"
  using assms by (simp add: reads_def)

text \<open>One position inside a container: \<open>pre\<close> before it, one letter, the entries passed.\<close>

lemma entity_inside:
  assumes "reads v" "length (benc_text v) \<le> n" "int (length mid + length (benc_text v)) < 2 ^ 31"
    and b_def: "b = pre @ x # mid @ benc_text v @ r"
    and p_def: "p = int (length pre) + int (length mid) + 1"
  shows "\<exists>c. rdi b p = Some c \<and> c \<noteq> CHR ''e'' \<and> c \<noteq> NUL"
    and "benc_entity_type b p = Some (benc_type v)"
    and "benc_entity_length n b p = Some (int (length (benc_text v)))"
proof -
  have b: "b = (pre @ x # mid) @ benc_text v @ r" and p: "p = int (length (pre @ x # mid))"
    by (simp_all add: b_def p_def)
  obtain y ys where y: "benc_text v = y # ys" "y \<noteq> CHR ''e''" "y \<noteq> NUL" by (rule benc_text_head)
  show "\<exists>c. rdi b p = Some c \<and> c \<noteq> CHR ''e'' \<and> c \<noteq> NUL"
    using rdi_at [OF p, of y "ys @ r"] y by (simp add: b)
  show "benc_entity_type b p = Some (benc_type v)" unfolding b by (rule type_text [OF p])
  show "benc_entity_length n b p = Some (int (length (benc_text v)))"
    unfolding b using assms p by (intro readsD) auto
qed

lemma entity_add:
  "int (length mid + l) < 2 ^ 31 \<Longrightarrow> int_add (int (length mid)) (int l) = Some (int (length mid + l))"
  by (simp add: int_add_def int_range_def)

lemma list_length_texts:
  assumes "\<forall>v\<in>set vs. reads v" "length (benc_texts vs) < n" "int (length mid + length (benc_texts vs)) < 2 ^ 31 - 2"
  shows "list_length n (pre @ x # mid @ benc_texts vs @ CHR ''e'' # r) (int (length pre)) (int (length mid)) =
    Some (int (length mid + length (benc_texts vs) + 2))"
  using assms
proof (induction vs arbitrary: mid n)
  case Nil
  then obtain m where "n = Suc m" by (cases n) auto
  then show ?case by (simp add: rdi_inside)
next
  case (Cons v vs)
  then obtain m where n: "n = Suc m" by (cases n) auto
  let ?b = "pre @ x # mid @ benc_text v @ benc_texts vs @ CHR ''e'' # r"
  have v: "reads v" "length (benc_text v) \<le> m" "int (length mid + length (benc_text v)) < 2 ^ 31"
    using Cons.prems n by auto
  from length_benc_text [of v] have "length (benc_texts vs) < m" using Cons.prems n by simp
  with Cons.IH [of m "mid @ benc_text v"] Cons.prems have
    "list_length m ?b (int (length pre)) (int (length (mid @ benc_text v))) =
      Some (int (length mid + length (benc_texts (v # vs)) + 2))" by simp
  with entity_inside [OF v refl refl, of pre x "benc_texts vs @ CHR ''e'' # r"] entity_add [OF v(3)] n show ?case by auto
qed

lemma dict_length_texts:
  assumes "\<forall>v\<in>set (entries kvs). reads v" "length (benc_texts (entries kvs)) < n"
    and "int (length mid + length (benc_texts (entries kvs))) < 2 ^ 31 - 2" "even idx" "0 \<le> idx"
    and "idx + 2 * int (length kvs) < 2 ^ 31"
  shows "dict_length n (pre @ x # mid @ benc_texts (entries kvs) @ CHR ''e'' # r) (int (length pre)) (int (length mid)) idx =
    Some (int (length mid + length (benc_texts (entries kvs)) + 2))"
  using assms
proof (induction kvs arbitrary: mid n idx rule: entries.induct)
  case 1
  then obtain m where "n = Suc m" by (cases n) auto
  with "1.prems" show ?case by (simp add: rdi_inside even_iff_mod_2_eq_zero)
next
  case (2 k v kvs)
  define key where "key = BStr k"
  note prems = "2.prems" [unfolded entries.simps, folded key_def]
  have key: "benc_type key = T_STRING" "entries ((k, v) # kvs) = key # v # entries kvs" by (simp_all add: key_def)
  with prems length_benc_text [of key] length_benc_text [of v]
  have "Suc (Suc 0) < n" by simp
  then obtain m where n: "n = Suc (Suc m)" by (metis Suc_lessE less_natE)
  let ?b = "pre @ x # mid @ benc_text key @ benc_text v @ benc_texts (entries kvs) @ CHR ''e'' # r"
  have len: "int (length mid + length (benc_text key) + length (benc_text v) + length (benc_texts (entries kvs))) < 2 ^ 31 - 2"
    "length (benc_text key) + length (benc_text v) + length (benc_texts (entries kvs)) < n"
    using prems by simp_all
  with length_benc_text [of key] length_benc_text [of v]
  have k: "reads key" "length (benc_text key) \<le> Suc m" "int (length mid + length (benc_text key)) < 2 ^ 31"
    and v: "reads v" "length (benc_text v) \<le> m" "int (length (mid @ benc_text key) + length (benc_text v)) < 2 ^ 31"
    and r: "length (benc_texts (entries kvs)) < m"
    using prems n key by simp_all
  from "2.IH" [of m "mid @ benc_text key @ benc_text v" "idx + 2"] prems len r key have
    rest: "dict_length m ?b (int (length pre)) (int (length (mid @ benc_text key @ benc_text v))) (idx + 2) =
      Some (int (length mid + length (benc_texts (entries ((k, v) # kvs))) + 2))" by simp
  have idx: "int_add idx 1 = Some (idx + 1)" "int_add (idx + 1) 1 = Some (idx + 2)" "idx mod 2 = 0" "(idx + 1) mod 2 = 1"
    using prems by (auto simp: int_add_def int_range_def even_iff_mod_2_eq_zero mod_add_eq [of idx 2 1, symmetric])
  from entity_inside [OF k refl refl, of pre x "benc_text v @ benc_texts (entries kvs) @ CHR ''e'' # r"]
    entity_inside [OF v refl refl, of pre x "benc_texts (entries kvs) @ CHR ''e'' # r"]
    entity_add [OF k(3)] entity_add [OF v(3)] idx rest key n
  show ?case by (auto simp: key_def [symmetric] add.assoc)
qed

lemma length_dict_entries: "4 * length kvs \<le> length (benc_texts (entries kvs))"
proof (induction kvs rule: entries.induct)
  case (2 k v kvs)
  with length_benc_text [of v] length_benc_text [of "BStr k"] show ?case by simp
qed simp

lemma set_entries: "v \<in> set (entries kvs) \<Longrightarrow> (\<exists>s. v = BStr s) \<or> (\<exists>k. (k, v) \<in> set kvs)"
  by (induction kvs rule: entries.induct) auto

lemma reads_BStr: "reads (BStr s)"
  unfolding reads_def
proof (intro allI impI)
  fix n pre r
  assume n: "length (benc_text (BStr s)) \<le> n" and len: "int (length (benc_text (BStr s))) < 2 ^ 31"
  then obtain m where "n = Suc m" by (cases n) auto
  with len show "benc_entity_length n (pre @ benc_text (BStr s) @ r) (int (length pre)) =
      Some (int (length (benc_text (BStr s))))"
    by (simp add: type_string string_length_at)
qed

lemma reads_all: "reads v"
proof (induction v)
  case (BInt i)
  show ?case
    unfolding reads_def
  proof (intro allI impI)
    fix n pre r
    assume "length (benc_text (BInt i)) \<le> n"
    then obtain m where "n = Suc m" by (cases n) auto
    with type_text [OF refl, of pre "BInt i" r] int_length_at [OF refl, of pre i r]
    show "benc_entity_length n (pre @ benc_text (BInt i) @ r) (int (length pre)) =
        Some (int (length (benc_text (BInt i))))" by simp
  qed
next
  case (BList vs)
  show ?case
    unfolding reads_def
  proof (intro allI impI)
    fix n pre r
    assume "length (benc_text (BList vs)) \<le> n" "int (length (benc_text (BList vs))) < 2 ^ 31"
    moreover from this obtain m where "n = Suc m" by (cases n) auto
    ultimately show "benc_entity_length n (pre @ benc_text (BList vs) @ r) (int (length pre)) =
        Some (int (length (benc_text (BList vs))))"
      using list_length_texts [of vs m "[]" pre "CHR ''l''" r] BList type_text [OF refl, of pre "BList vs" r]
      by (simp add: benc_text_container del: benc_text.simps)
  qed
next
  case (BDict kvs)
  have *: "\<forall>v\<in>set (entries kvs). reads v" using BDict set_entries reads_BStr by fastforce
  show ?case
    unfolding reads_def
  proof (intro allI impI)
    fix n pre r
    assume "length (benc_text (BDict kvs)) \<le> n" "int (length (benc_text (BDict kvs))) < 2 ^ 31"
    moreover from this obtain m where "n = Suc m" by (cases n) auto
    ultimately show "benc_entity_length n (pre @ benc_text (BDict kvs) @ r) (int (length pre)) =
        Some (int (length (benc_text (BDict kvs))))"
      using dict_length_texts [OF *, of m "[]" 0 pre "CHR ''d''" r] type_text [OF refl, of pre "BDict kvs" r]
        length_dict_entries [of kvs]
      by (simp add: benc_text_container del: benc_text.simps)
  qed
qed (rule reads_BStr)

lemmas inside = entity_inside [OF reads_all _ _ refl refl]

section \<open>Lookup\<close>

lemma text_of_key: "strlen (lit key) = Some (length key)" if "NUL \<notin> set key"
  using that by (simp add: lit_def strlen_append)

lemma strncmp0_lit: "NUL \<notin> set key \<Longrightarrow> length s = length key \<Longrightarrow> strncmp0 (lit key) (s @ t) (length key) = Some (key = s)"
proof (induction key arbitrary: s)
  case (Cons c key)
  then show ?case by (cases s) (auto simp: lit_def)
qed (simp add: lit_def)

lemma colon_index_dec_nat: "colon_index (dec_nat n @ CHR '':'' # p) = Some (length (dec_nat n))"
proof -
  have "\<forall>c\<in>set ds. isdigit c \<Longrightarrow> colon_index (ds @ CHR '':'' # p) = Some (length ds)" for ds
    by (induction ds) (auto dest: isdigit_not)
  then show ?thesis using dec_nat_digits by blast
qed

lemma string_parts:
  assumes "int (length s) < 2 ^ 31"
  shows "benc_string_length (pre @ benc_text (BStr s) @ r) (int (length pre)) = Some (int (length s))"
    and "benc_string_data_offset (pre @ benc_text (BStr s) @ r) (int (length pre)) =
      Some (int (length (dec_nat (length s))) + 1)"
    and "ptr_at (pre @ benc_text (BStr s) @ r) (int (length pre) + (int (length (dec_nat (length s))) + 1)) = Some (s @ r)"
proof -
  have "int_range (int (length s))" using assms by (simp add: int_range_def)
  then show "benc_string_length (pre @ benc_text (BStr s) @ r) (int (length pre)) = Some (int (length s))"
    using assms by (simp add: benc_string_length_def type_string strtoul_dec_nat to_int_id)
  show "benc_string_data_offset (pre @ benc_text (BStr s) @ r) (int (length pre)) =
      Some (int (length (dec_nat (length s))) + 1)"
    by (simp add: benc_string_data_offset_def type_string colon_index_dec_nat)
  show "ptr_at (pre @ benc_text (BStr s) @ r) (int (length pre) + (int (length (dec_nat (length s))) + 1)) = Some (s @ r)"
    by (simp add: ptr_at_def nat_add_distrib)
qed

lemma key_matches_text:
  assumes "NUL \<notin> set key" "int (length s) < 2 ^ 31" "q = int (length pre)"
  shows "key_matches (pre @ benc_text (BStr s) @ r) q (lit key) = Some (key = s)"
proof -
  have "int (length s) mod 2 ^ 64 = int (length s)" using assms(2) by simp
  then show ?thesis
    unfolding key_matches_def text_of_key [OF assms(1)] assms(3) string_parts [OF assms(2)] Option.bind.bind_lunit
    using string_parts(3) [OF assms(2), of pre r] strncmp0_lit [OF assms(1), of s r] by auto
qed

text \<open>The place of a value among the entries of a dictionary.\<close>

fun value_pos :: "string \<Rightarrow> (string \<times> benc) list \<Rightarrow> nat option" where
  "value_pos key [] = None"
| "value_pos key ((k, v) # kvs) =
     (if key = k then Some (length (benc_text (BStr k)))
      else map_option (\<lambda>i. length (benc_text (BStr k)) + length (benc_text v) + i) (value_pos key kvs))"

lemma value_pos_None: "value_pos key kvs = None \<longleftrightarrow> map_of kvs key = None"
  by (induction kvs rule: entries.induct) auto

lemma value_pos_Some:
  "value_pos key kvs = Some i \<Longrightarrow>
   \<exists>v us ws. map_of kvs key = Some v \<and> benc_texts (entries kvs) = us @ benc_text v @ ws \<and> length us = i"
proof (induction kvs arbitrary: i rule: entries.induct)
  case (2 k v kvs)
  show ?case
  proof (cases "key = k")
    case True
    with "2.prems" show ?thesis
      by (intro exI [of _ v] exI [of _ "benc_text (BStr k)"] exI [of _ "benc_texts (entries kvs)"]) auto
  next
    case False
    with "2.prems" obtain j where j: "value_pos key kvs = Some j" "i = length (benc_text (BStr k)) + length (benc_text v) + j"
      by auto
    from "2.IH" [OF j(1)] obtain v' us ws where
      "map_of kvs key = Some v'" "benc_texts (entries kvs) = us @ benc_text v' @ ws" "length us = j" by auto
    with False j show ?thesis
      by (intro exI [of _ v'] exI [of _ "benc_text (BStr k) @ benc_text v @ us"] exI [of _ ws]) auto
  qed
qed simp

lemma parity:
  assumes "even (i :: int)" "0 \<le> i" "i + 2 < 2 ^ 31"
  shows "int_add i 1 = Some (i + 1)" "int_add (i + 1) 1 = Some (i + 2)" "i mod 2 = 0" "(i + 1) mod 2 = 1"
  using assms by (auto simp: int_add_def int_range_def even_iff_mod_2_eq_zero)

text \<open>The facts at one key and its value, for a loop over the entries of a dictionary.\<close>

lemma pair_inside:
  assumes "length (benc_texts (entries ((k, v) # kvs))) < n"
    and "int (length mid + length (benc_texts (entries ((k, v) # kvs)))) < 2 ^ 31 - 2"
    and b: "b = pre @ x # mid @ benc_texts (entries ((k, v) # kvs)) @ CHR ''e'' # r"
  defines "p \<equiv> int (length pre) + int (length mid) + 1"
  obtains m c d where "n = Suc (Suc m)" "length (benc_texts (entries kvs)) < m"
    and "rdi b p = Some c" "c \<noteq> CHR ''e''" "c \<noteq> NUL"
    and "rdi b (p + int (length (benc_text (BStr k)))) = Some d" "d \<noteq> CHR ''e''" "d \<noteq> NUL"
    and "benc_entity_type b p = Some T_STRING"
    and "benc_entity_length (Suc m) b p = Some (int (length (benc_text (BStr k))))"
    and "benc_entity_length m b (p + int (length (benc_text (BStr k)))) = Some (int (length (benc_text v)))"
    and "NUL \<notin> set key \<Longrightarrow> key_matches b p (lit key) = Some (key = k)"
    and "int_add (int (length mid)) (int (length (benc_text (BStr k)))) = Some (int (length mid + length (benc_text (BStr k))))"
    and "int_add (int (length mid + length (benc_text (BStr k)))) (int (length (benc_text v))) =
      Some (int (length mid + length (benc_text (BStr k)) + length (benc_text v)))"
    and "int_add (int (length mid) + 1) (int (length (benc_text (BStr k)))) = Some (int (length mid + 1 + length (benc_text (BStr k))))"
proof -
  define kt where "kt = BStr k"
  have kt: "entries ((k, v) # kvs) = kt # v # entries kvs" "benc_type kt = T_STRING" by (simp_all add: kt_def)
  note as = assms(1,2,3) [unfolded kt(1) benc_texts_simps]
  from as(1) length_benc_text [of kt] length_benc_text [of v]
  have "Suc (Suc 0) < n" by simp
  then obtain m where n: "n = Suc (Suc m)" by (metis Suc_lessE less_natE)
  from as(1,2) n length_benc_text [of kt] length_benc_text [of v]
  have k: "length (benc_text kt) \<le> Suc m" "int (length mid + length (benc_text kt)) < 2 ^ 31"
    and v: "length (benc_text v) \<le> m" "int (length (mid @ benc_text kt) + length (benc_text v)) < 2 ^ 31"
    and m: "length (benc_texts (entries kvs)) < m" by simp_all
  have k3: "int (length mid) + 1 + int (length (benc_text kt)) < 2 ^ 31" using as(2) by simp
  have ks: "int (length k) < 2 ^ 31" using k(2) by (simp add: kt_def)
  have bk: "b = pre @ x # mid @ benc_text kt @ benc_text v @ benc_texts (entries kvs) @ CHR ''e'' # r"
    and bv: "b = pre @ x # (mid @ benc_text kt) @ benc_text v @ benc_texts (entries kvs) @ CHR ''e'' # r"
    using as(3) by simp_all
  have pv: "p + int (length (benc_text kt)) = int (length pre) + int (length (mid @ benc_text kt)) + 1"
    by (simp add: p_def)
  note fk = entity_inside [OF reads_all k bk p_def [THEN meta_eq_to_obj_eq]]
  note fv = entity_inside [OF reads_all v bv pv]
  from fk(1) obtain c where c: "rdi b p = Some c" "c \<noteq> CHR ''e''" "c \<noteq> NUL" by auto
  from fv(1) obtain d where d: "rdi b (p + int (length (benc_text kt))) = Some d" "d \<noteq> CHR ''e''" "d \<noteq> NUL" by auto
  have "key_matches b p (lit key) = Some (key = k)" if "NUL \<notin> set key"
    using key_matches_text [OF that ks, of p "pre @ x # mid" "benc_text v @ benc_texts (entries kvs) @ CHR ''e'' # r"]
    by (simp add: p_def bk kt_def)
  with that [unfolded kt_def [symmetric], OF n m c d fk(2) [unfolded kt(2)] fk(3) fv(3)] entity_add [OF k(2)] entity_add [OF v(2)] k3
  show thesis by (simp add: int_add_def int_range_def)
qed

lemma dict_value_loop_texts:
  assumes "NUL \<notin> set key" "length (benc_texts (entries kvs)) < n"
    and "int (length mid + length (benc_texts (entries kvs))) < 2 ^ 31 - 2" "even idx" "0 \<le> idx"
    and "idx + 2 * int (length kvs) < 2 ^ 31"
  shows "dict_value_loop n (pre @ x # mid @ benc_texts (entries kvs) @ CHR ''e'' # r) (int (length pre)) (lit key) (int (length mid)) idx =
    Some (case value_pos key kvs of None \<Rightarrow> -1 | Some i \<Rightarrow> int (length mid + 1 + i))"
  using assms
proof (induction kvs arbitrary: mid n idx rule: entries.induct)
  case 1
  then obtain m where "n = Suc m" by (cases n) auto
  with "1.prems" show ?case by (simp add: rdi_inside)
next
  case (2 k v kvs)
  define kt where "kt = BStr k"
  have kt: "entries ((k, v) # kvs) = kt # v # entries kvs" by (simp add: kt_def)
  define b where "b = pre @ x # mid @ benc_texts (entries ((k, v) # kvs)) @ CHR ''e'' # r"
  from pair_inside [OF "2.prems"(2,3) b_def, of key] obtain m c d where f:
    "n = Suc (Suc m)" "length (benc_texts (entries kvs)) < m"
    "rdi b (int (length pre) + int (length mid) + 1) = Some c" "c \<noteq> CHR ''e''" "c \<noteq> NUL"
    "rdi b (int (length pre) + int (length mid) + 1 + int (length (benc_text kt))) = Some d" "d \<noteq> CHR ''e''" "d \<noteq> NUL"
    "benc_entity_type b (int (length pre) + int (length mid) + 1) = Some T_STRING"
    "benc_entity_length (Suc m) b (int (length pre) + int (length mid) + 1) = Some (int (length (benc_text kt)))"
    "benc_entity_length m b (int (length pre) + int (length mid) + 1 + int (length (benc_text kt))) = Some (int (length (benc_text v)))"
    "NUL \<notin> set key \<Longrightarrow> key_matches b (int (length pre) + int (length mid) + 1) (lit key) = Some (key = k)"
    "int_add (int (length mid)) (int (length (benc_text kt))) = Some (int (length mid + length (benc_text kt)))"
    "int_add (int (length mid + length (benc_text kt))) (int (length (benc_text v))) =
      Some (int (length mid + length (benc_text kt) + length (benc_text v)))"
    "int_add (int (length mid) + 1) (int (length (benc_text kt))) = Some (int (length mid + 1 + length (benc_text kt)))"
    unfolding kt_def by metis
  have "b = pre @ x # (mid @ benc_text kt @ benc_text v) @ benc_texts (entries kvs) @ CHR ''e'' # r" by (simp add: b_def kt del: entries.simps)
  with "2.IH" [of m "mid @ benc_text kt @ benc_text v" "idx + 2"] "2.prems" f(2) kt
  have rest: "dict_value_loop m b (int (length pre)) (lit key) (int (length (mid @ benc_text kt @ benc_text v))) (idx + 2) =
      Some (case value_pos key kvs of None \<Rightarrow> -1 | Some i \<Rightarrow> int (length (mid @ benc_text kt @ benc_text v) + 1 + i))"
    by (simp del: entries.simps)
  have idx: "int_add idx 1 = Some (idx + 1)" "int_add (idx + 1) 1 = Some (idx + 2)" "idx mod 2 = 0" "(idx + 1) mod 2 = 1"
    using parity [of idx] "2.prems" by auto
  show ?case
    unfolding b_def [symmetric]
    using f idx rest "2.prems"(1) by (auto simp: kt_def [symmetric] ac_simps split: option.splits)
qed

lemma dict_key_loop_texts:
  assumes "length (benc_texts (entries kvs)) < n"
    and "int (length mid + length (benc_texts (entries kvs))) < 2 ^ 31 - 2" "even idx" "0 \<le> idx"
    and "idx + 2 * int (length kvs) < 2 ^ 31" "int_range (index * 2)" "idx \<le> index * 2" "even idx"
  shows "dict_key_loop n (pre @ x # mid @ benc_texts (entries kvs) @ CHR ''e'' # r) (int (length pre)) index (int (length mid)) idx =
    Some (let i = nat (index - idx div 2) in
      if i < length kvs then int (length mid + 1 + length (benc_texts (entries (take i kvs)))) else -1)"
  using assms
proof (induction kvs arbitrary: mid n idx rule: entries.induct)
  case 1
  then obtain m where "n = Suc m" by (cases n) auto
  with "1.prems" show ?case by (simp add: rdi_inside)
next
  case (2 k v kvs)
  define kt where "kt = BStr k"
  have kt: "entries ((k, v) # kvs) = kt # v # entries kvs" by (simp add: kt_def)
  define b where "b = pre @ x # mid @ benc_texts (entries ((k, v) # kvs)) @ CHR ''e'' # r"
  from pair_inside [OF "2.prems"(1,2) b_def, of "[]"] obtain m c d where f:
    "n = Suc (Suc m)" "length (benc_texts (entries kvs)) < m"
    "rdi b (int (length pre) + int (length mid) + 1) = Some c" "c \<noteq> CHR ''e''" "c \<noteq> NUL"
    "rdi b (int (length pre) + int (length mid) + 1 + int (length (benc_text kt))) = Some d" "d \<noteq> CHR ''e''" "d \<noteq> NUL"
    "benc_entity_type b (int (length pre) + int (length mid) + 1) = Some T_STRING"
    "benc_entity_length (Suc m) b (int (length pre) + int (length mid) + 1) = Some (int (length (benc_text kt)))"
    "benc_entity_length m b (int (length pre) + int (length mid) + 1 + int (length (benc_text kt))) = Some (int (length (benc_text v)))"
    "int_add (int (length mid)) (int (length (benc_text kt))) = Some (int (length mid + length (benc_text kt)))"
    "int_add (int (length mid + length (benc_text kt))) (int (length (benc_text v))) =
      Some (int (length mid + length (benc_text kt) + length (benc_text v)))"
    unfolding kt_def by metis
  have idx: "int_add idx 1 = Some (idx + 1)" "int_add (idx + 1) 1 = Some (idx + 2)" "idx mod 2 = 0" "(idx + 1) mod 2 = 1"
    using parity [of idx] "2.prems" by auto
  show ?case
  proof (cases "idx = index * 2")
    case True
    then have "nat (index - idx div 2) = 0" by simp
    with True f idx "2.prems"(6) show ?thesis unfolding b_def [symmetric] by (auto simp: ac_simps)
  next
    case False
    from "2.prems"(3) obtain h where h: "idx = 2 * h" by (elim evenE)
    from "2.prems"(7) h False have "nat (index - h) = Suc (nat (index - (h + 1)))" by simp
    have b: "b = pre @ x # (mid @ benc_text kt @ benc_text v) @ benc_texts (entries kvs) @ CHR ''e'' # r" by (simp add: b_def kt del: entries.simps)
    from "2.IH" [of m "mid @ benc_text kt @ benc_text v" "idx + 2"] "2.prems" f(2) kt h False
    have rest: "dict_key_loop m b (int (length pre)) index (int (length (mid @ benc_text kt @ benc_text v))) (idx + 2) =
      Some (let i = nat (index - (h + 1)) in
        if i < length kvs then int (length (mid @ benc_text kt @ benc_text v) + 1 + length (benc_texts (entries (take i kvs)))) else -1)"
      by (simp add: b del: entries.simps)
    with f idx "2.prems"(6) False h \<open>nat (index - h) = _\<close> show ?thesis
      unfolding b_def [symmetric] by (auto simp: kt_def [symmetric] ac_simps Let_def)
  qed
qed

lemma list_item_loop_texts:
  assumes "length (benc_texts vs) < n" "int (length mid + length (benc_texts vs)) < 2 ^ 31 - 2" "cur \<le> item"
    and "0 \<le> cur" "cur + int (length vs) < 2 ^ 31"
  shows "list_item_loop n (pre @ x # mid @ benc_texts vs @ CHR ''e'' # r) (int (length pre)) item (int (length mid)) cur =
    Some (let i = nat (item - cur) in
      if i < length vs then int (length mid + 1 + length (benc_texts (take i vs))) else -1)"
  using assms
proof (induction vs arbitrary: mid n cur)
  case Nil
  then obtain m where "n = Suc m" by (cases n) auto
  then show ?case by (simp add: rdi_inside)
next
  case (Cons v vs)
  then obtain m where n: "n = Suc m" by (cases n) auto
  let ?b = "pre @ x # mid @ benc_text v @ benc_texts vs @ CHR ''e'' # r"
  have v: "length (benc_text v) \<le> m" "int (length mid + length (benc_text v)) < 2 ^ 31"
    using Cons.prems n by auto
  note f = inside [OF v, of pre x "benc_texts vs @ CHR ''e'' # r"] entity_add [OF v(2)]
  show ?case
  proof (cases "cur = item")
    case True
    with f n show ?thesis by auto
  next
    case False
    with Cons.prems have i: "nat (item - cur) = Suc (nat (item - (cur + 1)))" by simp
    from length_benc_text [of v] have "length (benc_texts vs) < m" using Cons.prems n by simp
    with Cons.IH [of m "mid @ benc_text v" "cur + 1"] Cons.prems False have
      "list_item_loop m ?b (int (length pre)) item (int (length (mid @ benc_text v))) (cur + 1) =
        Some (let i = nat (item - (cur + 1)) in
          if i < length vs then int (length (mid @ benc_text v) + 1 + length (benc_texts (take i vs))) else -1)" by simp
    moreover have "int_add cur 1 = Some (cur + 1)" using Cons.prems by (simp add: int_add_def int_range_def)
    ultimately show ?thesis using f n False i by (auto simp: Let_def ac_simps)
  qed
qed

lemma int_value_neg:
  assumes "i < 0" "int_range i" "q = int (length pre)"
  shows "benc_int_value (pre @ benc_text (BInt i) @ r) q d = Some i"
proof -
  let ?n = "dec_nat (nat (- i))"
  let ?b = "pre @ CHR ''i'' # CHR ''-'' # ?n @ CHR ''e'' # r"
  have t: "benc_entity_type ?b q = Some T_INT"
    using type_text [OF assms(3), of "BInt i" r] assms(1) by (simp add: dec_def)
  have x: "rdi ?b (q + 1) = Some CHR ''-''" using rdi_at [of "q + 1" "pre @ ''i''"] assms(3) by simp
  have y: "rdi ?b (q + (1 + int (length ?n)) + 1) = Some CHR ''e''"
    using rdi_at [of "q + (1 + int (length ?n)) + 1" "pre @ ''i-'' @ ?n"] assms(3) by simp
  have d1: "drop (nat (q + 1 + 1)) ?b = ?n @ CHR ''e'' # r" and d2: "drop (nat (q + 1)) ?b = dec i @ CHR ''e'' # r"
    using assms(1,3) by (simp_all add: nat_add_distrib dec_def)
  have "0 < length ?n" by simp
  then have "\<not> 1 + int (length ?n) \<le> 1" by linarith
  then show ?thesis
    using t x y d1 d2 strtol_dec [OF assms(2)] assms(1) to_int_id [OF assms(2)]
    by (simp add: benc_int_value_def dec_def digit_count_dec_nat)
qed

lemma length_dec_nat_1: "length (dec_nat n) \<le> 1 \<longleftrightarrow> n < 10"
  by (subst dec_nat.simps) simp

lemma int_value_nat:
  assumes "0 \<le> i" "int_range i" "q = int (length pre)"
  shows "benc_int_value (pre @ benc_text (BInt i) @ r) q d = Some (if i < 10 then d else i)"
proof -
  let ?n = "dec_nat (nat i)"
  let ?b = "pre @ CHR ''i'' # ?n @ CHR ''e'' # r"
  obtain c cs where c: "?n = c # cs" "isdigit c" by (rule dec_nat_Cons)
  have t: "benc_entity_type ?b q = Some T_INT"
    using type_text [OF assms(3), of "BInt i" r] assms(1) by (simp add: dec_def)
  have x: "rdi ?b (q + 1) = Some c" "c \<noteq> CHR ''-''"
    using rdi_at [of "q + 1" "pre @ ''i''"] assms(3) c isdigit_not by simp_all
  have y: "rdi ?b (q + int (length ?n) + 1) = Some CHR ''e''"
    using rdi_at [of "q + int (length ?n) + 1" "pre @ ''i'' @ ?n"] assms(3) by simp
  have d: "drop (nat (q + 1)) ?b = dec i @ CHR ''e'' # r" "dec i = ?n"
    using assms(1,3) by (simp_all add: nat_add_distrib dec_def)
  have "int (length ?n) \<le> 1 \<longleftrightarrow> i < 10" using length_dec_nat_1 [of "nat i"] assms(1) by (simp add: nat_less_iff)
  then show ?thesis
    using t x y d strtol_dec [OF assms(2), of "CHR ''e''" r] assms(1) to_int_id [OF assms(2)] digit_count_dec_nat [of "CHR ''e''" "nat i" r]
    by (simp add: benc_int_value_def)
qed

section \<open>Values at a position\<close>

text \<open>The smallest fuel the theorems need is the length of the text. \<open>stands_at q b v\<close>: the text of \<open>v\<close> stands at
  position \<open>q\<close> of \<open>b\<close>.\<close>

definition stands_at :: "int \<Rightarrow> string \<Rightarrow> benc \<Rightarrow> bool" where
  "stands_at q b v \<longleftrightarrow> 0 \<le> q \<and> take (length (benc_text v)) (drop (nat q) b) = benc_text v"

lemma stands_at_parts: "stands_at q b v \<longleftrightarrow> (\<exists>pre r. b = pre @ benc_text v @ r \<and> q = int (length pre))"
proof
  assume q: "stands_at q b v"
  then have "drop (nat q) b \<noteq> []" using length_benc_text [of v] by (auto simp: stands_at_def)
  then have "q = int (length (take (nat q) b))" using q by (simp add: stands_at_def)
  moreover have "b = take (nat q) b @ benc_text v @ drop (length (benc_text v)) (drop (nat q) b)"
    using q by (metis append_take_drop_id stands_at_def)
  ultimately show "\<exists>pre r. b = pre @ benc_text v @ r \<and> q = int (length pre)" by blast
qed (auto simp: stands_at_def)

definition fits :: "nat \<Rightarrow> benc \<Rightarrow> bool" where
  "fits n v \<longleftrightarrow> length (benc_text v) \<le> n \<and> int (length (benc_text v)) < 2 ^ 31"

lemma entity_at:
  assumes "stands_at q b v" "fits n v"
  shows "benc_entity_type b q = Some (benc_type v) \<and>
    benc_entity_length n b q = Some (int (length (benc_text v)))"
proof
  obtain pre r where b: "b = pre @ benc_text v @ r" "q = int (length pre)" using assms(1) by (auto simp: stands_at_parts)
  show "benc_entity_type b q = Some (benc_type v)" unfolding b by (rule type_text) simp
  from b show "benc_entity_length n b q = Some (int (length (benc_text v)))"
    using readsD [OF reads_all, of v n q pre r] assms(2) by (simp add: fits_def)
qed

lemma value_at:
  assumes "stands_at q b (BDict kvs)" "fits n (BDict kvs)" "NUL \<notin> set key"
  shows "\<exists>off. benc_dict_value_offset n b q (Some (lit key)) = Some off \<and>
    (case map_of kvs key of None \<Rightarrow> off = -1 | Some v \<Rightarrow> 0 < off \<and> stands_at (q + off) b v)"
proof -
  obtain pre r where b: "b = pre @ benc_text (BDict kvs) @ r" "q = int (length pre)" using assms(1) by (auto simp: stands_at_parts)
  have b': "b = pre @ CHR ''d'' # [] @ benc_texts (entries kvs) @ CHR ''e'' # r"
    using b by (simp add: benc_text_container del: benc_text.simps)
  have sz: "length (benc_texts (entries kvs)) < n" "int (length ([] :: string) + length (benc_texts (entries kvs))) < 2 ^ 31 - 2"
    using assms(2) by (simp_all add: fits_def benc_text_container del: benc_text.simps)
  moreover from this length_dict_entries [of kvs] have "0 + 2 * int (length kvs) < 2 ^ 31" by simp
  ultimately have "dict_value_loop n b q (lit key) 0 0 =
      Some (case value_pos key kvs of None \<Rightarrow> -1 | Some i \<Rightarrow> int (1 + i))"
    using dict_value_loop_texts [OF assms(3), of kvs n "[]" 0 pre "CHR ''d''" r] b' b(2) by (simp split: option.splits)
  moreover have "benc_entity_type b q = Some T_DICT" using type_text [OF b(2), of "BDict kvs" r] b by simp
  ultimately have run: "benc_dict_value_offset n b q (Some (lit key)) =
      Some (case value_pos key kvs of None \<Rightarrow> -1 | Some i \<Rightarrow> int (1 + i))"
    by (simp add: benc_dict_value_offset_def)
  show ?thesis
  proof (cases "value_pos key kvs")
    case None
    with run value_pos_None show ?thesis by auto
  next
    case (Some i)
    from value_pos_Some [OF this] obtain v us ws where
      v: "map_of kvs key = Some v" "benc_texts (entries kvs) = us @ benc_text v @ ws" "length us = i" by blast
    have "stands_at (q + int (1 + i)) b v"
      unfolding stands_at_parts b' using v b(2)
      by (intro exI [of _ "pre @ ''d'' @ us"] exI [of _ "ws @ CHR ''e'' # r"]) simp
    with run v(1) Some show ?thesis by auto
  qed
qed

lemma length_le_texts: "length vs \<le> length (benc_texts vs)"
proof (induction vs)
  case (Cons v vs)
  with length_benc_text [of v] show ?case by simp
qed simp

lemma length_texts_2: "2 * length vs \<le> length (benc_texts vs)"
proof (induction vs)
  case (Cons v vs)
  with length_benc_text [of v] show ?case by simp
qed simp

lemma container_at:
  assumes "stands_at q b v" "fits n v" "benc_text v = x # benc_texts vs @ ''e''"
  obtains pre r where "b = pre @ x # [] @ benc_texts vs @ CHR ''e'' # r" "q = int (length pre)"
    "length (benc_texts vs) < n" "int (length ([] :: string) + length (benc_texts vs)) < 2 ^ 31 - 2"
    "benc_entity_type b q = Some (benc_type v)"
proof -
  obtain pre r where b: "b = pre @ benc_text v @ r" "q = int (length pre)" using assms(1) by (auto simp: stands_at_parts)
  show thesis
    using that [of pre r] assms(2) b type_text [OF b(2), of v r] by (simp add: fits_def assms(3))
qed

lemma stands_atI: "q = int (length pre) \<Longrightarrow> stands_at q (pre @ benc_text v @ r) v"
  by (auto simp: stands_at_parts)

lemma item_stands:
  assumes "i < length vs"
  shows "stands_at (int (length pre) + int (1 + length (benc_texts (take i vs)))) (pre @ x # [] @ benc_texts vs @ r) (vs ! i)"
proof -
  have "benc_texts vs = benc_texts (take i vs) @ benc_text (vs ! i) @ benc_texts (drop (Suc i) vs)"
    using benc_texts_simps(3) id_take_nth_drop [OF assms] by (metis benc_texts_simps(2))
  with stands_atI [of _ "pre @ x # benc_texts (take i vs)" "vs ! i" "benc_texts (drop (Suc i) vs) @ r"]
  show ?thesis by (simp add: ac_simps)
qed

lemma entries_append: "entries (us @ ws) = entries us @ entries ws"
  by (induction us rule: entries.induct) auto

lemma key_stands:
  fixes pre :: string and kvs :: "(string \<times> benc) list"
  assumes "i < length kvs"
  defines "q \<equiv> int (length pre) + int (1 + length (benc_texts (entries (take i kvs))))"
  shows "stands_at q (pre @ x # [] @ benc_texts (entries kvs) @ r) (BStr (fst (kvs ! i)))"
    and "stands_at (q + int (length (benc_text (BStr (fst (kvs ! i)))))) (pre @ x # [] @ benc_texts (entries kvs) @ r) (snd (kvs ! i))"
proof -
  obtain k v where kv: "kvs ! i = (k, v)" by (cases "kvs ! i")
  then have e: "entries kvs = entries (take i kvs) @ BStr k # v # entries (drop (Suc i) kvs)"
    using id_take_nth_drop [OF assms(1)] entries_append [of "take i kvs" "(k, v) # drop (Suc i) kvs"] by simp
  show "stands_at q (pre @ x # [] @ benc_texts (entries kvs) @ r) (BStr (fst (kvs ! i)))"
    using stands_atI [of q "pre @ x # benc_texts (entries (take i kvs))" "BStr k"
      "benc_texts (v # entries (drop (Suc i) kvs)) @ r"] kv e
    by (simp add: q_def ac_simps del: benc_text.simps)
  show "stands_at (q + int (length (benc_text (BStr (fst (kvs ! i)))))) (pre @ x # [] @ benc_texts (entries kvs) @ r) (snd (kvs ! i))"
    using stands_atI [of "q + int (length (benc_text (BStr k)))" "pre @ x # benc_texts (entries (take i kvs)) @ benc_text (BStr k)" v
      "benc_texts (entries (drop (Suc i) kvs)) @ r"] kv e
    by (simp add: q_def ac_simps del: benc_text.simps)
qed

lemma pair_length:
  assumes "c < length kvs" "kvs ! c = (k, x)"
  shows "length (benc_text (BStr k)) + length (benc_text x) + 4 * c + 2 \<le> length (benc_text (BDict kvs))"
    and "length (benc_texts (entries (take c kvs))) + length (benc_text (BStr k)) + 2 \<le> length (benc_text (BDict kvs))"
proof -
  have "entries kvs = entries (take c kvs) @ BStr k # x # entries (drop (Suc c) kvs)"
    using id_take_nth_drop [OF assms(1)] entries_append [of "take c kvs" "(k, x) # drop (Suc c) kvs"] assms(2) by simp
  then have "length (benc_text (BDict kvs)) = length (benc_texts (entries (take c kvs))) + length (benc_text (BStr k)) +
      length (benc_text x) + length (benc_texts (entries (drop (Suc c) kvs))) + 2"
    unfolding benc_text_container by (simp del: benc_text.simps)
  with length_dict_entries [of "take c kvs"] assms(1)
  show "length (benc_text (BStr k)) + length (benc_text x) + 4 * c + 2 \<le> length (benc_text (BDict kvs))"
    and "length (benc_texts (entries (take c kvs))) + length (benc_text (BStr k)) + 2 \<le> length (benc_text (BDict kvs))" by simp_all
qed

lemma item_index_at:
  assumes "stands_at q b (BList vs)" "fits n (BList vs)"
  shows "\<exists>off. benc_list_item_offset n b q i = Some off \<and>
    (if 0 \<le> i \<and> i < int (length vs) then 0 < off \<and> stands_at (q + off) b (vs ! nat i) else off = -1)"
proof (cases "i < 0")
  case True
  then show ?thesis by (simp add: benc_list_item_offset_def)
next
  case False
  then have i: "i < int k \<longleftrightarrow> nat i < k" for k by linarith
  obtain pre r where b: "b = pre @ CHR ''l'' # [] @ benc_texts vs @ CHR ''e'' # r" "q = int (length pre)"
    "length (benc_texts vs) < n" "int (length ([] :: string) + length (benc_texts vs)) < 2 ^ 31 - 2"
    "benc_entity_type b q = Some (benc_type (BList vs))"
    using container_at [OF assms benc_text_container(1)] by metis
  have "0 + int (length vs) < 2 ^ 31" using b(4) length_le_texts [of vs] by simp
  then have "benc_list_item_offset n b q i = Some (if nat i < length vs then int (1 + length (benc_texts (take (nat i) vs))) else -1)"
    using list_item_loop_texts [OF b(3,4), of 0 i pre "CHR ''l''" r] b False by (simp add: benc_list_item_offset_def)
  then show ?thesis
    using item_stands [of "nat i" vs pre "CHR ''l''" "CHR ''e'' # r"] False b(1,2) by (simp add: i)
qed

lemma key_index_at:
  assumes "stands_at q b (BDict kvs)" "fits n (BDict kvs)" "int_range (i * 2)"
  shows "\<exists>off. benc_dict_key_offset n b q i = Some off \<and>
    (if 0 \<le> i \<and> i < int (length kvs)
     then 0 < off \<and> stands_at (q + off) b (BStr (fst (kvs ! nat i))) \<and>
       stands_at (q + off + int (length (benc_text (BStr (fst (kvs ! nat i)))))) b (snd (kvs ! nat i)) \<and>
       off + int (length (benc_text (BStr (fst (kvs ! nat i))))) < 2 ^ 31
     else off = -1)"
proof (cases "i < 0")
  case True
  then show ?thesis by (simp add: benc_dict_key_offset_def)
next
  case False
  then have i: "i < int k \<longleftrightarrow> nat i < k" for k by linarith
  obtain pre r where b: "b = pre @ CHR ''d'' # [] @ benc_texts (entries kvs) @ CHR ''e'' # r" "q = int (length pre)"
    "length (benc_texts (entries kvs)) < n" "int (length ([] :: string) + length (benc_texts (entries kvs))) < 2 ^ 31 - 2"
    "benc_entity_type b q = Some (benc_type (BDict kvs))"
    using container_at [OF assms(1,2) benc_text_container(2)] by metis
  have "0 + 2 * int (length kvs) < 2 ^ 31" using b(4) length_dict_entries [of kvs] by simp
  then have "benc_dict_key_offset n b q i =
      Some (if nat i < length kvs then int (1 + length (benc_texts (entries (take (nat i) kvs)))) else -1)"
    using dict_key_loop_texts [OF b(3,4), of 0 i pre "CHR ''d''" r] b False assms(3) by (simp add: benc_dict_key_offset_def)
  moreover have "int (1 + length (benc_texts (entries (take (nat i) kvs)))) + int (length (benc_text (BStr (fst (kvs ! nat i))))) < 2 ^ 31"
    if "nat i < length kvs"
    using pair_length(2) [OF that prod.collapse [symmetric]] assms(2) unfolding fits_def by simp
  ultimately show ?thesis
    using key_stands [of "nat i" kvs pre "CHR ''d''" "CHR ''e'' # r"] False b(1,2) by (simp add: i del: benc_text.simps)
qed

lemma index_at:
  assumes "stands_at q b (BList vs)" "fits n (BList vs)" "stands_at q' b' (BDict kvs)" "fits n (BDict kvs)"
    and "int_range (i * 2)"
  shows "(\<exists>off. benc_list_item_offset n b q i = Some off \<and>
        (if 0 \<le> i \<and> i < int (length vs) then 0 < off \<and> stands_at (q + off) b (vs ! nat i) else off = -1)) \<and>
    (\<exists>off. benc_dict_key_offset n b' q' i = Some off \<and>
        (if 0 \<le> i \<and> i < int (length kvs) then stands_at (q' + off) b' (BStr (fst (kvs ! nat i))) else off = -1))"
  using item_index_at [OF assms(1,2), of i] key_index_at [OF assms(3-5)] by (auto split: if_splits)

lemma string_parts_at:
  assumes "stands_at q b (BStr s)" "int (length s) < 2 ^ 31"
  shows "benc_string_length b q = Some (int (length s)) \<and>
    (\<exists>off data. benc_string_data_offset b q = Some off \<and> ptr_at b (q + off) = Some data \<and> take (length s) data = s)"
proof -
  obtain pre r where b: "b = pre @ benc_text (BStr s) @ r" "q = int (length pre)" using assms(1) by (auto simp: stands_at_parts)
  show ?thesis unfolding b using string_parts [OF assms(2), of pre r] by auto
qed

lemma int_at:
  assumes "stands_at q b (BInt i)" "int_range i"
  shows "benc_int_value b q d = Some (if 0 \<le> i \<and> i < 10 then d else i)"
proof -
  obtain pre r where b: "b = pre @ benc_text (BInt i) @ r" "q = int (length pre)" using assms(1) by (auto simp: stands_at_parts)
  show ?thesis
    unfolding b(1) using int_value_neg [OF _ assms(2) b(2), of r d] int_value_nat [OF _ assms(2) b(2), of r d]
    by (cases "i < 0") auto
qed

lemma item_at:
  assumes "stands_at q b (BList vs)" "fits n (BList vs)"
  obtains off where "benc_list_item_offset n b q (int i) = Some off"
    "if i < length vs then 0 < off \<and> stands_at (q + off) b (vs ! i) else off = -1"
proof -
  from item_index_at [OF assms, of "int i"] obtain off where "benc_list_item_offset n b q (int i) = Some off"
    "if 0 \<le> int i \<and> int i < int (length vs) then 0 < off \<and> stands_at (q + off) b (vs ! nat (int i)) else off = -1" by blast
  then show thesis by (intro that [of off]) (auto split: if_splits)
qed

lemma fits_mono: "fits n v \<Longrightarrow> length (benc_text u) \<le> length (benc_text v) \<Longrightarrow> fits n u"
  by (simp add: fits_def)

lemma length_texts_mem: "v \<in> set vs \<Longrightarrow> length (benc_text v) \<le> length (benc_texts vs)"
  by (induction vs) auto

lemma fits_value:
  assumes "map_of kvs key = Some v" "fits n (BDict kvs)"
  shows "fits n v"
proof -
  have "map_of kvs key = Some v \<Longrightarrow> v \<in> set (entries kvs)" by (induction kvs rule: entries.induct) (auto split: if_splits)
  with assms length_texts_mem [of v "entries kvs"] show ?thesis
    by (intro fits_mono [OF assms(2)]) (simp add: benc_text_container del: benc_text.simps)
qed

lemma fits_item:
  assumes "i < length vs" "fits n (BList vs)"
  shows "fits n (vs ! i)"
proof -
  have "length (benc_text (vs ! i)) \<le> length (benc_texts vs)" using assms(1) by (intro length_texts_mem) simp
  also have "\<dots> \<le> length (benc_text (BList vs))" unfolding benc_text_container by simp
  finally show ?thesis by (rule fits_mono [OF assms(2)])
qed

lemma fits_BStr: "fits n (BStr s) \<Longrightarrow> int (length s) < 2 ^ 31"
  by (simp add: fits_def)

text \<open>The number that is printed for a value: the code shows -1 for a single digit.\<close>

definition shown :: "benc \<Rightarrow> int" where
  "shown v = (case v of BInt i \<Rightarrow> if 0 \<le> i \<and> i < 10 then -1 else i | _ \<Rightarrow> -1)"

definition int_ok :: "benc \<Rightarrow> bool" where
  "int_ok v \<longleftrightarrow> (case v of BInt i \<Rightarrow> int_range i | _ \<Rightarrow> True)"

lemma type_at:
  assumes "stands_at q b v" "fits n v"
  shows "benc_entity_type b q = Some (benc_type v)"
  using entity_at [OF assms] by simp

text \<open>A lookup, with what stands at the offset found.\<close>

lemma lookup_at:
  assumes "stands_at p b (BDict kvs)" "fits n (BDict kvs)" "NUL \<notin> set key"
  obtains (absent) "map_of kvs key = None" "benc_dict_value_offset n b p (Some (lit key)) = Some (-1)"
    | (found) v off where "map_of kvs key = Some v" "benc_dict_value_offset n b p (Some (lit key)) = Some off" "0 < off"
        "stands_at (p + off) b v" "fits n v"
proof -
  obtain off where off: "benc_dict_value_offset n b p (Some (lit key)) = Some off"
    "case map_of kvs key of None \<Rightarrow> off = -1 | Some v \<Rightarrow> 0 < off \<and> stands_at (p + off) b v"
    using value_at [OF assms] by auto
  show thesis
  proof (cases "map_of kvs key")
    case None
    with off absent show thesis by simp
  next
    case (Some v)
    with off found [of v off] fits_value [OF Some assms(2)] show thesis by simp
  qed
qed

lemma shown_at:
  assumes "stands_at q b v" "fits n v" "int_ok v"
  shows "benc_int_value b q (-1) = Some (shown v)"
proof (cases "benc_type v = T_INT")
  case False
  with type_at [OF assms(1,2)] show ?thesis by (cases v) (simp_all add: benc_int_value_def shown_def)
next
  case True
  then obtain i where v: "v = BInt i" by (cases v) simp_all
  with int_at [of q b i "-1"] assms show ?thesis by (simp add: int_ok_def shown_def)
qed

lemma fits_more: "fits k v \<Longrightarrow> k \<le> n \<Longrightarrow> fits n v"
  by (simp add: fits_def)

section \<open>Properties\<close>

text \<open>C12: for every value and wherever its text stands in a buffer, \<open>benc_entity_type\<close> recognises its
  kind and \<open>benc_entity_length\<close> returns with the exact length of its text, containers of any nesting
  included, as long as that length is an \<open>int\<close>.\<close>

theorem benc_entity_read:
  assumes "stands_at q b v" "fits n v"
  shows "benc_entity_type b q = Some (benc_type v) \<and>
    benc_entity_length n b q = Some (int (length (benc_text v)))"
  by (rule entity_at [OF assms])

text \<open>C20: looking up a key in the text of a dictionary finds the first entry with that key, as
  \<^const>\<open>map_of\<close> does: the offset is that of the text of its value, and -1 if there is no such
  entry.\<close>

theorem benc_dict_value_found:
  assumes "stands_at q b (BDict kvs)" "fits n (BDict kvs)" "NUL \<notin> set key"
  shows "\<exists>off. benc_dict_value_offset n b q (Some (lit key)) = Some off \<and>
    (case map_of kvs key of None \<Rightarrow> off = -1 | Some v \<Rightarrow> stands_at (q + off) b v)"
  using value_at [OF assms] by (auto split: option.splits)

text \<open>the item of a list and the key of a dictionary at an index: the offset is that of the text
  of the item or key, and -1 for a negative index or one behind the end.\<close>

theorem benc_index_found:
  assumes "stands_at q b (BList vs)" "fits n (BList vs)" "stands_at q' b' (BDict kvs)" "fits n (BDict kvs)"
    and "int_range (i * 2)"
  shows "(\<exists>off. benc_list_item_offset n b q i = Some off \<and>
        (if 0 \<le> i \<and> i < int (length vs) then stands_at (q + off) b (vs ! nat i) else off = -1)) \<and>
    (\<exists>off. benc_dict_key_offset n b' q' i = Some off \<and>
        (if 0 \<le> i \<and> i < int (length kvs) then stands_at (q' + off) b' (BStr (fst (kvs ! nat i))) else off = -1))"
  using index_at [OF assms] by (simp split: if_splits) (metis (no_types, lifting))

text \<open>the parts of a string: its length, and an offset at which its bytes stand.\<close>

theorem benc_string_read:
  assumes "stands_at q b (BStr s)" "int (length s) < 2 ^ 31"
  shows "benc_string_length b q = Some (int (length s)) \<and>
    (\<exists>off data. benc_string_data_offset b q = Some off \<and> ptr_at b (q + off) = Some data \<and> take (length s) data = s)"
  by (rule string_parts_at [OF assms])

text \<open>C36: a number is read back, but for the single digits: from the text of 0 to 9, \<open>benc_int_value\<close>
  returns the default value (the test meant for an empty number is off by one when there is no
  sign).\<close>

theorem benc_int_read:
  assumes "stands_at q b (BInt i)" "int_range i"
  shows "benc_int_value b q d = Some (if 0 \<le> i \<and> i < 10 then d else i)"
  by (rule int_at [OF assms])

lemma long_string_wraps:
  "list_length (Suc n) (lit ''l4294967285:e'') 0 0 =
    (if n = 0 then None else list_length n (lit ''l4294967285:e'') 0 0)"
proof -
  let ?b = "lit ''l4294967285:e''"
  have dec: "dec_nat 4294967285 = ''4294967285''" by (simp add: dec_nat.simps, code_simp)
  have b: "?b = ''l'' @ dec_nat 4294967285 @ CHR '':'' # ''e'' @ [NUL]" by (simp add: dec lit_def)
  have x: "rdi ?b (0 + 0 + 1) = Some CHR ''4''" by (simp add: lit_def rdi_def rd_def)
  have "benc_entity_type ?b (0 + 0 + 1) = Some T_STRING"
    unfolding b by (rule type_string) simp
  moreover have "string_entity_length ?b (0 + 0 + 1) = Some 0"
  proof -
    have "strtol (drop (nat 1) ?b) = Some 4294967285" "digit_count (drop (nat 1) ?b) = Some 10"
      using strtol_dec_nat [of 4294967285 "CHR '':''" "''e'' @ [NUL]"]
        digit_count_dec_nat [of "CHR '':''" 4294967285 "''e'' @ [NUL]"] by (simp_all add: b, simp_all add: dec)
    moreover have "rdi ?b 11 = Some CHR '':''" by (simp add: lit_def rdi_def rd_def)
    moreover have "to_int 4294967296 = 0" by (simp add: to_int_def signed_take_bit_eq_take_bit_shift take_bit_eq_mod)
    ultimately show ?thesis by (simp add: string_entity_length_def long_add_def long_range_def)
  qed
  moreover have "int_add 0 0 = Some 0" by (simp add: int_add_def int_range_def)
  ultimately show ?thesis using x by (cases n) (simp_all del: add_0)
qed

lemma long_string_list: "list_length n (lit ''l4294967285:e'') 0 0 = None"
  by (induction n) (simp, simp only: long_string_wraps split: if_split, simp)

lemma short_buffer_list: "list_length n (lit ''l9:abe'') 0 0 = None"
proof -
  have a: "rdi (lit ''l9:abe'') (0 + 0 + 1) = Some CHR ''9''" "rdi (lit ''l9:abe'') (0 + 11 + 1) = None"
    "benc_entity_type (lit ''l9:abe'') (0 + 0 + 1) = Some T_STRING"
    "string_entity_length (lit ''l9:abe'') (0 + 0 + 1) = Some 11" "int_add 0 11 = Some 11" by code_simp+
  show ?thesis
  proof (cases n)
    case (Suc k)
    have "list_length m (lit ''l9:abe'') 0 11 = None" for m using a(2) by (cases m) simp_all
    with a Suc show ?thesis by (cases k) simp_all
  qed simp
qed


section \<open>Witnesses\<close>

definition sample_dict :: "(string \<times> benc) list" where
  "sample_dict = [(''pieces'', BList [BInt (-3), BStr ''xy'']), (''port'', BInt 80)]"

lemma sample_at: "stands_at 1 (''a'' @ benc_text (BDict sample_dict) @ [NUL]) (BDict sample_dict)" "fits 100 (BDict sample_dict)"
  by code_simp+

lemma sample_list_at: "stands_at 0 (benc_text (BList [BInt 7]) @ [NUL]) (BList [BInt 7])" "fits 100 (BList [BInt 7])"
  by code_simp+

theorem benc_entity_read_witness:
  "benc_entity_length 100 (''a'' @ benc_text (BDict sample_dict) @ [NUL]) 1 = Some 30"
proof -
  have "length (benc_text (BDict sample_dict)) = 30" by code_simp
  with benc_entity_read [OF sample_at] show ?thesis by simp
qed

theorem benc_dict_value_found_witness:
  "\<exists>off. benc_dict_value_offset 100 (''a'' @ benc_text (BDict sample_dict) @ [NUL]) 1 (Some (lit ''port'')) = Some off \<and>
    stands_at (1 + off) (''a'' @ benc_text (BDict sample_dict) @ [NUL]) (BInt 80)"
proof -
  have "map_of sample_dict ''port'' = Some (BInt 80)" by code_simp
  with benc_dict_value_found [OF sample_at, of "''port''"] show ?thesis by simp
qed

theorem benc_index_found_witness:
  "\<exists>off. benc_list_item_offset 100 (benc_text (BList [BInt 7]) @ [NUL]) 0 0 = Some off \<and>
    stands_at (0 + off) (benc_text (BList [BInt 7]) @ [NUL]) (BInt 7)"
  using benc_index_found [OF sample_list_at sample_at, of 0] by (simp add: int_range_def)

theorem benc_string_read_witness: "benc_string_length (benc_text (BStr ''spam'') @ [NUL]) 0 = Some 4"
  using benc_string_read [OF stands_atI [of 0 "[]" "BStr ''spam''" "[NUL]"]] by simp

theorem benc_int_read_witness:
  "benc_int_value (benc_text (BInt 7) @ [NUL]) 0 1 = Some 1 \<and> benc_int_value (benc_text (BInt (-7)) @ [NUL]) 0 1 = Some (-7)"
  using benc_int_read [OF stands_atI [of 0 "[]" "BInt 7" "[NUL]"], of 1]
    benc_int_read [OF stands_atI [of 0 "[]" "BInt (-7)" "[NUL]"], of 1] by (simp add: int_range_def)

end
