(* ===== verification/Torrentfile_Spec.thy ===== *)
theory Torrentfile_Spec
  imports Torrentfile Benc_Spec
begin

text \<open>
  Reading a torrent file: what is found in the text of a well-formed one, and what happens when an
  entry is missing.
\<close>

text \<open>The file \<open>name\<close> starts with the text of \<open>v\<close>.\<close>

definition on_disk :: "disk \<Rightarrow> string \<Rightarrow> benc \<Rightarrow> bool" where
  "on_disk d name v \<longleftrightarrow> dk_heap d \<noteq> None \<and>
     (\<exists>size rest. dk_file d name = Some (size, benc_text v @ rest) \<and> length (benc_text v @ rest) \<le> size)"

lemma load_on_disk:
  assumes "on_disk d name v"
  obtains r where "load_file d name = Some (Loaded (benc_text v @ r))" "stands_at 0 (benc_text v @ r) v"
proof -
  obtain size rest h where f: "dk_file d name = Some (size, benc_text v @ rest)" "length (benc_text v @ rest) \<le> size" "dk_heap d = Some h"
    using assms by (auto simp: on_disk_def)
  let ?D = "benc_text v @ rest"
  have "drop (length ?D) (uninit h (size + 1)) \<noteq> []" using f(2) by simp
  then obtain x xs where x: "drop (length ?D) (uninit h (size + 1)) = x # xs" by (meson neq_Nil_conv)
  have "load_file d name = Some (Loaded (?D @ NUL # xs))"
    using f x wr_append [of ?D x xs] by (simp add: load_file_def mem_put_def)
  then show thesis
    using that [of "rest @ NUL # xs"] stands_atI [of 0 "[]" v "rest @ NUL # xs"] by simp
qed

lemma bytes_at_stands:
  assumes "stands_at q b v"
  shows "bytes_at b q (int (length (benc_text v))) = Some (benc_text v)"
proof -
  obtain pre r where b: "b = pre @ benc_text v @ r" "q = int (length pre)" using assms by (auto simp: stands_at_parts)
  have "ptr_at b q = Some (benc_text v @ r)" by (simp add: b ptr_at_def)
  then show ?thesis by (simp add: bytes_at_def mem_get_append)
qed

lemma string_bytes:
  assumes "stands_at q b (BStr s)" "int (length s) < 2 ^ 31"
  obtains d where "benc_string_length b q = Some (int (length s))" "benc_string_data_offset b q = Some d"
    "bytes_at b (q + d) (int (length s)) = Some s"
proof -
  obtain off data where "benc_string_length b q = Some (int (length s))" "benc_string_data_offset b q = Some off"
    "ptr_at b (q + off) = Some data" "take (length s) data = s"
    using string_parts_at [OF assms] by auto
  moreover from this have "length s \<le> length data" by (metis length_take min.cobounded1)
  ultimately show thesis by (intro that [of off]) (simp_all add: bytes_at_def mem_get_def)
qed

lemma type_before: "benc_entity_type b (-1) = None" "benc_string_length b (-1) = None" "benc_entity_length n b (-1) = None"
  by (simp_all add: benc_entity_type_def benc_string_length_def rdi_def) (cases n, simp_all add: benc_entity_type_def rdi_def)

lemma read_tracker_dict:
  assumes "stands_at 0 b (BDict kvs)" "fits n (BDict kvs)" "dk_heap d = Some h"
  shows "read_tracker n d b =
    (case map_of kvs ''announce'' of
       None \<Rightarrow> None
     | Some (BStr url) \<Rightarrow> Some (Some (url @ [NUL]))
     | Some v \<Rightarrow> Some None)"
proof -
  obtain off where off: "benc_dict_value_offset n b 0 (Some (lit ''announce'')) = Some off"
    "case map_of kvs ''announce'' of None \<Rightarrow> off = -1 | Some v \<Rightarrow> 0 < off \<and> stands_at (0 + off) b v"
    using value_at [OF assms(1,2), of "''announce''"] by auto
  show ?thesis
  proof (cases "map_of kvs ''announce''")
    case None
    with off show ?thesis by (simp add: read_tracker_def type_before)
  next
    case (Some v)
    with off(2) have at: "0 < off" "stands_at off b v" by simp_all
    show ?thesis
    proof (cases "benc_type v = T_STRING")
      case False
      have "benc_entity_type b off = Some (benc_type v)" using entity_at [OF at(2) fits_value [OF Some assms(2)]] by simp
      with False have "benc_string_length b off = Some (-1)" by (simp add: benc_string_length_def)
      with False off(1) Some show ?thesis by (cases v) (simp_all add: read_tracker_def)
    next
      case True
      then obtain url where v: "v = BStr url" by (cases v) simp_all
      have "int (length url) < 2 ^ 31" using fits_BStr fits_value [OF Some assms(2)] v by blast
      then obtain dd where s: "benc_string_length b off = Some (int (length url))" "benc_string_data_offset b off = Some dd"
        "bytes_at b (off + dd) (int (length url)) = Some url"
        using string_bytes at(2) v by blast
      have "drop (length url) (uninit h (length url + 1)) \<noteq> []" by simp
      then obtain x xs where x: "drop (length url) (uninit h (length url + 1)) = x # xs" by (meson neq_Nil_conv)
      moreover from this have "xs = []" by (metis add_diff_cancel_left' length_drop length_uninit length_Cons One_nat_def Suc_inject length_0_conv)
      ultimately have "mem_put (uninit h (length url + 1)) 0 url = Some (url @ [x])" by (simp add: mem_put_def)
      then show ?thesis
        using off(1) s at(1) assms(3) Some v wr_append [of url x "[]"]
        by (simp add: read_tracker_def add.commute)
    qed
  qed
qed

lemma digest_hex_eq:
  assumes "length digest = SHA_DIGEST_LENGTH" "41 \<le> length hash"
  shows "digest_hex hash digest = Some (hex_encode digest @ NUL # drop 41 hash)"
  using assms by (simp add: digest_hex_def hex_encode_loop_eq SHA_DIGEST_LENGTH_def)

lemma read_hash_dict:
  assumes "stands_at 0 b (BDict kvs)" "fits n (BDict kvs)" "\<forall>x. length (dk_sha1 d x) = SHA_DIGEST_LENGTH" "41 \<le> length hash"
  shows "read_hash n d b hash =
    (case map_of kvs ''info'' of
       Some (BDict info) \<Rightarrow> Some (hex_encode (dk_sha1 d (benc_text (BDict info))) @ NUL # drop 41 hash)
     | _ \<Rightarrow> None)"
proof -
  obtain off where off: "benc_dict_value_offset n b 0 (Some (lit ''info'')) = Some off"
    "case map_of kvs ''info'' of None \<Rightarrow> off = -1 | Some v \<Rightarrow> 0 < off \<and> stands_at (0 + off) b v"
    using value_at [OF assms(1,2), of "''info''"] by auto
  show ?thesis
  proof (cases "map_of kvs ''info''")
    case None
    with off show ?thesis by (simp add: read_hash_def type_before)
  next
    case (Some v)
    with off(2) have at: "0 < off" "stands_at off b v" by simp_all
    note e = entity_at [OF at(2) fits_value [OF Some assms(2)]]
    show ?thesis
    proof (cases "benc_type v = T_DICT")
      case False
      with e off(1) at(1) Some show ?thesis by (cases v) (simp_all add: read_hash_def)
    next
      case True
      then obtain info where v: "v = BDict info" by (cases v) simp_all
      from e off(1) at(1) Some v bytes_at_stands [OF at(2)] digest_hex_eq [OF assms(3) [rule_format] assms(4)]
      show ?thesis by (simp add: read_hash_def del: benc_text.simps)
    qed
  qed
qed

section \<open>Properties\<close>

text \<open>C27: a torrent file: from the text of a dictionary with an announce URL and an info dictionary,
  \<open>read_torrentfile\<close> gets exactly that URL and the digest, in hexadecimal, of exactly the text
  of the info dictionary.\<close>

theorem read_torrentfile_reads:
  assumes "on_disk d name (BDict kvs)" "fits n (BDict kvs)" "\<forall>x. length (dk_sha1 d x) = SHA_DIGEST_LENGTH"
    and "map_of kvs ''announce'' = Some (BStr url)" "map_of kvs ''info'' = Some (BDict info)" "41 \<le> length hash" "hash ! 0 = NUL"
  shows "read_torrentfile n d name None hash =
    Some (0, Some (url @ [NUL]), hex_encode (dk_sha1 d (benc_text (BDict info))) @ NUL # drop 41 hash)"
proof -
  obtain r where r: "load_file d name = Some (Loaded (benc_text (BDict kvs) @ r))" "stands_at 0 (benc_text (BDict kvs) @ r) (BDict kvs)"
    by (rule load_on_disk [OF assms(1)])
  obtain h where h: "dk_heap d = Some h" using assms(1) by (auto simp: on_disk_def)
  have "rd hash 0 = Some NUL" using assms(6,7) by (cases hash) (simp_all add: rd_def)
  then show ?thesis
    using r(1) entity_at [OF r(2) assms(2)] read_tracker_dict [OF r(2) assms(2) h] read_hash_dict [OF r(2) assms(2,3,6)] assms(4,5)
    by (simp add: read_torrentfile_def del: benc_text.simps)
qed

text \<open>a file without an announce URL, or without an info dictionary, is not refused: the offset -1 is
  used before it is checked, so the byte in front of the buffer is read, and for an info entry that
  is no dictionary a pointer is freed that was never allocated.\<close>

theorem read_torrentfile_incomplete_undefined:
  assumes "on_disk d name (BDict kvs)" "fits n (BDict kvs)" "\<forall>x. length (dk_sha1 d x) = SHA_DIGEST_LENGTH" "41 \<le> length hash" "hash ! 0 = NUL"
    and "map_of kvs ''announce'' = None \<or>
      map_option benc_type (map_of kvs ''announce'') = Some T_STRING \<and> map_option benc_type (map_of kvs ''info'') \<noteq> Some T_DICT"
  shows "read_torrentfile n d name None hash = None"
proof -
  obtain r where r: "load_file d name = Some (Loaded (benc_text (BDict kvs) @ r))" "stands_at 0 (benc_text (BDict kvs) @ r) (BDict kvs)"
    by (rule load_on_disk [OF assms(1)])
  obtain h where h: "dk_heap d = Some h" using assms(1) by (auto simp: on_disk_def)
  note facts = r(1) entity_at [OF r(2) assms(2)] read_tracker_dict [OF r(2) assms(2) h] read_hash_dict [OF r(2) assms(2,3,4)]
  have h0: "rd hash 0 = Some NUL" using assms(4,5) by (cases hash) (simp_all add: rd_def)
  show ?thesis
  proof (cases "map_of kvs ''announce''")
    case None
    with facts show ?thesis by (simp add: read_torrentfile_def del: benc_text.simps)
  next
    case (Some v)
    with assms(6) obtain url where v: "v = BStr url" by (cases v) simp_all
    have "read_hash n d (benc_text (BDict kvs) @ r) hash = None"
      using assms(6) Some facts(4) by (auto split: option.splits benc.splits simp del: benc_text.simps)
    with facts h0 Some v show ?thesis by (simp add: read_torrentfile_def del: benc_text.simps)
  qed
qed

section \<open>Witnesses\<close>

definition sample_torrent :: "(string \<times> benc) list" where
  "sample_torrent = [(''announce'', BStr ''http://t/a''), (''info'', BDict [(''name'', BStr ''x'')])]"

definition sample_disk :: "benc \<Rightarrow> disk" where
  "sample_disk v = \<lparr>dk_file = (\<lambda>_. Some (length (benc_text v), benc_text v)), dk_heap = Some (\<lambda>_. NUL),
     dk_sha1 = (\<lambda>_. replicate 20 (CHR ''a''))\<rparr>"

lemma sample_disk_facts: "on_disk (sample_disk v) name v" "\<forall>x. length (dk_sha1 (sample_disk v) x) = SHA_DIGEST_LENGTH"
  by (auto simp: on_disk_def sample_disk_def SHA_DIGEST_LENGTH_def)

theorem read_torrentfile_reads_witness:
  "\<exists>hash. read_torrentfile 100 (sample_disk (BDict sample_torrent)) ''x.torrent'' None (replicate 61 NUL) =
     Some (0, Some (lit ''http://t/a''), hash)"
proof -
  have "fits 100 (BDict sample_torrent)" by code_simp
  moreover have "map_of sample_torrent ''announce'' = Some (BStr ''http://t/a'')"
    "map_of sample_torrent ''info'' = Some (BDict [(''name'', BStr ''x'')])" by (simp_all add: sample_torrent_def)
  ultimately show ?thesis
    using read_torrentfile_reads [OF sample_disk_facts(1) _ sample_disk_facts(2)] by (simp add: lit_def)
qed

theorem read_torrentfile_incomplete_undefined_witness:
  "read_torrentfile 100 (sample_disk (BDict [(''info'', BDict [])])) ''x.torrent'' None (replicate 61 NUL) = None"
proof (rule read_torrentfile_incomplete_undefined [OF sample_disk_facts(1) _ sample_disk_facts(2)])
  show "fits 100 (BDict [(''info'', BDict [])])" by code_simp
qed simp_all

end
