(* ===== verification/Sqlite.thy ===== *)
theory Sqlite
  imports World
begin

text \<open>
  The database interface of the tracker. SQLite itself is not part of the repository: its calls
  are the fields of the record \<open>sqlite\<close>, a parameter of every definition that uses the
  database. What is part of the repository is the list of statements in
  \<^verbatim>\<open>src/statements.h\<close>; \<open>run_sql\<close> says what each of them does to the two tables that the same
  file creates. The locale \<open>sqlite_api\<close> states the documented behaviour of the calls against
  these tables, and \<open>mem_sqlite\<close>, an executable engine for exactly these statements, satisfies
  it.
\<close>

section \<open>Result codes\<close>

definition SQLITE_OK :: int where [simp]: "SQLITE_OK = 0"
definition SQLITE_ERROR :: int where [simp]: "SQLITE_ERROR = 1"
definition SQLITE_BUSY :: int where [simp]: "SQLITE_BUSY = 5"
definition SQLITE_ROW :: int where [simp]: "SQLITE_ROW = 100"
definition SQLITE_DONE :: int where [simp]: "SQLITE_DONE = 101"

section \<open>The statements and their tables\<close>

datatype sql =
    QUERY_TORRENT_COUNT
  | QUERY_TORRENT_ID
  | QUERY_TORRENT_PEERS
  | ADD_TORRENT_PEER
  | QUERY_PEER_BY_ID
  | UPDATE_PEER_DATA
  | QUERY_PRUNE_PEERS
  | INCREASE_COMPLETION_COUNT
  | GET_COMPLETION_COUNT
  | GET_SEED_COUNT
  | GET_PEERS_COUNT

fun sql_text :: "sql \<Rightarrow> string" where
  "sql_text QUERY_TORRENT_COUNT = ''SELECT count(torrents.id) AS torrents FROM torrents;''"
| "sql_text QUERY_TORRENT_ID = ''SELECT id FROM torrents WHERE hash=?;''"
| "sql_text QUERY_TORRENT_PEERS =
     ''SELECT peer_id, ip, port, protover FROM peers WHERE torrent=? ORDER BY RANDOM() LIMIT 50;''"
| "sql_text ADD_TORRENT_PEER =
     ''INSERT INTO peers (torrent, peer_id, ip, port, expires, protover) VALUES (?,?,?,?,?,?);''"
| "sql_text QUERY_PEER_BY_ID = ''SELECT id FROM peers WHERE torrent=? AND peer_id=?;''"
| "sql_text UPDATE_PEER_DATA = ''UPDATE peers SET left=?, status=?, expires=? WHERE id=?;''"
| "sql_text QUERY_PRUNE_PEERS = ''DELETE FROM peers WHERE expires<?;''"
| "sql_text INCREASE_COMPLETION_COUNT = ''UPDATE torrents SET downloaded=downloaded+1 WHERE id=?;''"
| "sql_text GET_COMPLETION_COUNT = ''SELECT downloaded FROM torrents WHERE id=?;''"
| "sql_text GET_SEED_COUNT =
     ''SELECT count(peers.id) AS seeders FROM peers WHERE torrent=? AND left=0;''"
| "sql_text GET_PEERS_COUNT =
     ''SELECT count(peers.id) AS seeders FROM peers WHERE torrent=? AND left!=0;''"

text \<open>The columns of \<open>CREATE_TORRENT_TABLE\<close> and \<open>CREATE_PEERS_TABLE\<close>. Columns that may be
  NULL by the schema, but that the tracker always fills before it reads them, are plain values;
  \<open>peers_seq\<close> is the AUTOINCREMENT counter.\<close>

record torrent_row =
  t_id :: int
  t_hash :: string
  t_downloaded :: int

record peer_row =
  p_id :: int
  p_torrent :: int
  p_peer_id :: string
  p_ip :: string
  p_port :: int
  p_protover :: int
  p_left :: int
  p_status :: "int option"
  p_expires :: int

record tables =
  torrents :: "torrent_row list"
  peers :: "peer_row list"
  peers_seq :: int

datatype sqlval = SInt int | SText string | SNull

type_synonym sqlrow = "sqlval list"
type_synonym sqlargs = "nat \<Rightarrow> sqlval"

fun int_less_val :: "int \<Rightarrow> sqlval \<Rightarrow> bool" where
  "int_less_val x (SInt y) = (x < y)"
| "int_less_val x _ = False"

text \<open>\<open>order\<close> is the arrangement that \<open>ORDER BY RANDOM()\<close> picks. The result is the new
  tables and the rows; \<^term>\<open>None\<close> is a violated constraint or a value of the wrong type.\<close>

fun run_sql :: "(peer_row list \<Rightarrow> peer_row list) \<Rightarrow> sql \<Rightarrow> sqlargs \<Rightarrow> tables \<Rightarrow>
    (tables \<times> sqlrow list) option" where
  "run_sql order QUERY_TORRENT_COUNT a T = Some (T, [[SInt (int (length (torrents T)))]])"
| "run_sql order QUERY_TORRENT_ID a T =
     Some (T, map (\<lambda>t. [SInt (t_id t)]) (filter (\<lambda>t. SText (t_hash t) = a 1) (torrents T)))"
| "run_sql order QUERY_TORRENT_PEERS a T =
     Some (T, map (\<lambda>p. [SText (p_peer_id p), SText (p_ip p), SInt (p_port p), SInt (p_protover p)])
               (take 50 (order (filter (\<lambda>p. SInt (p_torrent p) = a 1) (peers T)))))"
| "run_sql order ADD_TORRENT_PEER a T =
     (case (a 1, a 2, a 3, a 4, a 5, a 6) of
        (SInt t, SText pid, SText ip, SInt port, SInt ex, SInt proto) \<Rightarrow>
          Some (T\<lparr>peers := peers T @ [\<lparr>p_id = peers_seq T, p_torrent = t, p_peer_id = pid, p_ip = ip,
                      p_port = port, p_protover = proto, p_left = 0, p_status = None, p_expires = ex\<rparr>],
                  peers_seq := peers_seq T + 1\<rparr>, [])
      | _ \<Rightarrow> None)"
| "run_sql order QUERY_PEER_BY_ID a T =
     Some (T, map (\<lambda>p. [SInt (p_id p)])
                (filter (\<lambda>p. SInt (p_torrent p) = a 1 \<and> SText (p_peer_id p) = a 2) (peers T)))"
| "run_sql order UPDATE_PEER_DATA a T =
     (case (a 1, a 2, a 3) of
        (SInt l, SInt st, SInt ex) \<Rightarrow>
          Some (T\<lparr>peers := map (\<lambda>p. if SInt (p_id p) = a 4
                      then p\<lparr>p_left := l, p_status := Some st, p_expires := ex\<rparr> else p) (peers T)\<rparr>, [])
      | _ \<Rightarrow> None)"
| "run_sql order QUERY_PRUNE_PEERS a T =
     Some (T\<lparr>peers := filter (\<lambda>p. \<not> int_less_val (p_expires p) (a 1)) (peers T)\<rparr>, [])"
| "run_sql order INCREASE_COMPLETION_COUNT a T =
     Some (T\<lparr>torrents := map (\<lambda>t. if SInt (t_id t) = a 1
                then t\<lparr>t_downloaded := t_downloaded t + 1\<rparr> else t) (torrents T)\<rparr>, [])"
| "run_sql order GET_COMPLETION_COUNT a T =
     Some (T, map (\<lambda>t. [SInt (t_downloaded t)]) (filter (\<lambda>t. SInt (t_id t) = a 1) (torrents T)))"
| "run_sql order GET_SEED_COUNT a T =
     Some (T, [[SInt (int (length (filter (\<lambda>p. SInt (p_torrent p) = a 1 \<and> p_left p = 0) (peers T))))]])"
| "run_sql order GET_PEERS_COUNT a T =
     Some (T, [[SInt (int (length (filter (\<lambda>p. SInt (p_torrent p) = a 1 \<and> p_left p \<noteq> 0) (peers T))))]])"

section \<open>The calls\<close>

text \<open>\<open>sq_prepare\<close> is \<open>sqlite3_prepare_v2\<close> of one of the statements; binding and stepping
  return the changed statement; parameters and columns are numbered as in the C interface
  (parameters from 1, columns from 0).\<close>

record ('db, 'stmt) sqlite =
  sq_prepare :: "'db \<Rightarrow> sql \<Rightarrow> int \<times> 'stmt \<times> 'db"
  sq_bind_int :: "'stmt \<Rightarrow> nat \<Rightarrow> int \<Rightarrow> int \<times> 'stmt"
  sq_bind_text :: "'stmt \<Rightarrow> nat \<Rightarrow> string \<Rightarrow> int \<times> 'stmt"
  sq_step :: "'stmt \<Rightarrow> 'db \<Rightarrow> int \<times> 'stmt \<times> 'db"
  sq_column_int :: "'stmt \<Rightarrow> nat \<Rightarrow> int"
  sq_column_text :: "'stmt \<Rightarrow> nat \<Rightarrow> string"
  sq_finalize :: "'stmt \<Rightarrow> 'db \<Rightarrow> 'db"

definition sqlite3_prepare_v2 ::
    "('db, 'stmt) sqlite \<Rightarrow> sql \<Rightarrow> 'db world \<Rightarrow> int \<times> 'stmt \<times> 'db world" where
  "sqlite3_prepare_v2 q s w =
     (case sq_prepare q (wdb w) s of (rc, st, db) \<Rightarrow> (rc, st, w\<lparr>wdb := db\<rparr>))"

definition sqlite3_step ::
    "('db, 'stmt) sqlite \<Rightarrow> 'stmt \<Rightarrow> 'db world \<Rightarrow> int \<times> 'stmt \<times> 'db world" where
  "sqlite3_step q st w = (case sq_step q st (wdb w) of (rc, st, db) \<Rightarrow> (rc, st, w\<lparr>wdb := db\<rparr>))"

definition sqlite3_finalize :: "('db, 'stmt) sqlite \<Rightarrow> 'stmt \<Rightarrow> 'db world \<Rightarrow> 'db world" where
  "sqlite3_finalize q st w = w\<lparr>wdb := sq_finalize q st (wdb w)\<rparr>"

section \<open>What the calls promise\<close>

text \<open>A statement as the documentation describes it: its text, the bound values (NULL until
  bound), the rows still to come once it has been stepped, and the current row.\<close>

record stmt_view =
  sv_sql :: sql
  sv_args :: sqlargs
  sv_todo :: "sqlrow list option"
  sv_row :: "sqlrow option"

definition fresh_stmt :: "sql \<Rightarrow> stmt_view" where
  "fresh_stmt s = \<lparr>sv_sql = s, sv_args = (\<lambda>_. SNull), sv_todo = None, sv_row = None\<rparr>"

text \<open>A text column is read as a C string, which ends at its first NUL. A value of the other kind is
  converted: a text as by \<open>atoi\<close>, a number to its decimal digits; NULL is 0 and the null pointer, which
  the tracker never reads.\<close>

definition ctext :: "string \<Rightarrow> string" where
  "ctext s = takeWhile (\<lambda>c. c \<noteq> NUL) s"

fun val_int :: "sqlval \<Rightarrow> int" where
  "val_int (SInt i) = to_int i"
| "val_int (SText s) = (case strtol (lit s) of Some i \<Rightarrow> to_int i | None \<Rightarrow> 0)"
| "val_int SNull = 0"

fun val_text :: "sqlval \<Rightarrow> string" where
  "val_text (SText s) = ctext s"
| "val_text (SInt i) = dec i"
| "val_text SNull = []"

text \<open>Statements are opened by \<open>prepare\<close> and closed by \<open>finalize\<close>; \<open>opened\<close> counts the
  open ones.\<close>

locale sqlite_handles =
  fixes q :: "('db, 'stmt) sqlite" and opened :: "'db \<Rightarrow> nat"
  assumes prepare_opened:
      "sq_prepare q db s = (rc, st, db') \<Longrightarrow>
       opened db' = (if rc = SQLITE_OK then Suc (opened db) else opened db)"
    and step_opened: "sq_step q st db = (rc, st', db') \<Longrightarrow> opened db' = opened db"
    and finalize_opened: "opened (sq_finalize q st db) = opened db - 1"

text \<open>The effect of the calls on the tables. A call that fails changes nothing, as SQLite's
  statements are atomic; any call may fail. Nothing is promised for a step behind the last row: there
  the statement may start again.\<close>

locale sqlite_api = sqlite_handles q opened
  for q :: "('db, 'stmt) sqlite" and opened :: "'db \<Rightarrow> nat" +
  fixes tabs :: "'db \<Rightarrow> tables" and view :: "'stmt \<Rightarrow> stmt_view"
  assumes prepare_tabs: "sq_prepare q db s = (rc, st, db') \<Longrightarrow> tabs db' = tabs db"
    and prepare_view: "sq_prepare q db s = (SQLITE_OK, st, db') \<Longrightarrow> view st = fresh_stmt s"
    and bind_int_view: "sq_bind_int q st i v = (SQLITE_OK, st') \<Longrightarrow>
        view st' = (view st)\<lparr>sv_args := (sv_args (view st))(i := SInt v)\<rparr>"
    and bind_text_view: "sq_bind_text q st i txt = (SQLITE_OK, st') \<Longrightarrow>
        view st' = (view st)\<lparr>sv_args := (sv_args (view st))(i := SText txt)\<rparr>"
    and step_not_ok: "sq_step q st db = (rc, st', db') \<Longrightarrow> rc \<noteq> SQLITE_OK"
    and step_code: "sq_step q st db = (rc, st', db') \<Longrightarrow> int_range rc"
    and step_fail: "sq_step q st db = (rc, st', db') \<Longrightarrow> rc \<noteq> SQLITE_ROW \<Longrightarrow> rc \<noteq> SQLITE_DONE \<Longrightarrow>
        tabs db' = tabs db"
    and step_first: "sq_step q st db = (rc, st', db') \<Longrightarrow> rc = SQLITE_ROW \<or> rc = SQLITE_DONE \<Longrightarrow>
        sv_todo (view st) = None \<Longrightarrow>
        \<exists>order rows. (\<forall>ps. mset (order ps) = mset ps) \<and>
          run_sql order (sv_sql (view st)) (sv_args (view st)) (tabs db) = Some (tabs db', rows) \<and>
          (rc = SQLITE_DONE \<longleftrightarrow> rows = []) \<and>
          sv_row (view st') = (if rows = [] then None else Some (hd rows)) \<and>
          sv_todo (view st') = Some (tl rows)"
    and step_next: "sq_step q st db = (rc, st', db') \<Longrightarrow> rc = SQLITE_ROW \<or> rc = SQLITE_DONE \<Longrightarrow>
        sv_todo (view st) = Some rows \<Longrightarrow> sv_row (view st) \<noteq> None \<Longrightarrow>
        tabs db' = tabs db \<and> (rc = SQLITE_DONE \<longleftrightarrow> rows = []) \<and>
        sv_row (view st') = (if rows = [] then None else Some (hd rows)) \<and>
        sv_todo (view st') = Some (tl rows)"
    and column_int: "sv_row (view st) = Some row \<Longrightarrow> k < length row \<Longrightarrow>
        sq_column_int q st k = val_int (row ! k)"
    and column_text: "sv_row (view st) = Some row \<Longrightarrow> k < length row \<Longrightarrow>
        sq_column_text q st k = val_text (row ! k)"
    and finalize_tabs: "tabs (sq_finalize q st db) = tabs db"

section \<open>An engine for the statements\<close>

text \<open>\<open>m_fault n\<close> is the code the \<open>n\<close>th step fails with, if it does; \<open>m_order n\<close> the
  random order of the \<open>n\<close>th step, used only where it is a rearrangement.\<close>

record mem_db =
  m_tabs :: tables
  m_open :: nat
  m_steps :: nat
  m_fault :: "nat \<Rightarrow> int option"
  m_order :: "nat \<Rightarrow> peer_row list \<Rightarrow> peer_row list"

definition permuting :: "(peer_row list \<Rightarrow> peer_row list) \<Rightarrow> peer_row list \<Rightarrow> peer_row list" where
  "permuting f ps = (if mset (f ps) = mset ps then f ps else ps)"

definition deliver :: "stmt_view \<Rightarrow> sqlrow list \<Rightarrow> int \<times> stmt_view" where
  "deliver st rows =
     (case rows of
        [] \<Rightarrow> (SQLITE_DONE, st\<lparr>sv_row := None, sv_todo := Some []\<rparr>)
      | r # rs \<Rightarrow> (SQLITE_ROW, st\<lparr>sv_row := Some r, sv_todo := Some rs\<rparr>))"

definition mem_step :: "stmt_view \<Rightarrow> mem_db \<Rightarrow> int \<times> stmt_view \<times> mem_db" where
  "mem_step st db =
     (let n = m_steps db; db = db\<lparr>m_steps := Suc n\<rparr> in
      case m_fault db n of
        Some rc \<Rightarrow> (if rc \<in> {SQLITE_OK, SQLITE_ROW, SQLITE_DONE} \<or> \<not> int_range rc then SQLITE_ERROR else rc, st, db)
      | None \<Rightarrow>
          (if sv_todo st \<noteq> None \<and> sv_row st \<noteq> None
           then (case deliver st (the (sv_todo st)) of (rc, st') \<Rightarrow> (rc, st', db))
           else
               (case run_sql (permuting (m_order db n)) (sv_sql st) (sv_args st) (m_tabs db) of
                  None \<Rightarrow> (SQLITE_ERROR, st, db)
                | Some (T, rows) \<Rightarrow>
                    (case deliver st rows of (rc, st') \<Rightarrow> (rc, st', db\<lparr>m_tabs := T\<rparr>)))))"

definition mem_sqlite :: "(mem_db, stmt_view) sqlite" where
  "mem_sqlite = \<lparr>
     sq_prepare = (\<lambda>db s. (SQLITE_OK, fresh_stmt s, db\<lparr>m_open := Suc (m_open db)\<rparr>)),
     sq_bind_int = (\<lambda>st i v. (SQLITE_OK, st\<lparr>sv_args := (sv_args st)(i := SInt v)\<rparr>)),
     sq_bind_text = (\<lambda>st i s. (SQLITE_OK, st\<lparr>sv_args := (sv_args st)(i := SText s)\<rparr>)),
     sq_step = mem_step,
     sq_column_int = (\<lambda>st k. case sv_row st of Some row \<Rightarrow> if k < length row then val_int (row ! k) else 0
                                     | None \<Rightarrow> 0),
     sq_column_text = (\<lambda>st k. case sv_row st of Some row \<Rightarrow> if k < length row then val_text (row ! k) else []
                                      | None \<Rightarrow> []),
     sq_finalize = (\<lambda>st db. db\<lparr>m_open := m_open db - 1\<rparr>) \<rparr>"

lemma deliver_facts:
  "deliver st rows = (rc, st') \<Longrightarrow>
     (rc = SQLITE_ROW \<or> rc = SQLITE_DONE) \<and> (rc = SQLITE_DONE \<longleftrightarrow> rows = []) \<and>
     sv_row st' = (if rows = [] then None else Some (hd rows)) \<and> sv_todo st' = Some (tl rows)"
  by (auto simp: deliver_def split: list.splits)

lemma mset_permuting: "mset (permuting f ps) = mset ps"
  by (simp add: permuting_def)

interpretation mem: sqlite_api mem_sqlite m_open m_tabs "\<lambda>st. st"
proof
  show "m_open db' = m_open db" if "sq_step mem_sqlite st db = (rc, st', db')" for st db rc st' db'
    using that by (auto simp: mem_sqlite_def mem_step_def Let_def split: option.splits prod.splits if_splits)
  show "rc \<noteq> SQLITE_OK" if "sq_step mem_sqlite st db = (rc, st', db')" for st db rc st' db'
    using that by (auto simp: mem_sqlite_def mem_step_def Let_def dest: deliver_facts
        split: option.splits prod.splits if_splits)
  show "int_range rc" if "sq_step mem_sqlite st db = (rc, st', db')" for st db rc st' db'
    using that by (auto simp: mem_sqlite_def mem_step_def Let_def int_range_def dest: deliver_facts
        split: option.splits prod.splits if_splits)
  show "m_tabs db' = m_tabs db"
    if "sq_step mem_sqlite st db = (rc, st', db')" "rc \<noteq> SQLITE_ROW" "rc \<noteq> SQLITE_DONE" for st db rc st' db'
    using that by (auto simp: mem_sqlite_def mem_step_def Let_def dest: deliver_facts
        split: option.splits prod.splits if_splits)
  show "\<exists>order rows. (\<forall>ps. mset (order ps) = mset ps) \<and>
      run_sql order (sv_sql st) (sv_args st) (m_tabs db) = Some (m_tabs db', rows) \<and>
      (rc = SQLITE_DONE \<longleftrightarrow> rows = []) \<and>
      sv_row st' = (if rows = [] then None else Some (hd rows)) \<and> sv_todo st' = Some (tl rows)"
    if "sq_step mem_sqlite st db = (rc, st', db')" "rc = SQLITE_ROW \<or> rc = SQLITE_DONE"
      "sv_todo st = None" for st db rc st' db'
  proof -
    from that obtain T rows where run:
      "run_sql (permuting (m_order db (m_steps db))) (sv_sql st) (sv_args st) (m_tabs db) = Some (T, rows)"
      and del: "deliver st rows = (rc, st')" and "m_tabs db' = T"
      by (auto simp: mem_sqlite_def mem_step_def Let_def split: option.splits prod.splits if_splits)
    with mset_permuting deliver_facts [OF del] show ?thesis by blast
  qed
  show "m_tabs db' = m_tabs db \<and> (rc = SQLITE_DONE \<longleftrightarrow> rows = []) \<and>
      sv_row st' = (if rows = [] then None else Some (hd rows)) \<and> sv_todo st' = Some (tl rows)"
    if "sq_step mem_sqlite st db = (rc, st', db')" "rc = SQLITE_ROW \<or> rc = SQLITE_DONE"
      "sv_todo st = Some rows" "sv_row st \<noteq> None" for st db rc st' db' rows
    using that deliver_facts
    by (auto simp: mem_sqlite_def mem_step_def Let_def split: option.splits prod.splits if_splits)
qed (auto simp: mem_sqlite_def)

end
