(* ===== verification/Traccoon.thy ===== *)
theory Traccoon
  imports Encoding World
begin

text \<open>
  The shared types and constants of the tracker (\<^verbatim>\<open>src/traccoon.h\<close>): error codes, limits, the
  announce request, the client slots of the accept queue.
\<close>

definition DB_NOSUCHHASH :: int where [simp]: "DB_NOSUCHHASH = -2"
definition DB_FAILED :: int where [simp]: "DB_FAILED = -1"
definition E_GENERIC :: int where [simp]: "E_GENERIC = -3"

definition DB_ERROR :: int where [simp]: "DB_ERROR = 9001"
definition MEM_ERROR :: int where [simp]: "MEM_ERROR = 9002"
definition THREADCREATION_ERROR :: int where [simp]: "THREADCREATION_ERROR = 9003"
definition SOCKET_ERROR :: int where [simp]: "SOCKET_ERROR = 9004"
definition GENERAL_FAILURE :: int where [simp]: "GENERAL_FAILURE = 9005"

definition MAXPEERS_SENT :: int where [simp]: "MAXPEERS_SENT = 50"
definition MAX_RECV_ITER :: int where [simp]: "MAX_RECV_ITER = 200"

definition STANDARD_HEADER :: string where
  "STANDARD_HEADER = ''X-LOLz-Had: much'' @ crlf"

text \<open>\<open>INET6_ADDRSTRLEN\<close> of the system headers.\<close>

definition INET6_ADDRSTRLEN :: nat where [simp]: "INET6_ADDRSTRLEN = 46"

record client =
  cl_thread :: int
  cl_socket :: int
  cl_recv_iter :: int

datatype bt_event = STARTED | STOPPED | COMPLETED | NONE

fun bt_event_int :: "bt_event \<Rightarrow> int" where
  "bt_event_int STARTED = 3"
| "bt_event_int STOPPED = 2"
| "bt_event_int COMPLETED = 1"
| "bt_event_int NONE = 0"

text \<open>The three character arrays are kept with all their bytes.\<close>

record announce =
  ar_info_hash :: string
  ar_peer_id :: string
  ar_ip :: string
  ar_port :: int
  ar_protover :: int
  ar_event :: bt_event
  ar_left :: int
  ar_compact :: bool
  ar_no_peer_id :: bool
  ar_numwant :: int

end
