(* ===== verification/Database.thy ===== *)
theory Database
  imports Sqlite Traccoon
begin

text \<open>
  The database operations of the tracker (\<^verbatim>\<open>src/db.c\<close>): each prepares a statement, binds its
  parameters, steps it and finalizes it, and maps the result code of the step. The database
  calls \<open>q\<close> and the operating system \<open>e\<close> are parameters.
\<close>

section \<open>The code\<close>

text \<open>The check after every bind: finalize the statement and return \<open>DB_FAILED\<close>, or go on
  with \<open>k\<close>.\<close>

definition bind_or_fail ::
    "('db, 'stmt) sqlite \<Rightarrow> int \<times> 'stmt \<Rightarrow> 'db world \<Rightarrow> ('stmt \<Rightarrow> (int \<times> 'db world) option) \<Rightarrow>
     (int \<times> 'db world) option" where
  "bind_or_fail q r w k =
     (case r of (error, st) \<Rightarrow>
        if error \<noteq> SQLITE_OK then Some (DB_FAILED, sqlite3_finalize q st w) else k st)"

definition getTorrentId :: "('db, 'stmt) sqlite \<Rightarrow> cptr \<Rightarrow> 'db world \<Rightarrow> (int \<times> 'db world) option" where
  "getTorrentId q hash w =
     (case sqlite3_prepare_v2 q QUERY_TORRENT_ID w of (error, st, w) \<Rightarrow>
        if error \<noteq> SQLITE_OK then Some (DB_FAILED, w) else do {
          h \<leftarrow> cstr hash;
          bind_or_fail q (sq_bind_text q st 1 h) w (\<lambda>st.
            case sqlite3_step q st w of (error, st, w) \<Rightarrow>
              Some (if error = SQLITE_DONE then DB_NOSUCHHASH
                    else if error = SQLITE_BUSY then DB_FAILED
                    else if error = SQLITE_ERROR then DB_FAILED
                    else if error = SQLITE_ROW then sq_column_int q st 0
                    else error,
                    sqlite3_finalize q st w)) })"

definition queryTorrentParam ::
    "('db, 'stmt) sqlite \<Rightarrow> sql \<Rightarrow> int \<Rightarrow> 'db world \<Rightarrow> (int \<times> 'db world) option" where
  "queryTorrentParam q query torrent w =
     (case sqlite3_prepare_v2 q query w of (error, st, w) \<Rightarrow>
        if error \<noteq> SQLITE_OK then Some (DB_FAILED, w) else
          bind_or_fail q (sq_bind_int q st 1 torrent) w (\<lambda>st.
            case sqlite3_step q st w of (error, st, w) \<Rightarrow>
              Some (if error = SQLITE_DONE then DB_FAILED
                    else if error = SQLITE_BUSY then DB_FAILED
                    else if error = SQLITE_ERROR then DB_FAILED
                    else if error = SQLITE_ROW then sq_column_int q st 0
                    else error,
                    sqlite3_finalize q st w)))"

text \<open>The result of a statement that returns no rows.\<close>

definition done_or_failed :: "int \<Rightarrow> int" where
  "done_or_failed error =
     (if error = SQLITE_DONE then 0
      else if error = SQLITE_BUSY then DB_FAILED
      else if error = SQLITE_ERROR then DB_FAILED
      else error)"

definition finish_step :: "('db, 'stmt) sqlite \<Rightarrow> 'stmt \<Rightarrow> 'db world \<Rightarrow> (int \<times> 'db world) option" where
  "finish_step q st w =
     (case sqlite3_step q st w of (error, st, w) \<Rightarrow>
        Some (done_or_failed error, sqlite3_finalize q st w))"

text \<open>\<open>time.tv_sec\<close> is a \<open>long\<close>, passed as an \<open>int\<close>.\<close>

definition addPeer ::
    "os \<Rightarrow> ('db, 'stmt) sqlite \<Rightarrow> announce \<Rightarrow> int \<Rightarrow> 'db world \<Rightarrow> (int \<times> 'db world) option" where
  "addPeer e q ar torrent w =
     (case gettimeofday e w of
        (None, w) \<Rightarrow> Some (E_GENERIC, w)
      | (Some tv_sec, w) \<Rightarrow>
        (case sqlite3_prepare_v2 q ADD_TORRENT_PEER w of (error, st, w) \<Rightarrow>
          if error \<noteq> SQLITE_OK then Some (DB_FAILED, w) else
          bind_or_fail q (sq_bind_int q st 1 torrent) w (\<lambda>st. do {
          pid \<leftarrow> cstr (ar_peer_id ar);
          bind_or_fail q (sq_bind_text q st 2 pid) w (\<lambda>st. do {
          ip \<leftarrow> cstr (ar_ip ar);
          bind_or_fail q (sq_bind_text q st 3 ip) w (\<lambda>st.
          bind_or_fail q (sq_bind_int q st 4 (ar_port ar)) w (\<lambda>st.
          bind_or_fail q (sq_bind_int q st 5 (to_int tv_sec)) w (\<lambda>st.
          bind_or_fail q (sq_bind_int q st 6 (ar_protover ar)) w (\<lambda>st.
          finish_step q st w)))) }) })))"

definition prunePeers ::
    "os \<Rightarrow> ('db, 'stmt) sqlite \<Rightarrow> int \<Rightarrow> 'db world \<Rightarrow> (int \<times> 'db world) option" where
  "prunePeers e q expireInterval w =
     (case gettimeofday e w of
        (None, w) \<Rightarrow> Some (E_GENERIC, w)
      | (Some tv_sec, w) \<Rightarrow>
        (case sqlite3_prepare_v2 q QUERY_PRUNE_PEERS w of (error, st, w) \<Rightarrow>
          if error \<noteq> SQLITE_OK then Some (DB_FAILED, w) else
          bind_or_fail q (sq_bind_int q st 1 (to_int (tv_sec - expireInterval))) w (\<lambda>st.
          finish_step q st w)))"

text \<open>The first part of \<open>updatePeer\<close>, up to the end of the lookup: either the value it returns
  early, or the code of the step and the row found.\<close>

definition queryPeer ::
    "('db, 'stmt) sqlite \<Rightarrow> int \<Rightarrow> announce \<Rightarrow> 'db world \<Rightarrow>
     ((int \<times> 'db world) + (int \<times> int \<times> 'db world)) option" where
  "queryPeer q torrentid ar w =
     (case sqlite3_prepare_v2 q QUERY_PEER_BY_ID w of (error, st, w) \<Rightarrow>
        if error \<noteq> SQLITE_OK then Some (Inl (DB_FAILED, w)) else
        (case sq_bind_int q st 1 torrentid of (error, st) \<Rightarrow>
        if error \<noteq> SQLITE_OK then Some (Inl (DB_FAILED, sqlite3_finalize q st w)) else do {
        pid \<leftarrow> cstr (ar_peer_id ar);
        (case sq_bind_text q st 2 pid of (error, st) \<Rightarrow>
        if error \<noteq> SQLITE_OK then Some (Inl (DB_FAILED, sqlite3_finalize q st w)) else
        (case sqlite3_step q st w of (error, st, w) \<Rightarrow>
           let peer_row = (if error = SQLITE_ROW then sq_column_int q st 0 else 0)
           in Some (Inr (error, peer_row, sqlite3_finalize q st w)))) }))"

text \<open>The last part of \<open>updatePeer\<close>: the completion count of the torrent.\<close>

definition increaseCompletion ::
    "('db, 'stmt) sqlite \<Rightarrow> int \<Rightarrow> 'db world \<Rightarrow> (int \<times> 'db world) option" where
  "increaseCompletion q torrentid w =
     (case sqlite3_prepare_v2 q INCREASE_COMPLETION_COUNT w of (error, st, w) \<Rightarrow>
        if error \<noteq> SQLITE_OK then Some (DB_FAILED, w) else
        bind_or_fail q (sq_bind_int q st 1 torrentid) w (\<lambda>st. finish_step q st w))"

text \<open>The middle part of \<open>updatePeer\<close>, for the row found.\<close>

definition modifyPeer ::
    "os \<Rightarrow> ('db, 'stmt) sqlite \<Rightarrow> int \<Rightarrow> announce \<Rightarrow> int \<Rightarrow> 'db world \<Rightarrow> (int \<times> 'db world) option" where
  "modifyPeer e q torrentid ar peer_row w =
     (case gettimeofday e w of
        (None, w) \<Rightarrow> Some (E_GENERIC, w)
      | (Some tv_sec, w) \<Rightarrow>
        (case sqlite3_prepare_v2 q UPDATE_PEER_DATA w of (error, st, w) \<Rightarrow>
          if error \<noteq> SQLITE_OK then Some (DB_FAILED, w) else do {
          (error, w) \<leftarrow>
            bind_or_fail q (sq_bind_int q st 1 (ar_left ar)) w (\<lambda>st.
            bind_or_fail q (sq_bind_int q st 2 (bt_event_int (ar_event ar))) w (\<lambda>st.
            bind_or_fail q (sq_bind_int q st 3 (to_int tv_sec)) w (\<lambda>st.
            bind_or_fail q (sq_bind_int q st 4 peer_row) w (\<lambda>st.
            finish_step q st w))));
          if error \<noteq> 0 \<or> ar_event ar \<noteq> COMPLETED then Some (error, w)
          else increaseCompletion q torrentid w }))"

text \<open>The recursion of the source has no bound of its own: a value of \<^term>\<open>None\<close> also stands
  for a call that never returns.\<close>

partial_function (option) updatePeer ::
    "os \<Rightarrow> ('db, 'stmt) sqlite \<Rightarrow> int \<Rightarrow> announce \<Rightarrow> 'db world \<Rightarrow> (int \<times> 'db world) option" where
  "updatePeer e q torrentid ar w = do {
     r \<leftarrow> queryPeer q torrentid ar w;
     (case r of
        Inl res \<Rightarrow> Some res
      | Inr (error, peer_row, w) \<Rightarrow>
          if error = SQLITE_DONE then do {
            (error, w) \<leftarrow> addPeer e q ar torrentid w;
            if error = 0 then updatePeer e q torrentid ar w
            else Some (DB_FAILED, w) }
          else if error \<noteq> SQLITE_ROW then Some (DB_FAILED, w)
          else modifyPeer e q torrentid ar peer_row w) }"

declare updatePeer.simps [code]

end
