(* ===== verification/Track.thy ===== *)
theory Track
  imports Neth Database
begin

text \<open>
  The answers of the tracker (\<^verbatim>\<open>src/track.c\<close>): \<open>track\<close> answers an announce with a list of
  peers and records the announcing peer, \<open>scrape\<close> answers with the counts of a torrent.
\<close>

section \<open>The library calls\<close>

text \<open>\<open>htons\<close> of an \<open>int\<close> cut to 16 bits, as the two bytes it has in memory.\<close>

definition be16 :: "int \<Rightarrow> string" where
  "be16 port = [char_of (nat (port mod 65536) div 256), char_of (nat (port mod 65536) mod 256)]"

section \<open>The code: announce\<close>

text \<open>The local buffers of \<open>track\<close>: the scratch buffer and the compact lists under
  construction.\<close>

record peer_bufs =
  pb_buf :: string
  pb_buf4 :: string
  pb_pos4 :: nat
  pb_buf6 :: string
  pb_pos6 :: nat

text \<open>The case \<open>SQLITE_ROW\<close> of the loop, for the columns of the row.\<close>

definition push_peer ::
    "os \<Rightarrow> int \<Rightarrow> announce \<Rightarrow> string \<Rightarrow> string \<Rightarrow> int \<Rightarrow> int \<Rightarrow> peer_bufs \<Rightarrow> 'db world \<Rightarrow>
     (peer_bufs \<times> 'db world) option" where
  "push_peer e socket ar ip peerid port proto s w = do {
     same_ip \<leftarrow> strcmp0 (ar_ip ar) (lit ip);
     self \<leftarrow> (if same_ip then strcmp0 (ar_peer_id ar) (lit peerid) else Some False);
     if self then Some (s, w)
     else if \<not> ar_compact ar then do {
       ip \<leftarrow> cstr (lit ip);
       text \<leftarrow> (if ar_no_peer_id ar
          then Some (''d2:ip'' @ dec (to_int (int (length ip))) @ '':'' @ ip @ ''4:porti'' @ dec port @ ''ee'')
          else do {
            peerid \<leftarrow> cstr (lit peerid);
            Some (''d2:ip'' @ dec (to_int (int (length ip))) @ '':'' @ ip @ ''4:porti'' @ dec port @
              ''e7:peer id'' @ dec (to_int (int (length peerid))) @ '':'' @ peerid @ ''e'') });
       (_, buf) \<leftarrow> snprintf (pb_buf s) 1023 text;
       (_, w) \<leftarrow> sendString e socket buf w;
       Some (s\<lparr>pb_buf := buf\<rparr>, w) }
     else if proto = 4 then
       (case os_pton4 e ip of
          None \<Rightarrow> Some (s, w)
        | Some addr \<Rightarrow> do {
            buf4 \<leftarrow> mem_put (pb_buf4 s) (pb_pos4 s) addr;
            buf4 \<leftarrow> mem_put buf4 (pb_pos4 s + 4) (be16 port);
            Some (s\<lparr>pb_buf4 := buf4, pb_pos4 := pb_pos4 s + 4 + 2\<rparr>, w) })
     else
       (case os_pton6 e ip of
          None \<Rightarrow> Some (s, w)
        | Some addr \<Rightarrow> do {
            buf6 \<leftarrow> mem_put (pb_buf6 s) (pb_pos6 s) addr;
            buf6 \<leftarrow> mem_put buf6 (pb_pos6 s + 16) (be16 port);
            Some (s\<lparr>pb_buf6 := buf6, pb_pos6 := pb_pos6 s + 16 + 2\<rparr>, w) }) }"

text \<open>The loop over the rows; the argument of type \<^typ>\<open>nat\<close> is \<open>ar->numwant - i\<close>.\<close>

fun push_peers ::
    "os \<Rightarrow> ('db, 'stmt) sqlite \<Rightarrow> int \<Rightarrow> announce \<Rightarrow> nat \<Rightarrow> 'stmt \<Rightarrow> peer_bufs \<Rightarrow> 'db world \<Rightarrow>
     ('stmt \<times> peer_bufs \<times> 'db world) option" where
  "push_peers e q socket ar 0 st s w = Some (st, s, w)"
| "push_peers e q socket ar (Suc n) st s w =
     (case sqlite3_step q st w of (error, st, w) \<Rightarrow>
        if error = SQLITE_ROW then do {
          (s, w) \<leftarrow> push_peer e socket ar (sq_column_text q st 1) (sq_column_text q st 0)
                      (sq_column_int q st 2) (sq_column_int q st 3) s w;
          push_peers e q socket ar n st s w }
        else Some (st, s, w))"

text \<open>The compact lists at the end of the answer.\<close>

definition send_compact :: "os \<Rightarrow> int \<Rightarrow> peer_bufs \<Rightarrow> 'db world \<Rightarrow> (peer_bufs \<times> 'db world) option" where
  "send_compact e socket s w = do {
     (c, buf) \<leftarrow> snprintf (pb_buf s) 1023 (dec (int (pb_pos4 s)) @ '':'');
     bytes \<leftarrow> mem_get (pb_buf4 s) (pb_pos4 s);
     buf \<leftarrow> mem_put buf (nat c) bytes;
     (_, w) \<leftarrow> reallySend e socket buf (nat c + pb_pos4 s) w;
     if pb_pos6 s > 0 then do {
       (c, buf) \<leftarrow> snprintf buf 1023 (''10:peers_ipv6'' @ dec (int (pb_pos6 s)) @ '':'');
       bytes \<leftarrow> mem_get (pb_buf6 s) (pb_pos6 s);
       buf \<leftarrow> mem_put buf (nat c) bytes;
       (_, w) \<leftarrow> reallySend e socket buf (nat c + pb_pos6 s) w;
       Some (s\<lparr>pb_buf := buf\<rparr>, w) }
     else Some (s\<lparr>pb_buf := buf\<rparr>, w) }"

text \<open>From the statement on: the peer list for \<open>torrentid\<close>.\<close>

definition answer_peers ::
    "os \<Rightarrow> ('db, 'stmt) sqlite \<Rightarrow> int \<Rightarrow> announce \<Rightarrow> int \<Rightarrow> int \<Rightarrow> 'db world \<Rightarrow> 'db world option" where
  "answer_peers e q socket ar interval torrentid w =
     (case sqlite3_prepare_v2 q QUERY_TORRENT_PEERS w of (error, st, w) \<Rightarrow>
      if error \<noteq> SQLITE_OK then do {
        (_, w) \<leftarrow> sendString e socket (lit ''d14:failure reason12:Server errore'') w;
        Some w }
      else
     (case sq_bind_int q st 1 torrentid of (error, st) \<Rightarrow>
      if error \<noteq> SQLITE_OK then do {
        (_, w) \<leftarrow> sendString e socket (lit ''d14:failure reason12:Server errore'') (sqlite3_finalize q st w);
        Some w }
      else do {
        (_, buf) \<leftarrow> snprintf (uninit (os_stack e) 1024) 1023
            (''d8:intervali'' @ dec interval @ ''e5:peers'' @ (if ar_compact ar then [] else ''l''));
        let respClose = (if ar_compact ar then ''e'' else ''ee'');
        (_, w) \<leftarrow> sendString e socket buf w;
        (st, s, w) \<leftarrow> push_peers e q socket ar (nat (ar_numwant ar)) st
            \<lparr>pb_buf = buf, pb_buf4 = uninit (os_stack e) 1024, pb_pos4 = 0,
             pb_buf6 = uninit (os_stack e) 1024, pb_pos6 = 0\<rparr> w;
        let w = sqlite3_finalize q st w;
        (s, w) \<leftarrow> (if ar_compact ar then send_compact e socket s w else Some (s, w));
        (_, w) \<leftarrow> sendString e socket (lit respClose) w;
        (_, w) \<leftarrow> updatePeer e q torrentid ar w;
        Some w }))"

definition track ::
    "os \<Rightarrow> ('db, 'stmt) sqlite \<Rightarrow> int \<Rightarrow> announce \<Rightarrow> int \<Rightarrow> 'db world \<Rightarrow> 'db world option" where
  "track e q socket ar interval w = do {
     ip \<leftarrow> strtolower (ar_ip ar);
     (hashlen, info_hash) \<leftarrow> destructiveURLDecode (ar_info_hash ar);
     (_, info_hash) \<leftarrow> hashEncodeHex (os_stack e) info_hash (int MAX_URLENC_HASH_LEN);
     let ar = ar\<lparr>ar_ip := ip, ar_info_hash := info_hash\<rparr>;
     (_, w) \<leftarrow> sendHttpHeaders e socket (lit ''200 OK'') (lit STANDARD_HEADER) w;
     (torrentid, w) \<leftarrow> getTorrentId q (ar_info_hash ar) w;
     if torrentid = DB_NOSUCHHASH then do {
       (_, w) \<leftarrow> sendString e socket (lit ''d14:failure reason19:Hash not recognizede'') w;
       Some w }
     else if torrentid = DB_FAILED then do {
       (_, w) \<leftarrow> sendString e socket (lit ''d14:failure reason20:Database error (TID)e'') w;
       Some w }
     else answer_peers e q socket ar interval torrentid w }"

section \<open>The code: scrape\<close>

text \<open>C leaves the order in which the three counts are queried open; here it is that of the text.
  They only read the tables.\<close>

definition scrape ::
    "os \<Rightarrow> ('db, 'stmt) sqlite \<Rightarrow> int \<Rightarrow> cptr option \<Rightarrow> 'db world \<Rightarrow> 'db world option" where
  "scrape e q socket hash w =
     (case hash of
        Some hash \<Rightarrow> do {
          (_, w) \<leftarrow> sendHttpHeaders e socket (lit ''200 OK'') (lit STANDARD_HEADER) w;
          (torrent, w) \<leftarrow> getTorrentId q hash w;
          if torrent = DB_NOSUCHHASH then do {
            (_, w) \<leftarrow> sendString e socket (lit ''d14:failure reason19:Hash not recognizede'') w;
            Some w }
          else if torrent = DB_FAILED then do {
            (_, w) \<leftarrow> sendString e socket (lit ''d14:failure reason20:Database error (TID)e'') w;
            Some w }
          else do {
            h \<leftarrow> cstr hash;
            (seeds, w) \<leftarrow> queryTorrentParam q GET_SEED_COUNT torrent w;
            (completed, w) \<leftarrow> queryTorrentParam q GET_COMPLETION_COUNT torrent w;
            (leechers, w) \<leftarrow> queryTorrentParam q GET_PEERS_COUNT torrent w;
            (_, buf) \<leftarrow> snprintf (uninit (os_stack e) 512) 511
                (''d5:files'' @ dec (to_int (int (length h))) @ '':'' @ h @ ''d8:completei'' @ dec seeds @
                 ''e10:downloadedi'' @ dec completed @ ''e10:incompletei'' @ dec leechers @ ''eee'');
            (_, w) \<leftarrow> sendString e socket buf w;
            Some w } }
      | None \<Rightarrow> do {
          (_, w) \<leftarrow> sendHttpHeaders e socket (lit ''501 Not Implemented'') (lit STANDARD_HEADER) w;
          Some w })"

end
