(* ===== verification/Database_Spec.thy ===== *)
theory Database_Spec
  imports Database
begin

text \<open>
  What the operations of \<^verbatim>\<open>src/db.c\<close> do to the tables, under the documented behaviour of
  SQLite (\<open>sqlite_api\<close>): the effect of each on every result, the statements they leave open
  (none), their termination, and the invariant of the peers table.
\<close>


lemma bind_or_failE:
  assumes "bind_or_fail q r w k = Some (x, w')"
  obtains (fail) error st where "r = (error, st)" "error \<noteq> 0" "x = DB_FAILED" "w' = sqlite3_finalize q st w"
  | (ok) st where "r = (SQLITE_OK, st)" "k st = Some (x, w')"
  using assms by (auto simp: bind_or_fail_def split: prod.splits if_splits)

context sqlite_handles
begin

abbreviation opened_w :: "'db world \<Rightarrow> nat" where
  "opened_w w \<equiv> opened (wdb w)"

lemma prepare_opened_w:
  "sqlite3_prepare_v2 q s w = (rc, st, w') \<Longrightarrow>
   opened_w w' = (if rc = 0 then Suc (opened_w w) else opened_w w)"
  using prepare_opened [of "wdb w" s rc st] by (auto simp: sqlite3_prepare_v2_def split: prod.splits)

lemma step_opened_w: "sqlite3_step q st w = (rc, st', w') \<Longrightarrow> opened_w w' = opened_w w"
  by (auto simp: sqlite3_step_def split: prod.splits dest: step_opened)

lemma finalize_opened_w [simp]: "opened_w (sqlite3_finalize q st w) = opened_w w - 1"
  by (simp add: sqlite3_finalize_def finalize_opened)

lemma bind_or_fail_opened:
  assumes "bind_or_fail q r w k = Some (x, w')"
    and "\<And>st. k st = Some (x, w') \<Longrightarrow> opened_w w' = opened_w w - 1"
  shows "opened_w w' = opened_w w - 1"
  using assms by (auto simp: bind_or_fail_def split: prod.splits if_splits)

lemma finish_step_opened: "finish_step q st w = Some (x, w') \<Longrightarrow> opened_w w' = opened_w w - 1"
  by (auto simp: finish_step_def split: prod.splits dest: step_opened_w)

lemma gettimeofday_opened [simp]: "gettimeofday e w = (t, w') \<Longrightarrow> opened_w w' = opened_w w"
  by (auto simp: gettimeofday_def)

lemma getTorrentId_opened: "getTorrentId q hash w = Some (r, w') \<Longrightarrow> opened_w w' = opened_w w"
  by (auto simp: getTorrentId_def elim!: bind_SomeE bind_or_failE
      dest!: prepare_opened_w step_opened_w split: prod.split_asm if_split_asm)

lemma queryTorrentParam_opened: "queryTorrentParam q s t w = Some (r, w') \<Longrightarrow> opened_w w' = opened_w w"
  by (auto simp: queryTorrentParam_def elim!: bind_or_failE
      dest!: prepare_opened_w step_opened_w split: prod.split_asm if_split_asm)

lemma prunePeers_opened: "prunePeers e q n w = Some (r, w') \<Longrightarrow> opened_w w' = opened_w w"
  by (auto simp: prunePeers_def gettimeofday_def elim!: bind_or_failE
      dest!: prepare_opened_w finish_step_opened split: prod.split_asm if_split_asm option.split_asm)

lemma addPeer_opened: "addPeer e q ar t w = Some (r, w') \<Longrightarrow> opened_w w' = opened_w w"
  by (auto simp: addPeer_def gettimeofday_def elim!: bind_SomeE bind_or_failE
      dest!: prepare_opened_w finish_step_opened split: prod.split_asm if_split_asm option.split_asm)

lemma queryPeer_opened:
  "queryPeer q t ar w = Some x \<Longrightarrow>
   (case x of Inl (r, w') \<Rightarrow> opened_w w' = opened_w w | Inr (r, p, w') \<Rightarrow> opened_w w' = opened_w w)"
  by (auto simp: queryPeer_def Let_def elim!: bind_SomeE
      dest!: prepare_opened_w step_opened_w split: prod.split_asm if_split_asm)

lemma increaseCompletion_opened: "increaseCompletion q t w = Some (r, w') \<Longrightarrow> opened_w w' = opened_w w"
  by (auto simp: increaseCompletion_def elim!: bind_or_failE
      dest!: prepare_opened_w finish_step_opened split: prod.split_asm if_split_asm)

lemma modifyPeer_opened: "modifyPeer e q t ar p w = Some (r, w') \<Longrightarrow> opened_w w' = opened_w w"
  by (auto simp: modifyPeer_def gettimeofday_def elim!: bind_SomeE bind_or_failE
      dest!: prepare_opened_w finish_step_opened increaseCompletion_opened
      split: prod.split_asm if_split_asm option.split_asm)


lemma updatePeer_opened:
  assumes "updatePeer e q t ar w = Some (r, w')"
  shows "opened_w w' = opened_w w"
proof -
  have "q = q \<longrightarrow> opened_w (snd (r, w')) = opened_w w"
  proof (rule updatePeer.raw_induct [where P = "\<lambda>e q' t ar w res. q' = q \<longrightarrow> opened_w (snd res) = opened_w w",
        OF _ assms])
    fix upd and e q' t ar w y
    assume IH: "\<And>e q' t ar w y. upd e q' t ar w = Some y \<Longrightarrow> q' = q \<longrightarrow> opened_w (snd y) = opened_w w"
      and eq: "do {
        r \<leftarrow> queryPeer q' t ar w;
        case r of Inl res \<Rightarrow> Some res
        | Inr (error, peer_row, w) \<Rightarrow>
            if error = SQLITE_DONE then do {
              (error, w) \<leftarrow> addPeer e q' ar t w;
              if error = 0 then upd e q' t ar w else Some (DB_FAILED, w) }
            else if error \<noteq> SQLITE_ROW then Some (DB_FAILED, w)
            else modifyPeer e q' t ar peer_row w } = Some y"
    have "opened_w (snd y) = opened_w w" if "q' = q"
      using eq that
      by (cases y) (auto elim!: bind_SomeE dest!: queryPeer_opened addPeer_opened modifyPeer_opened IH
          split: sum.split_asm prod.split_asm if_split_asm)
    then show "q' = q \<longrightarrow> opened_w (snd y) = opened_w w" by blast
  qed
  then show ?thesis by simp
qed

end

section \<open>The tables\<close>

text \<open>\<open>odd_code q r\<close>: a step can end with the code \<open>r\<close>, which the source's switches do not list.\<close>

definition odd_code :: "('db, 'stmt) sqlite \<Rightarrow> int \<Rightarrow> bool" where
  "odd_code q r \<longleftrightarrow> (\<exists>st db st' db'. sq_step q st db = (r, st', db') \<and>
     r \<notin> {SQLITE_OK, SQLITE_ERROR, SQLITE_BUSY, SQLITE_ROW, SQLITE_DONE})"

definition matches :: "int \<Rightarrow> string \<Rightarrow> peer_row \<Rightarrow> bool" where
  "matches tid pid p \<longleftrightarrow> p_torrent p = tid \<and> p_peer_id p = pid"

definition add_peer_row :: "int \<Rightarrow> string \<Rightarrow> string \<Rightarrow> int \<Rightarrow> int \<Rightarrow> int \<Rightarrow> tables \<Rightarrow> tables" where
  "add_peer_row tid pid ip port proto now T =
     T\<lparr>peers := peers T @ [\<lparr>p_id = peers_seq T, p_torrent = tid, p_peer_id = pid, p_ip = ip,
         p_port = port, p_protover = proto, p_left = 0, p_status = None, p_expires = now\<rparr>],
       peers_seq := peers_seq T + 1\<rparr>"

definition touch_peer :: "int \<Rightarrow> int \<Rightarrow> int \<Rightarrow> int \<Rightarrow> tables \<Rightarrow> tables" where
  "touch_peer row l st now T =
     T\<lparr>peers := map (\<lambda>p. if p_id p = row then p\<lparr>p_left := l, p_status := Some st, p_expires := now\<rparr>
                      else p) (peers T)\<rparr>"

definition bump_torrent :: "int \<Rightarrow> tables \<Rightarrow> tables" where
  "bump_torrent tid T =
     T\<lparr>torrents := map (\<lambda>t. if t_id t = tid then t\<lparr>t_downloaded := t_downloaded t + 1\<rparr> else t) (torrents T)\<rparr>"

definition prune_before :: "int \<Rightarrow> tables \<Rightarrow> tables" where
  "prune_before t T = T\<lparr>peers := filter (\<lambda>p. t \<le> p_expires p) (peers T)\<rparr>"

definition complete_if :: "bt_event \<Rightarrow> int \<Rightarrow> tables \<Rightarrow> tables" where
  "complete_if ev tid T = (if ev = COMPLETED then bump_torrent tid T else T)"

text \<open>What the three scrape queries count.\<close>

fun torrent_param :: "sql \<Rightarrow> int \<Rightarrow> tables \<Rightarrow> int list" where
  "torrent_param GET_COMPLETION_COUNT tid T =
     map t_downloaded (filter (\<lambda>t. t_id t = tid) (torrents T))"
| "torrent_param GET_SEED_COUNT tid T =
     [int (length (filter (\<lambda>p. p_torrent p = tid \<and> p_left p = 0) (peers T)))]"
| "torrent_param GET_PEERS_COUNT tid T =
     [int (length (filter (\<lambda>p. p_torrent p = tid \<and> p_left p \<noteq> 0) (peers T)))]"
| "torrent_param _ tid T = []"

text \<open>The three stages of an announce in the database: a row for the peer, its new state, the
  completion count of the torrent.\<close>

definition register_peer :: "int \<Rightarrow> string \<Rightarrow> string \<Rightarrow> announce \<Rightarrow> int \<Rightarrow> tables \<Rightarrow> tables" where
  "register_peer tid pid ip ar now T =
     (if filter (matches tid pid) (peers T) = []
      then add_peer_row tid pid ip (ar_port ar) (ar_protover ar) now T else T)"

definition refresh_peer :: "int \<Rightarrow> string \<Rightarrow> announce \<Rightarrow> int \<Rightarrow> tables \<Rightarrow> tables" where
  "refresh_peer tid pid ar now T =
     touch_peer (to_int (p_id (hd (filter (matches tid pid) (peers T))))) (ar_left ar)
       (bt_event_int (ar_event ar)) now T"

section \<open>Totality\<close>

lemma addPeer_total:
  "cstr (ar_peer_id ar) = Some pid \<Longrightarrow> cstr (ar_ip ar) = Some ip \<Longrightarrow> \<exists>r w'. addPeer e q ar tid w = Some (r, w')"
  by (auto simp: addPeer_def bind_or_fail_def finish_step_def split: prod.splits option.splits)

lemma queryPeer_total:
  "cstr (ar_peer_id ar) = Some pid \<Longrightarrow> \<exists>x. queryPeer q tid ar w = Some x"
  by (auto simp: queryPeer_def split: prod.splits)

lemma modifyPeer_total: "\<exists>r w'. modifyPeer e q tid ar row w = Some (r, w')"
  by (auto simp: modifyPeer_def increaseCompletion_def bind_or_fail_def finish_step_def
      split: prod.splits option.splits)

lemma matches_eq: "matches tid pid = (\<lambda>p. p_torrent p = tid \<and> p_peer_id p = pid)"
  by (simp add: fun_eq_iff matches_def)

context sqlite_api
begin

abbreviation tabs_w :: "'db world \<Rightarrow> tables" where
  "tabs_w w \<equiv> tabs (wdb w)"

lemma prepare_w:
  assumes "sqlite3_prepare_v2 q s w = (rc, st, w')"
  shows "tabs_w w' = tabs_w w" "events w' = events w" "ticks w' = ticks w"
    "rc = 0 \<Longrightarrow> view st = fresh_stmt s"
  using assms prepare_tabs [of "wdb w" s rc st] prepare_view [of "wdb w" s st]
  by (auto simp: sqlite3_prepare_v2_def split: prod.splits)

lemma prepare_w':
  "sqlite3_prepare_v2 q s w = (rc, st, w') \<Longrightarrow>
   tabs_w w' = tabs_w w \<and> events w' = events w \<and> ticks w' = ticks w \<and> (rc = 0 \<longrightarrow> view st = fresh_stmt s)"
  using prepare_w by blast

lemma step_w:
  assumes "sqlite3_step q st w = (rc, st', w')" "sv_todo (view st) = None"
  shows "events w' = events w \<and> ticks w' = ticks w \<and> rc \<noteq> 0 \<and>
    (rc \<noteq> 100 \<and> rc \<noteq> 101 \<and> tabs_w w' = tabs_w w \<and> (rc = 1 \<or> rc = 5 \<or> odd_code q rc) \<or>
     (\<exists>order rows. (\<forall>ps. mset (order ps) = mset ps) \<and>
        run_sql order (sv_sql (view st)) (sv_args (view st)) (tabs_w w) = Some (tabs_w w', rows) \<and>
        (rows = [] \<and> rc = 101 \<or> (\<exists>r rs. rows = r # rs \<and> rc = 100 \<and> sv_row (view st') = Some r \<and>
           sv_todo (view st') = Some rs))))"
proof -
  obtain db' where s: "sq_step q st (wdb w) = (rc, st', db')" "w' = w\<lparr>wdb := db'\<rparr>"
    using assms(1) by (auto simp: sqlite3_step_def split: prod.splits)
  from step_not_ok [OF s(1)] have ok: "rc \<noteq> 0" by simp
  show ?thesis
  proof (cases "rc = 100 \<or> rc = 101")
    case True
    with step_first [OF s(1) _ assms(2)] obtain order rows where
      "\<forall>ps. mset (order ps) = mset ps"
      "run_sql order (sv_sql (view st)) (sv_args (view st)) (tabs_w w) = Some (tabs db', rows)"
      "rc = 101 \<longleftrightarrow> rows = []" "sv_row (view st') = (if rows = [] then None else Some (hd rows))"
      "sv_todo (view st') = Some (tl rows)" by auto
    with s(2) ok True show ?thesis by (cases rows) auto
  next
    case False
    with step_fail [OF s(1)] s ok show ?thesis by (auto simp: odd_code_def)
  qed
qed

lemma finalize_w [simp]:
  "tabs_w (sqlite3_finalize q st w) = tabs_w w" "events (sqlite3_finalize q st w) = events w"
  "ticks (sqlite3_finalize q st w) = ticks w"
  by (simp_all add: sqlite3_finalize_def finalize_tabs)

lemma bind_int_ok:
  "sq_bind_int q st i v = (0, st') \<Longrightarrow> view st' = (view st)\<lparr>sv_args := (sv_args (view st))(i := SInt v)\<rparr>"
  using bind_int_view [of st i v st'] by simp

lemma bind_text_ok:
  "sq_bind_text q st i v = (0, st') \<Longrightarrow> view st' = (view st)\<lparr>sv_args := (sv_args (view st))(i := SText v)\<rparr>"
  using bind_text_view [of st i v st'] by simp

lemma fresh_stmt_simps [simp]:
  "sv_todo (fresh_stmt s) = None" "sv_sql (fresh_stmt s) = s" "sv_args (fresh_stmt s) = (\<lambda>_. SNull)"
  by (simp_all add: fresh_stmt_def)


text \<open>A statement whose only effect is on the tables.\<close>

lemma finish_step_spec:
  assumes "finish_step q st w = Some (r, w')" "sv_todo (view st) = None"
    and "\<And>order T T' rows. run_sql order (sv_sql (view st)) (sv_args (view st)) T = Some (T', rows) \<Longrightarrow> rows = []"
  shows "events w' = events w \<and> ticks w' = ticks w \<and>
    (r = 0 \<and> (\<exists>order. Some (tabs_w w', []) = run_sql order (sv_sql (view st)) (sv_args (view st)) (tabs_w w)) \<or>
     r \<noteq> 0 \<and> (r = DB_FAILED \<or> odd_code q r) \<and> tabs_w w' = tabs_w w)"
proof -
  obtain rc st' w1 where s: "sqlite3_step q st w = (rc, st', w1)" by (metis prod_cases3)
  with assms(1) have r: "r = done_or_failed rc" "w' = sqlite3_finalize q st' w1"
    by (auto simp: finish_step_def)
  from step_w [OF s assms(2)] show ?thesis
    unfolding r by (auto simp: done_or_failed_def odd_code_def dest: assms(3)) metis+
qed

lemma addPeer_spec:
  assumes "addPeer e q ar tid w = Some (r, w')" "cstr (ar_peer_id ar) = Some pid" "cstr (ar_ip ar) = Some ip"
  shows "events w' = events w \<and>
    (r = 0 \<and> (\<exists>t. os_time e (ticks w) = Some t \<and> tabs_w w' =
        add_peer_row tid pid ip (ar_port ar) (ar_protover ar) (to_int t) (tabs_w w)) \<or>
     r \<noteq> 0 \<and> tabs_w w' = tabs_w w)"
  using assms
  by (auto simp: addPeer_def gettimeofday_def add_peer_row_def elim!: bind_SomeE bind_or_failE
      dest!: bind_int_ok bind_text_ok finish_step_spec prepare_w' split: prod.split_asm if_split_asm option.split_asm)

lemma prunePeers_spec:
  assumes "prunePeers e q iv w = Some (r, w')"
  shows "events w' = events w \<and>
    (r = 0 \<and> (\<exists>t. os_time e (ticks w) = Some t \<and>
        tabs_w w' = prune_before (to_int (t - iv)) (tabs_w w)) \<or>
     r \<noteq> 0 \<and> tabs_w w' = tabs_w w)"
  using assms
  by (auto simp: prunePeers_def gettimeofday_def prune_before_def not_less elim!: bind_or_failE
      dest!: bind_int_ok finish_step_spec prepare_w' split: prod.split_asm if_split_asm option.split_asm)

lemma increaseCompletion_spec:
  assumes "increaseCompletion q tid w = Some (r, w')"
  shows "events w' = events w \<and>
    (r = 0 \<and> tabs_w w' = bump_torrent tid (tabs_w w) \<or> r \<noteq> 0 \<and> tabs_w w' = tabs_w w)"
  using assms
  by (auto simp: increaseCompletion_def bump_torrent_def elim!: bind_or_failE
      dest!: bind_int_ok finish_step_spec prepare_w' split: prod.split_asm if_split_asm)

lemma modifyPeer_spec:
  assumes "modifyPeer e q tid ar row w = Some (r, w')"
  shows "events w' = events w \<and>
    (tabs_w w' = tabs_w w \<and> r \<noteq> 0 \<or>
     (\<exists>t. os_time e (ticks w) = Some t \<and>
        (let T = touch_peer row (ar_left ar) (bt_event_int (ar_event ar)) (to_int t) (tabs_w w) in
         r = 0 \<and> tabs_w w' = complete_if (ar_event ar) tid T \<or>
         r \<noteq> 0 \<and> ar_event ar = COMPLETED \<and> tabs_w w' = T)))"
  using assms
  by (auto simp: modifyPeer_def gettimeofday_def touch_peer_def complete_if_def Let_def
      elim!: bind_SomeE bind_or_failE
      dest!: bind_int_ok finish_step_spec prepare_w' increaseCompletion_spec
      split: prod.split_asm if_split_asm option.split_asm cong: if_cong)


text \<open>The three queries: the value of the first row, or a failure.\<close>

lemma query_spec:
  assumes "sqlite3_step q st w = (rc, st', w')" "sv_todo (view st) = None"
    and rows: "\<And>order T. run_sql order (sv_sql (view st)) (sv_args (view st)) T = Some (T, rs T)"
  shows "events w' = events w \<and> ticks w' = ticks w \<and> rc \<noteq> 0 \<and> tabs_w w' = tabs_w w \<and>
    (rc = 1 \<or> rc = 5 \<or> odd_code q rc \<and> rc \<noteq> 100 \<and> rc \<noteq> 101 \<or> rc = 101 \<and> rs (tabs_w w) = [] \<or>
     rc = 100 \<and> rs (tabs_w w) \<noteq> [] \<and> sv_row (view st') = Some (hd (rs (tabs_w w))))"
  using step_w [OF assms(1,2)] by (auto simp: rows)


lemma getTorrentId_step:
  assumes "sqlite3_step q st w = (rc, st', w')"
    and "view st = fresh_stmt QUERY_TORRENT_ID\<lparr>sv_args := (\<lambda>_. SNull)(Suc 0 := SText h)\<rparr>"
  shows "events w' = events w \<and> ticks w' = ticks w \<and> rc \<noteq> 0 \<and> tabs_w w' = tabs_w w \<and>
    (let ts = filter (\<lambda>t. t_hash t = h) (torrents (tabs_w w)) in
     rc = 1 \<or> rc = 5 \<or> odd_code q rc \<and> rc \<noteq> 100 \<and> rc \<noteq> 101 \<or> rc = 101 \<and> ts = [] \<or>
     rc = 100 \<and> ts \<noteq> [] \<and> sq_column_int q st' 0 = to_int (t_id (hd ts)))"
  using query_spec [OF assms(1), of "\<lambda>T. map (\<lambda>t. [SInt (t_id t)]) (filter (\<lambda>t. t_hash t = h) (torrents T))"]
    assms(2) column_int [of st' _ 0]
  by (auto simp: hd_map Let_def)

lemma getTorrentId_spec:
  assumes "getTorrentId q hash w = Some (r, w')" "cstr hash = Some h"
  shows "events w' = events w \<and> ticks w' = ticks w \<and> tabs_w w' = tabs_w w \<and>
    (let ts = filter (\<lambda>t. t_hash t = h) (torrents (tabs_w w)) in
     r = DB_FAILED \<or> odd_code q r \<or> ts = [] \<and> r = DB_NOSUCHHASH \<or>
     ts \<noteq> [] \<and> r = to_int (t_id (hd ts)))"
  using assms
  by (auto simp: getTorrentId_def Let_def elim!: bind_SomeE bind_or_failE
      dest!: bind_text_ok prepare_w' getTorrentId_step split: prod.split_asm if_split_asm)

lemma queryTorrentParam_step:
  assumes "sqlite3_step q st w = (rc, st', w')"
    and "view st = fresh_stmt s\<lparr>sv_args := (\<lambda>_. SNull)(Suc 0 := SInt tid)\<rparr>"
    and "s \<in> {GET_COMPLETION_COUNT, GET_SEED_COUNT, GET_PEERS_COUNT}"
  shows "events w' = events w \<and> ticks w' = ticks w \<and> rc \<noteq> 0 \<and> tabs_w w' = tabs_w w \<and>
    (let ns = torrent_param s tid (tabs_w w) in
     rc = 1 \<or> rc = 5 \<or> odd_code q rc \<and> rc \<noteq> 100 \<and> rc \<noteq> 101 \<or> rc = 101 \<and> ns = [] \<or>
     rc = 100 \<and> ns \<noteq> [] \<and> sq_column_int q st' 0 = to_int (hd ns))"
  using query_spec [OF assms(1), of "\<lambda>T. map (\<lambda>n. [SInt n]) (torrent_param s tid T)"]
    assms(2,3) column_int [of st' _ 0]
  by (auto simp: hd_map Let_def comp_def)

lemma queryTorrentParam_spec:
  assumes "queryTorrentParam q s tid w = Some (r, w')"
    and "s \<in> {GET_COMPLETION_COUNT, GET_SEED_COUNT, GET_PEERS_COUNT}"
  shows "events w' = events w \<and> ticks w' = ticks w \<and> tabs_w w' = tabs_w w \<and>
    (let ns = torrent_param s tid (tabs_w w) in
     r = DB_FAILED \<or> odd_code q r \<or> ns \<noteq> [] \<and> r = to_int (hd ns))"
  using assms(1)
  by (auto simp: queryTorrentParam_def Let_def elim!: bind_or_failE
      dest!: bind_int_ok prepare_w' queryTorrentParam_step [OF _ _ assms(2)] split: prod.split_asm if_split_asm)

text \<open>The lookup of \<open>updatePeer\<close>.\<close>

lemma queryPeer_step:
  assumes "sqlite3_step q st w = (rc, st', w')"
    and "view st = fresh_stmt QUERY_PEER_BY_ID\<lparr>sv_args := (\<lambda>_. SNull)(Suc 0 := SInt tid, 2 := SText pid)\<rparr>"
  shows "events w' = events w \<and> ticks w' = ticks w \<and> rc \<noteq> 0 \<and> tabs_w w' = tabs_w w \<and>
    (let ps = filter (matches tid pid) (peers (tabs_w w)) in
     rc = 1 \<or> rc = 5 \<or> odd_code q rc \<and> rc \<noteq> 100 \<and> rc \<noteq> 101 \<or> rc = 101 \<and> ps = [] \<or>
     rc = 100 \<and> ps \<noteq> [] \<and> sq_column_int q st' 0 = to_int (p_id (hd ps)))"
  using query_spec [OF assms(1), of "\<lambda>T. map (\<lambda>p. [SInt (p_id p)]) (filter (\<lambda>p. p_torrent p = tid \<and> p_peer_id p = pid) (peers T))"]
    assms(2) column_int [of st' _ 0]
  unfolding matches_eq by (auto simp: hd_map Let_def)

lemma queryPeer_spec:
  assumes "queryPeer q tid ar w = Some x" "cstr (ar_peer_id ar) = Some pid"
  shows "(\<exists>w'. x = Inl (DB_FAILED, w') \<and> events w' = events w \<and> tabs_w w' = tabs_w w) \<or>
    (\<exists>rc row w'. x = Inr (rc, row, w') \<and> events w' = events w \<and> ticks w' = ticks w \<and> tabs_w w' = tabs_w w \<and>
       (let ps = filter (matches tid pid) (peers (tabs_w w)) in
        rc \<noteq> SQLITE_DONE \<and> rc \<noteq> SQLITE_ROW \<or> rc = SQLITE_DONE \<and> ps = [] \<or>
        rc = SQLITE_ROW \<and> ps \<noteq> [] \<and> row = to_int (p_id (hd ps))))"
  using assms
  by (auto simp: queryPeer_def Let_def elim!: bind_SomeE
      dest!: bind_int_ok bind_text_ok prepare_w' queryPeer_step
      split: prod.split_asm if_split_asm)


lemma updatePeer_existing:
  assumes "updatePeer e q tid ar w = Some (r, w')" "cstr (ar_peer_id ar) = Some pid"
    and "filter (matches tid pid) (peers (tabs_w w)) \<noteq> []"
  shows "events w' = events w \<and>
    (r \<noteq> 0 \<and> tabs_w w' = tabs_w w \<or>
     (\<exists>n t. os_time e n = Some t \<and>
       (let T = refresh_peer tid pid ar (to_int t) (tabs_w w) in
        r = 0 \<and> tabs_w w' = complete_if (ar_event ar) tid T \<or>
        r \<noteq> 0 \<and> ar_event ar = COMPLETED \<and> tabs_w w' = T)))"
  using assms
  by (subst (asm) updatePeer.simps)
    (fastforce simp: Let_def refresh_peer_def elim!: bind_SomeE dest!: queryPeer_spec modifyPeer_spec
      split: if_split_asm)

lemma updatePeer_spec:
  assumes "updatePeer e q tid ar w = Some (r, w')"
    and "cstr (ar_peer_id ar) = Some pid" "cstr (ar_ip ar) = Some ip"
  shows "events w' = events w \<and>
    (r \<noteq> 0 \<and> tabs_w w' = tabs_w w \<or>
     (\<exists>n1 t1 T1. os_time e n1 = Some t1 \<and> T1 = register_peer tid pid ip ar (to_int t1) (tabs_w w) \<and>
       (r \<noteq> 0 \<and> tabs_w w' = T1 \<or>
        (\<exists>n2 t2. os_time e n2 = Some t2 \<and>
          (let T2 = refresh_peer tid pid ar (to_int t2) T1 in
           r = 0 \<and> tabs_w w' = complete_if (ar_event ar) tid T2 \<or>
           r \<noteq> 0 \<and> ar_event ar = COMPLETED \<and> tabs_w w' = T2)))))"
proof (cases "filter (matches tid pid) (peers (tabs_w w)) = []")
  case False
  then have "register_peer tid pid ip ar t (tabs_w w) = tabs_w w" for t
    by (simp add: register_peer_def)
  with updatePeer_existing [OF assms(1,2) False] show ?thesis by (auto simp: Let_def)
next
  case True
  show ?thesis
  proof -
    from assms(1) obtain x where x: "queryPeer q tid ar w = Some x"
      by (subst (asm) updatePeer.simps) (auto elim: bind_SomeE)
    show ?thesis
    proof (cases "\<exists>row w1. x = Inr (SQLITE_DONE, row, w1)")
      case False
      with assms x queryPeer_spec [OF x assms(2)] True show ?thesis
        by (subst (asm) updatePeer.simps) (auto simp: Let_def)
    next
      case True': True
      then obtain row w1 where x1: "x = Inr (SQLITE_DONE, row, w1)" by blast
      with assms(1) x obtain r2 w2 where add: "addPeer e q ar tid w1 = Some (r2, w2)"
        and rest: "(if r2 = 0 then updatePeer e q tid ar w2 else Some (DB_FAILED, w2)) = Some (r, w')"
        by (subst (asm) updatePeer.simps) (auto elim!: bind_SomeE)
      from queryPeer_spec [OF x assms(2)] x1 have w1: "events w1 = events w" "tabs_w w1 = tabs_w w" by auto
      show ?thesis
      proof (cases "r2 = 0")
        case False
        with rest addPeer_spec [OF add assms(2,3)] w1 show ?thesis by auto
      next
        case r2: True
        with addPeer_spec [OF add assms(2,3)] w1 obtain t where
          t: "os_time e (ticks w1) = Some t" "events w2 = events w"
          and T2: "tabs_w w2 = register_peer tid pid ip ar (to_int t) (tabs_w w)"
          using True by (auto simp: register_peer_def)
        have "filter (matches tid pid) (peers (tabs_w w2)) \<noteq> []"
          using True by (simp add: T2 register_peer_def add_peer_row_def matches_def)
        from updatePeer_existing [OF _ assms(2) this] rest r2 t T2 show ?thesis
          by (fastforce simp: Let_def)
      qed
    qed
  qed
qed

end

section \<open>The invariant of the peers table\<close>

text \<open>What SQLite's AUTOINCREMENT gives (positive ids below the counter, pairwise different) and
  what the tracker keeps on top of it: one row for a peer in a swarm.\<close>

definition peers_ok :: "tables \<Rightarrow> bool" where
  "peers_ok T \<longleftrightarrow>
     distinct (map p_id (peers T)) \<and> (\<forall>p\<in>set (peers T). 0 < p_id p \<and> p_id p < peers_seq T) \<and>
     distinct (map (\<lambda>p. (p_torrent p, p_peer_id p)) (peers T)) \<and> 0 < peers_seq T"

lemma peers_ok_register: "peers_ok T \<Longrightarrow> peers_ok (register_peer tid pid ip ar now T)"
  by (force simp: peers_ok_def register_peer_def add_peer_row_def matches_def filter_empty_conv)

lemma map_if_key: "(\<And>p. f (g p) = f p) \<Longrightarrow> map f (map (\<lambda>p. if P p then g p else p) ps) = map f ps"
  by (simp cong: if_cong)

lemma peers_ok_refresh: "peers_ok T \<Longrightarrow> peers_ok (refresh_peer tid pid ar now T)"
  unfolding peers_ok_def refresh_peer_def touch_peer_def
  by (simp add: comp_def if_distrib [of p_id] if_distrib [of p_torrent] if_distrib [of p_peer_id]
      cong: if_cong) auto

lemma peers_ok_complete [simp]: "peers_ok (complete_if ev tid T) = peers_ok T"
  by (simp add: peers_ok_def complete_if_def bump_torrent_def)

lemma peers_ok_prune: "peers_ok T \<Longrightarrow> peers_ok (prune_before t T)"
  by (auto simp: peers_ok_def prune_before_def distinct_map_filter)

section \<open>Termination of \<open>updatePeer\<close>\<close>

context sqlite_api
begin

lemma updatePeer_known:
  assumes "cstr (ar_peer_id ar) = Some pid" "filter (matches tid pid) (peers (tabs_w w)) \<noteq> []"
  shows "\<exists>r w'. updatePeer e q tid ar w = Some (r, w')"
proof -
  obtain x where x: "queryPeer q tid ar w = Some x"
    using queryPeer_total [OF assms(1)] by blast
  from queryPeer_spec [OF x assms(1)] assms(2) show ?thesis
    using modifyPeer_total [of e q tid ar]
    by (subst updatePeer.simps) (auto simp: x Let_def)
qed

lemma updatePeer_returns:
  assumes "cstr (ar_peer_id ar) = Some pid" "cstr (ar_ip ar) = Some ip"
  shows "\<exists>r w'. updatePeer e q tid ar w = Some (r, w')"
proof (cases "filter (matches tid pid) (peers (tabs_w w)) = []")
  case False
  with assms(1) show ?thesis by (rule updatePeer_known)
next
  case True
  obtain x where x: "queryPeer q tid ar w = Some x"
    using queryPeer_total [OF assms(1)] by blast
  have "\<exists>r w'. (do { (error, w2) \<leftarrow> addPeer e q ar tid w1;
      if error = 0 then updatePeer e q tid ar w2 else Some (DB_FAILED, w2) }) = Some (r, w')" for w1
  proof -
    obtain r2 w2 where add: "addPeer e q ar tid w1 = Some (r2, w2)"
      using addPeer_total [OF assms] by blast
    show ?thesis
    proof (cases "r2 = 0")
      case False
      with add show ?thesis by simp
    next
      case r2: True
      with addPeer_spec [OF add assms] have "filter (matches tid pid) (peers (tabs_w w2)) \<noteq> []"
        by (auto simp: add_peer_row_def matches_def)
      with r2 add updatePeer_known [OF assms(1)] show ?thesis by simp
    qed
  qed
  with queryPeer_spec [OF x assms(1)] True show ?thesis
    by (subst updatePeer.simps) (auto simp: x Let_def)
qed

end

section \<open>The row of an announcing peer\<close>

lemma filter_matches_register:
  assumes "peers_ok T"
  obtains p where "filter (matches tid pid) (peers (register_peer tid pid ip ar now T)) = [p]"
    "p \<in> set (peers (register_peer tid pid ip ar now T))"
    "matches tid pid p"
proof -
  let ?ps = "peers (register_peer tid pid ip ar now T)"
  let ?k = "\<lambda>p. (p_torrent p, p_peer_id p)"
  have "distinct (map ?k (filter (matches tid pid) ?ps))"
    using peers_ok_register [OF assms, of tid pid ip ar now] by (simp add: peers_ok_def distinct_map_filter)
  moreover have "?k p = (tid, pid)" if "p \<in> set (filter (matches tid pid) ?ps)" for p
    using that by (auto simp: matches_def)
  moreover have "filter (matches tid pid) ?ps \<noteq> []"
    by (simp add: register_peer_def add_peer_row_def matches_def)
  ultimately obtain p where "filter (matches tid pid) ?ps = [p]"
    by (cases "filter (matches tid pid) ?ps" rule: remdups_adj.cases) auto
  moreover from this have "p \<in> set (filter (matches tid pid) ?ps)" by simp
  then have "p \<in> set ?ps" "matches tid pid p" by (simp_all only: set_filter mem_Collect_eq)
  ultimately show ?thesis using that by blast
qed

lemma refresh_peer_row:
  assumes "distinct (map p_id (peers T))" "filter (matches tid pid) (peers T) = [p]" "int_range (p_id p)"
  shows "peers (refresh_peer tid pid ar now T) =
    map (\<lambda>p. if matches tid pid p
      then p\<lparr>p_left := ar_left ar, p_status := Some (bt_event_int (ar_event ar)), p_expires := now\<rparr>
      else p) (peers T)"
proof -
  have p: "p \<in> set (peers T)" "matches tid pid p" "to_int (p_id p) = p_id p"
    using assms(2,3) by (auto simp: filter_eq_Cons_iff to_int_id)
  have "p_id x = p_id p \<longleftrightarrow> matches tid pid x" if "x \<in> set (peers T)" for x
  proof
    assume "p_id x = p_id p"
    with assms(1) that p(1,2) show "matches tid pid x" by (auto simp: distinct_map dest: inj_onD)
  next
    assume "matches tid pid x"
    with that have "x \<in> set (filter (matches tid pid) (peers T))" by simp
    with assms(2) show "p_id x = p_id p" by simp
  qed
  then show ?thesis
    by (simp add: refresh_peer_def touch_peer_def assms(2) p(3))
qed

section \<open>Properties\<close>

text \<open>A database and an announce for the instances.\<close>

definition no_peers_db :: mem_db where
  "no_peers_db = \<lparr>m_tabs = \<lparr>torrents = [\<lparr>t_id = 7, t_hash = ''h'', t_downloaded = 3\<rparr>], peers = [], peers_seq = 1\<rparr>,
     m_open = 0, m_steps = 0, m_fault = Map.empty, m_order = (\<lambda>_ ps. ps)\<rparr>"

definition sample_world :: "'db \<Rightarrow> 'db world" where
  "sample_world db = \<lparr>wdb = db, events = [], ticks = 0, polls = 0\<rparr>"

definition sample_os :: os where
  "sample_os = \<lparr>os_send = (\<lambda>_ bs. int (length bs)), os_time = (\<lambda>n. Some (1000 + int n)), os_pton4 = (\<lambda>_. None),
     os_pton6 = (\<lambda>_. None), os_stack = (\<lambda>_. CHR ''x''),
     os_recv = (\<lambda>_ _. None), os_peer = (\<lambda>_ _. None)\<rparr>"

definition sample_announce :: announce where
  "sample_announce = \<lparr>ar_info_hash = lit ''h'', ar_peer_id = lit ''p'', ar_ip = lit ''1.2.3.4'', ar_port = 6881,
     ar_protover = 4, ar_event = COMPLETED, ar_left = 0, ar_compact = True, ar_no_peer_id = False, ar_numwant = 50\<rparr>"

text \<open>
  C1: Under the documented behaviour of SQLite an announce has, whatever the database calls
  return, one of these effects: it fails and changes nothing; it adds the row of a peer not seen
  before and then fails; it also brings the peer's row up to date (left, event, expiry) and
  succeeds, counting a completed download of the torrent exactly when the event is \<open>completed\<close>;
  or it does the update and fails in the completion count. No other table change is possible, and
  nothing is written to any socket.
\<close>

theorem updatePeer_refines:
  assumes "sqlite_api q opened tabs view"
    and "updatePeer e q tid ar w = Some (r, w')"
    and "cstr (ar_peer_id ar) = Some pid" "cstr (ar_ip ar) = Some ip"
  shows "events w' = events w \<and>
    (r \<noteq> 0 \<and> tabs (wdb w') = tabs (wdb w) \<or>
     (\<exists>n1 t1 T1. os_time e n1 = Some t1 \<and> T1 = register_peer tid pid ip ar (to_int t1) (tabs (wdb w)) \<and>
       (r \<noteq> 0 \<and> tabs (wdb w') = T1 \<or>
        (\<exists>n2 t2. os_time e n2 = Some t2 \<and>
          (let T2 = refresh_peer tid pid ar (to_int t2) T1 in
           r = 0 \<and> tabs (wdb w') = complete_if (ar_event ar) tid T2 \<or>
           r \<noteq> 0 \<and> ar_event ar = COMPLETED \<and> tabs (wdb w') = T2)))))"
  by (rule sqlite_api.updatePeer_spec [OF assms])

text \<open>
  C23: \<open>updatePeer\<close> always returns: when SQLite behaves as documented, the call it makes to itself
  after adding a peer finds the row just added, so the recursion is one level deep for every
  pattern of database errors and clock failures.
\<close>

theorem updatePeer_terminates:
  assumes "sqlite_api q opened tabs view"
    and "cstr (ar_peer_id ar) = Some pid" "cstr (ar_ip ar) = Some ip"
  shows "\<exists>r w'. updatePeer e q tid ar w = Some (r, w')"
  by (rule sqlite_api.updatePeer_returns [OF assms])

text \<open>
  C17: After an announce that returns 0 the peers table has exactly one row for this peer and
  torrent, and it carries the announced \<open>left\<close>, event and an expiry taken from the clock; the rows
  of all other peers are those from before, in the same order; and the download count goes up by
  one for this torrent if the event was \<open>completed\<close> and for no torrent otherwise. (Row ids must
  fit the C \<open>int\<close> they are read into.)
\<close>

theorem updatePeer_registers:
  assumes "sqlite_api q opened tabs view"
    and "updatePeer e q tid ar w = Some (0, w')"
    and "cstr (ar_peer_id ar) = Some pid" "cstr (ar_ip ar) = Some ip"
    and "peers_ok (tabs (wdb w))" "peers_seq (tabs (wdb w)) < 2 ^ 31"
  shows "\<exists>p n t. filter (matches tid pid) (peers (tabs (wdb w'))) = [p] \<and> p_left p = ar_left ar \<and>
      p_status p = Some (bt_event_int (ar_event ar)) \<and> os_time e n = Some t \<and> p_expires p = to_int t \<and>
      filter (\<lambda>p. \<not> matches tid pid p) (peers (tabs (wdb w'))) =
        filter (\<lambda>p. \<not> matches tid pid p) (peers (tabs (wdb w))) \<and>
      torrents (tabs (wdb w')) = torrents (complete_if (ar_event ar) tid (tabs (wdb w)))"
proof -
  let ?T = "tabs (wdb w)"
  from sqlite_api.updatePeer_spec [OF assms(1-4)] obtain t1 n2 t2 T1 T2 where
    T1: "T1 = register_peer tid pid ip ar (to_int t1) ?T" and n2: "os_time e n2 = Some t2"
    and T2: "T2 = refresh_peer tid pid ar (to_int t2) T1" and w': "tabs (wdb w') = complete_if (ar_event ar) tid T2"
    by (auto simp: Let_def)
  from filter_matches_register [OF assms(5)] obtain p where
    p: "filter (matches tid pid) (peers T1) = [p]" "p \<in> set (peers T1)" "matches tid pid p"
    unfolding T1 by metis
  have ok: "peers_ok T1" unfolding T1 by (rule peers_ok_register) fact
  with p assms(6) have "int_range (p_id p)"
    by (auto simp: peers_ok_def int_range_def T1 register_peer_def add_peer_row_def split: if_splits)
  with refresh_peer_row [OF _ p(1)] ok have T2': "peers T2 = map (\<lambda>p. if matches tid pid p
      then p\<lparr>p_left := ar_left ar, p_status := Some (bt_event_int (ar_event ar)), p_expires := to_int t2\<rparr>
      else p) (peers T1)"
    by (auto simp: T2 peers_ok_def)
  have tt: "torrents T2 = torrents ?T"
    by (simp add: T2 T1 refresh_peer_def touch_peer_def register_peer_def add_peer_row_def)
  have pp: "peers (tabs (wdb w')) = peers T2" by (simp add: w' complete_if_def bump_torrent_def)
  let ?u = "\<lambda>p. if matches tid pid p
      then p\<lparr>p_left := ar_left ar, p_status := Some (bt_event_int (ar_event ar)), p_expires := to_int t2\<rparr>
      else p"
  have u: "matches tid pid (?u p) = matches tid pid p" for p by (simp add: matches_def)
  have "filter (matches tid pid) (peers T2) = [?u p]"
    by (simp add: T2' filter_map comp_def u p(1) del: if_image_distrib)
  moreover have "filter (\<lambda>p. \<not> matches tid pid p) (peers T2) = filter (\<lambda>p. \<not> matches tid pid p) (peers T1)"
    unfolding T2' filter_map comp_def u by (rule map_idI) simp
  moreover have "filter (\<lambda>p. \<not> matches tid pid p) (peers T1) = filter (\<lambda>p. \<not> matches tid pid p) (peers ?T)"
    by (simp add: T1 register_peer_def add_peer_row_def matches_def)
  moreover have "torrents (tabs (wdb w')) = torrents (complete_if (ar_event ar) tid ?T)"
    by (simp add: w' complete_if_def bump_torrent_def tt)
  ultimately show ?thesis
    using p(3) n2 by (intro exI [of _ "?u p"] exI [of _ n2] exI [of _ t2]) (simp add: pp)
qed

text \<open>
  The invariant of the peers table (ids pairwise different and below the AUTOINCREMENT
  counter, at most one row for a peer in a swarm) survives every announce and every pruning,
  successful or failed.
\<close>

theorem peers_ok_preserved:
  assumes "sqlite_api q opened tabs view" "peers_ok (tabs (wdb w))"
    and "cstr (ar_peer_id ar) = Some pid" "cstr (ar_ip ar) = Some ip"
    and "updatePeer e q tid ar w = Some (r, w') \<or> prunePeers e q iv w = Some (r, w')"
  shows "peers_ok (tabs (wdb w'))"
  using assms(5)
proof
  assume "updatePeer e q tid ar w = Some (r, w')"
  from sqlite_api.updatePeer_spec [OF assms(1) this assms(3,4)] assms(2) show ?thesis
    by (auto simp: Let_def intro!: peers_ok_register peers_ok_refresh)
next
  assume "prunePeers e q iv w = Some (r, w')"
  from sqlite_api.prunePeers_spec [OF assms(1) this] assms(2) show ?thesis
    by (auto intro: peers_ok_prune)
qed

text \<open>
  C29: No operation of the database layer leaks a statement: on every path, early error returns
  included, each statement that was prepared is finalized.
\<close>

theorem statements_finalized:
  assumes "sqlite_handles q opened"
    and "getTorrentId q hash w = Some (r, w') \<or> queryTorrentParam q s tid w = Some (r, w') \<or>
      addPeer e q ar tid w = Some (r, w') \<or> updatePeer e q tid ar w = Some (r, w') \<or>
      prunePeers e q iv w = Some (r, w')"
  shows "opened (wdb w') = opened (wdb w)"
  using assms(2)
  by (elim disjE)
    (erule sqlite_handles.getTorrentId_opened [OF assms(1)] sqlite_handles.queryTorrentParam_opened [OF assms(1)]
      sqlite_handles.addPeer_opened [OF assms(1)] sqlite_handles.updatePeer_opened [OF assms(1)]
      sqlite_handles.prunePeers_opened [OF assms(1)])+

text \<open>
  C25: A pruning that returns 0 has deleted exactly the peers that expired more than the given
  interval before the clock's time, and kept the others in their order; a pruning that returns
  anything else has deleted nothing.
\<close>

theorem prunePeers_exact:
  assumes "sqlite_api q opened tabs view" "prunePeers e q iv w = Some (r, w')"
    and "\<And>n t. os_time e n = Some t \<Longrightarrow> int_range (t - iv)"
  shows "if r = 0
     then \<exists>t. os_time e (ticks w) = Some t \<and> tabs (wdb w') =
       tabs (wdb w)\<lparr>peers := filter (\<lambda>p. \<not> p_expires p < t - iv) (peers (tabs (wdb w)))\<rparr>
     else tabs (wdb w') = tabs (wdb w)"
  using sqlite_api.prunePeers_spec [OF assms(1,2)] assms(3)
  by (auto simp: prune_before_def to_int_id not_less)

text \<open>
  The clock is cut to 32 bits. In the first \<open>iv\<close> seconds from \<open>2 ^ 31\<close> on, the expiry of a
  peer that has just announced itself wraps to a negative number while the limit of the pruning
  does not: a pruning at that very moment deletes every peer that was active right now.
\<close>

theorem prunePeers_drops_active_in_2038:
  assumes "sqlite_api q opened tabs view" "prunePeers e q iv w = Some (0, w')"
    and "os_time e (ticks w) = Some now" "2 ^ 31 \<le> now" "now < 2 ^ 31 + iv" "iv < 2 ^ 31"
    and "\<forall>p\<in>set (peers (tabs (wdb w))). p_expires p = to_int now"
  shows "peers (tabs (wdb w')) = []"
proof -
  have "now - 2 ^ 32 = to_int now"
    using assms(4-6) by (simp add: to_int_wrap)
  moreover have "to_int (now - iv) = now - iv"
    using assms(4-6) by (simp add: to_int_id int_range_def)
  ultimately show ?thesis
    using sqlite_api.prunePeers_spec [OF assms(1,2)] assms(3-7)
    by (auto simp: prune_before_def filter_empty_conv)
qed

text \<open>
  \<open>getTorrentId\<close> returns the id of the torrent with exactly this hash, \<open>DB_NOSUCHHASH\<close> only
  when the database has none, \<open>DB_FAILED\<close>, or a code of a step that its switch does not list; it
  never changes the tables.
\<close>

theorem getTorrentId_result:
  assumes "sqlite_api q opened tabs view" "getTorrentId q hash w = Some (r, w')" "cstr hash = Some h"
  shows "tabs (wdb w') = tabs (wdb w) \<and>
    (r = DB_FAILED \<or> odd_code q r \<or>
     r = DB_NOSUCHHASH \<and> (\<forall>t\<in>set (torrents (tabs (wdb w))). t_hash t \<noteq> h) \<or>
     (\<exists>t\<in>set (torrents (tabs (wdb w))). t_hash t = h \<and> r = to_int (t_id t)))"
proof -
  let ?f = "filter (\<lambda>t. t_hash t = h) (torrents (tabs (wdb w)))"
  have "?f \<noteq> [] \<Longrightarrow> hd ?f \<in> set ?f" by (rule hd_in_set)
  with sqlite_api.getTorrentId_spec [OF assms] show ?thesis
    by (auto simp: Let_def filter_empty_conv)
qed

text \<open>
  When the step fails with a code other than \<open>SQLITE_BUSY\<close> and \<open>SQLITE_ERROR\<close> (a locked table,
  an I/O error), \<open>getTorrentId\<close> returns that positive code as if it were the id of a torrent.
\<close>

theorem getTorrentId_error_code_as_id:
  assumes "getTorrentId q hash w = Some (r, w')" "cstr hash = Some h"
    and "sqlite3_prepare_v2 q QUERY_TORRENT_ID w = (SQLITE_OK, st, w1)" "sq_bind_text q st 1 h = (SQLITE_OK, st1)"
    and "sqlite3_step q st1 w1 = (rc, st2, w2)"
    and "rc \<notin> {SQLITE_ROW, SQLITE_DONE, SQLITE_BUSY, SQLITE_ERROR}"
  shows "r = rc"
  using assms by (simp add: getTorrentId_def bind_or_fail_def)

definition two_peers_db :: "int \<Rightarrow> int \<Rightarrow> (nat \<Rightarrow> int option) \<Rightarrow> mem_db" where
  "two_peers_db x y fault =
     (let row = \<lambda>i pid ex. \<lparr>p_id = i, p_torrent = 7, p_peer_id = pid, p_ip = ''1.2.3.4'', p_port = 80,
         p_protover = 4, p_left = 5, p_status = Some 1, p_expires = ex\<rparr>
      in no_peers_db\<lparr>m_fault := fault,
        m_tabs := (m_tabs no_peers_db)\<lparr>peers := [row 1 ''p'' x, row 2 ''q'' y], peers_seq := 3\<rparr>\<rparr>)"

lemma announce_succeeds:
  "map_option fst (updatePeer sample_os mem_sqlite 7 sample_announce (sample_world no_peers_db)) = Some 0"
  by code_simp

lemma sample_strings: "cstr (ar_peer_id sample_announce) = Some ''p''" "cstr (ar_ip sample_announce) = Some ''1.2.3.4''"
  by code_simp+

theorem updatePeer_registers_witness:
  "\<exists>w'. updatePeer sample_os mem_sqlite 7 sample_announce (sample_world no_peers_db) = Some (0, w') \<and>
     (\<exists>p. filter (matches 7 ''p'') (peers (m_tabs (wdb w'))) = [p] \<and> p_left p = 0 \<and> p_status p = Some 1) \<and>
     map t_downloaded (torrents (m_tabs (wdb w'))) = [4]"
proof -
  obtain w' where w': "updatePeer sample_os mem_sqlite 7 sample_announce (sample_world no_peers_db) = Some (0, w')"
    using announce_succeeds by auto
  have "peers_ok (m_tabs (wdb (sample_world no_peers_db)))" "peers_seq (m_tabs (wdb (sample_world no_peers_db))) < 2 ^ 31"
    by code_simp+
  from updatePeer_registers [OF mem.sqlite_api_axioms w' sample_strings this] w' show ?thesis
    by (auto simp: sample_announce_def complete_if_def bump_torrent_def sample_world_def no_peers_db_def)
qed

theorem updatePeer_refines_witness:
  "\<exists>r w'. updatePeer sample_os mem_sqlite 7 sample_announce (sample_world no_peers_db) = Some (r, w') \<and>
     events w' = []"
  using announce_succeeds updatePeer_refines [OF mem.sqlite_api_axioms _ sample_strings,
      of sample_os 7 "sample_world no_peers_db"]
  by (auto simp: sample_world_def)

theorem updatePeer_terminates_witness:
  "\<exists>r w'. updatePeer sample_os mem_sqlite 7 sample_announce
     (sample_world (no_peers_db\<lparr>m_fault := (\<lambda>n. if even n then None else Some 6)\<rparr>)) = Some (r, w')"
  by (rule updatePeer_terminates [OF mem.sqlite_api_axioms sample_strings])

theorem peers_ok_preserved_witness:
  "\<exists>w'. updatePeer sample_os mem_sqlite 7 sample_announce (sample_world no_peers_db) = Some (0, w') \<and>
     peers_ok (m_tabs (wdb w'))"
proof -
  obtain w' where w': "updatePeer sample_os mem_sqlite 7 sample_announce (sample_world no_peers_db) = Some (0, w')"
    using announce_succeeds by auto
  have "peers_ok (m_tabs (wdb (sample_world no_peers_db)))" by code_simp
  from peers_ok_preserved [OF mem.sqlite_api_axioms this sample_strings disjI1 [OF w']] w' show ?thesis by blast
qed

theorem statements_finalized_witness:
  "\<exists>w'. updatePeer sample_os mem_sqlite 7 sample_announce (sample_world no_peers_db) = Some (0, w') \<and>
     m_open (wdb w') = 0"
proof -
  obtain w' where w': "updatePeer sample_os mem_sqlite 7 sample_announce (sample_world no_peers_db) = Some (0, w')"
    using announce_succeeds by auto
  from statements_finalized [OF mem.sqlite_handles_axioms disjI2 [OF disjI2 [OF disjI2 [OF disjI1 [OF w']]]]]
  have "m_open (wdb w') = m_open (wdb (sample_world no_peers_db))" .
  with w' show ?thesis by (auto simp: sample_world_def no_peers_db_def)
qed

theorem prunePeers_exact_witness:
  "\<exists>w'. prunePeers sample_os mem_sqlite 100 (sample_world (two_peers_db 899 900 Map.empty)) = Some (0, w') \<and>
     map p_peer_id (peers (m_tabs (wdb w'))) = [''q'']"
proof -
  let ?w = "sample_world (two_peers_db 899 900 Map.empty)"
  have "map_option fst (prunePeers sample_os mem_sqlite 100 ?w) = Some 0" by code_simp
  then obtain w' where w': "prunePeers sample_os mem_sqlite 100 ?w = Some (0, w')" by auto
  let ?e = "sample_os\<lparr>os_time := \<lambda>_. Some 1000\<rparr>"
  have e: "prunePeers ?e mem_sqlite 100 ?w = prunePeers sample_os mem_sqlite 100 ?w"
    by (simp add: prunePeers_def gettimeofday_def sample_os_def sample_world_def)
  have "int_range (t - 100)" if "os_time ?e n = Some t" for n t
    using that by (auto simp: int_range_def)
  from prunePeers_exact [OF mem.sqlite_api_axioms w' [folded e] this] w' show ?thesis
    by (auto simp: sample_world_def two_peers_db_def Let_def)
qed

theorem prunePeers_drops_active_in_2038_witness:
  "\<exists>w'. prunePeers (sample_os\<lparr>os_time := \<lambda>_. Some (2 ^ 31)\<rparr>) mem_sqlite 100
      (sample_world (two_peers_db (to_int (2 ^ 31)) (to_int (2 ^ 31)) Map.empty)) = Some (0, w') \<and>
     peers (m_tabs (wdb w')) = []"
proof -
  let ?e = "sample_os\<lparr>os_time := \<lambda>_. Some (2 ^ 31)\<rparr>"
  let ?w = "sample_world (two_peers_db (to_int (2 ^ 31)) (to_int (2 ^ 31)) Map.empty)"
  have "map_option fst (prunePeers ?e mem_sqlite 100 ?w) = Some 0" by code_simp
  then obtain w' where w': "prunePeers ?e mem_sqlite 100 ?w = Some (0, w')" by auto
  from prunePeers_drops_active_in_2038 [OF mem.sqlite_api_axioms w', of "2 ^ 31"] w' show ?thesis
    by (auto simp: sample_world_def two_peers_db_def Let_def)
qed

theorem getTorrentId_result_witness:
  "\<exists>r w'. getTorrentId mem_sqlite (lit ''h'') (sample_world no_peers_db) = Some (r, w') \<and> r = 7 \<and>
     m_tabs (wdb w') = m_tabs no_peers_db"
proof -
  have "map_option fst (getTorrentId mem_sqlite (lit ''h'') (sample_world no_peers_db)) = Some 7"
    "cstr (lit ''h'') = Some ''h''" by code_simp+
  with getTorrentId_result [OF mem.sqlite_api_axioms, of "lit ''h''" "sample_world no_peers_db" 7 _ "''h''"]
  show ?thesis by (fastforce simp: sample_world_def)
qed

theorem getTorrentId_error_code_as_id_witness:
  "\<exists>w'. getTorrentId mem_sqlite (lit ''h'') (sample_world (two_peers_db 0 0 (\<lambda>_. Some 10))) = Some (10, w')"
proof -
  let ?w = "sample_world (two_peers_db 0 0 (\<lambda>_. Some 10))"
  have t: "cstr (lit ''h'') = Some ''h''" by code_simp
  have "getTorrentId mem_sqlite (lit ''h'') ?w \<noteq> None" by code_simp
  then obtain r w' where r: "getTorrentId mem_sqlite (lit ''h'') ?w = Some (r, w')" by auto
  let ?p = "sqlite3_prepare_v2 mem_sqlite QUERY_TORRENT_ID ?w"
  let ?b = "sq_bind_text mem_sqlite (fst (snd ?p)) 1 ''h''"
  let ?s = "sqlite3_step mem_sqlite (snd ?b) (snd (snd ?p))"
  have "fst ?p = 0" "fst ?b = 0" "fst ?s = 10" by code_simp+
  then have "?p = (SQLITE_OK, fst (snd ?p), snd (snd ?p))" "?b = (SQLITE_OK, snd ?b)"
    "?s = (10, fst (snd ?s), snd (snd ?s))" by (metis SQLITE_OK_def prod.collapse)+
  from getTorrentId_error_code_as_id [OF r t this] have "r = 10" by simp
  with r show ?thesis by blast
qed

end
