(* ===== verification/Track_Spec.thy ===== *)
theory Track_Spec
  imports Track Database_Spec
begin

text \<open>
  What \<^verbatim>\<open>src/track.c\<close> sends and does: no access of \<open>track\<close> leaves its buffers, the answer is
  one of the error texts or a list of rows of the torrent without the client's own row, and the
  database changes as \<open>updatePeer\<close> promises.
\<close>

section \<open>Texts\<close>

lemma dec_noNUL [simp]: "NUL \<notin> set (dec i)"
  by (auto simp: dec_def dest: dec_nat_digits)

lemma ctext_noNUL [simp]: "NUL \<notin> set (ctext s)"
  by (auto simp: ctext_def dest: set_takeWhileD)

lemma lit_noNUL_cstr [simp]: "NUL \<notin> set s \<Longrightarrow> cstr (lit s) = Some s"
  by (rule cstr_lit)

lemma strcmp0_strings: "NUL \<notin> set s \<Longrightarrow> NUL \<notin> set t \<Longrightarrow> strcmp0 (s @ NUL # p) (t @ NUL # q) = Some (s = t)"
proof (induction s arbitrary: t)
  case Nil
  then show ?case by (cases t) auto
next
  case (Cons c s)
  then show ?case by (cases t) auto
qed

lemma strcmp0_lit: "cstr p = Some s \<Longrightarrow> NUL \<notin> set t \<Longrightarrow> strcmp0 p (lit t) = Some (s = t)"
  by (auto simp: cstr_eq_Some_iff lit_def strcmp0_strings)

lemma length_be16 [simp]: "length (be16 p) = 2"
  by (simp add: be16_def)

lemma dec_nat_length_le: "n < 10 ^ k \<Longrightarrow> 0 < k \<Longrightarrow> length (dec_nat n) \<le> k"
proof (induction k arbitrary: n)
  case (Suc k)
  show ?case
  proof (cases "n < 10")
    case False
    with Suc.prems have "0 < k" by (cases k) auto
    moreover from Suc.prems have "n div 10 < 10 ^ k" by (simp add: less_mult_imp_div_less)
    ultimately show ?thesis using Suc.IH False by (simp add: dec_nat.simps [of n])
  qed (simp add: dec_nat.simps [of n])
qed simp

lemma dec_length_le: "int_range i \<Longrightarrow> length (dec i) \<le> 11"
  using dec_nat_length_le [of "nat i" 10] dec_nat_length_le [of "nat (- i)" 10]
  by (cases "i < 0") (auto simp: dec_def int_range_def nat_less_iff)

section \<open>The answer\<close>

text \<open>\<open>inet_pton\<close> writes the addresses of the two families.\<close>

definition pton_lengths :: "os \<Rightarrow> bool" where
  "pton_lengths e \<longleftrightarrow> (\<forall>s a. (os_pton4 e s = Some a \<longrightarrow> length a = 4) \<and> (os_pton6 e s = Some a \<longrightarrow> length a = 16))"

definition own_row :: "string \<Rightarrow> string \<Rightarrow> peer_row \<Rightarrow> bool" where
  "own_row ip pid p \<longleftrightarrow> ip = ctext (p_ip p) \<and> pid = ctext (p_peer_id p)"

definition entry4 :: "os \<Rightarrow> peer_row \<Rightarrow> string" where
  "entry4 e p = (if to_int (p_protover p) = 4
     then (case os_pton4 e (ctext (p_ip p)) of None \<Rightarrow> [] | Some a \<Rightarrow> a @ be16 (to_int (p_port p))) else [])"

definition entry6 :: "os \<Rightarrow> peer_row \<Rightarrow> string" where
  "entry6 e p = (if to_int (p_protover p) \<noteq> 4
     then (case os_pton6 e (ctext (p_ip p)) of None \<Rightarrow> [] | Some a \<Rightarrow> a @ be16 (to_int (p_port p))) else [])"

text \<open>A string in the answer, with its length before it.\<close>

definition bstring :: "string \<Rightarrow> string" where
  "bstring s = dec (to_int (int (length s))) @ '':'' @ s"

definition entry_text :: "announce \<Rightarrow> peer_row \<Rightarrow> string" where
  "entry_text ar p =
     ''d2:ip'' @ bstring (ctext (p_ip p)) @ ''4:porti'' @ dec (to_int (p_port p)) @
     (if ar_no_peer_id ar then ''ee'' else ''e7:peer id'' @ bstring (ctext (p_peer_id p)) @ ''e'')"

text \<open>The entries for the rows \<open>ps\<close>: compact IPv4, compact IPv6, texts.\<close>

definition others :: "string \<Rightarrow> string \<Rightarrow> peer_row list \<Rightarrow> peer_row list" where
  "others ip pid ps = filter (\<lambda>p. \<not> own_row ip pid p) ps"

definition list4 :: "os \<Rightarrow> announce \<Rightarrow> peer_row list \<Rightarrow> string" where
  "list4 e ar ps = (if ar_compact ar then concat (map (entry4 e) ps) else [])"

definition list6 :: "os \<Rightarrow> announce \<Rightarrow> peer_row list \<Rightarrow> string" where
  "list6 e ar ps = (if ar_compact ar then concat (map (entry6 e) ps) else [])"

definition texts :: "announce \<Rightarrow> peer_row list \<Rightarrow> string list" where
  "texts ar ps = (if ar_compact ar then [] else map (\<lambda>p. take 1022 (entry_text ar p)) ps)"

text \<open>The pieces of the answer after the HTTP header, each one call of \<open>send\<close>.\<close>

definition peers_pieces :: "os \<Rightarrow> announce \<Rightarrow> int \<Rightarrow> peer_row list \<Rightarrow> string list" where
  "peers_pieces e ar interval ps =
     (''d8:intervali'' @ dec interval @ ''e5:peers'' @ (if ar_compact ar then [] else ''l'')) #
     texts ar ps @
     (if ar_compact ar
      then (dec (int (length (list4 e ar ps))) @ '':'' @ list4 e ar ps) #
        (if list6 e ar ps = [] then []
         else [''10:peers_ipv6'' @ dec (int (length (list6 e ar ps))) @ '':'' @ list6 e ar ps])
      else []) @
     [if ar_compact ar then ''e'' else ''ee'']"

section \<open>One row\<close>

definition bufs_hold :: "os \<Rightarrow> announce \<Rightarrow> peer_row list \<Rightarrow> peer_bufs \<Rightarrow> bool" where
  "bufs_hold e ar ps s \<longleftrightarrow>
     length (pb_buf s) = 1024 \<and> length (pb_buf4 s) = 1024 \<and> length (pb_buf6 s) = 1024 \<and>
     pb_pos4 s = length (list4 e ar ps) \<and> take (pb_pos4 s) (pb_buf4 s) = list4 e ar ps \<and>
     pb_pos6 s = length (list6 e ar ps) \<and> take (pb_pos6 s) (pb_buf6 s) = list6 e ar ps"

lemma list4_snoc: "list4 e ar (ps @ [p]) = list4 e ar ps @ (if ar_compact ar then entry4 e p else [])"
  and list6_snoc: "list6 e ar (ps @ [p]) = list6 e ar ps @ (if ar_compact ar then entry6 e p else [])"
  and texts_append: "texts ar (ps @ rs) = texts ar ps @ texts ar rs"
  by (simp_all add: list4_def list6_def texts_def)

lemma others_append: "others ip pid (ps @ rs) = others ip pid ps @ others ip pid rs"
  by (simp add: others_def)

lemma length_entries:
  assumes "pton_lengths e"
  shows "length (entry4 e p) \<le> 6" "length (entry6 e p) \<le> 18"
  using assms by (auto simp: entry4_def entry6_def pton_lengths_def split: option.splits)

lemma length_lists:
  assumes "pton_lengths e"
  shows "length (list4 e ar ps) \<le> 6 * length ps" "length (list6 e ar ps) \<le> 18 * length ps"
proof -
  have "length (concat (map (entry4 e) ps)) \<le> 6 * length ps"
    using length_entries(1) [OF assms] by (induction ps) (auto intro: add_mono)
  moreover have "length (concat (map (entry6 e) ps)) \<le> 18 * length ps"
    using length_entries(2) [OF assms] by (induction ps) (auto intro: add_mono)
  ultimately show "length (list4 e ar ps) \<le> 6 * length ps" "length (list6 e ar ps) \<le> 18 * length ps"
    by (auto simp: list4_def list6_def)
qed

lemma length_others: "length (others ip pid ps) \<le> length ps"
  by (simp add: others_def)

text \<open>Two writes one after the other into a buffer that is filled up to \<open>n\<close>.\<close>

lemma mem_put_twice:
  assumes "n + length xs + length ys \<le> length b" "take n b = zs" "length zs = n"
  shows "\<exists>b'. mem_put b n xs = Some b' \<and>
    (\<exists>b2. mem_put b' (n + length xs) ys = Some b2 \<and> length b2 = length b \<and>
      take (n + length xs + length ys) b2 = zs @ xs @ ys)"
  using assms by (auto simp: mem_put_Some)

lemma push_peer_self:
  assumes "cstr (ar_ip ar) = Some ip" "cstr (ar_peer_id ar) = Some pid" "own_row ip pid p"
  shows "push_peer e fd ar (ctext (p_ip p)) (ctext (p_peer_id p)) port proto s w = Some (s, w)"
  using assms(3) strcmp0_lit [OF assms(1), of "ctext (p_ip p)"] strcmp0_lit [OF assms(2), of "ctext (p_peer_id p)"]
  by (simp add: push_peer_def own_row_def)

lemma push_peer_other:
  assumes "cstr (ar_ip ar) = Some ip" "cstr (ar_peer_id ar) = Some pid" "\<not> own_row ip pid p"
  shows "push_peer e fd ar (ctext (p_ip p)) (ctext (p_peer_id p)) (to_int (p_port p)) proto s w =
    (if \<not> ar_compact ar then do {
       (_, buf) \<leftarrow> snprintf (pb_buf s) 1023 (entry_text ar p);
       (_, w) \<leftarrow> sendString e fd buf w;
       Some (s\<lparr>pb_buf := buf\<rparr>, w) }
     else if proto = 4 then
       (case os_pton4 e (ctext (p_ip p)) of
          None \<Rightarrow> Some (s, w)
        | Some addr \<Rightarrow> do {
            buf4 \<leftarrow> mem_put (pb_buf4 s) (pb_pos4 s) addr;
            buf4 \<leftarrow> mem_put buf4 (pb_pos4 s + 4) (be16 (to_int (p_port p)));
            Some (s\<lparr>pb_buf4 := buf4, pb_pos4 := pb_pos4 s + 4 + 2\<rparr>, w) })
     else
       (case os_pton6 e (ctext (p_ip p)) of
          None \<Rightarrow> Some (s, w)
        | Some addr \<Rightarrow> do {
            buf6 \<leftarrow> mem_put (pb_buf6 s) (pb_pos6 s) addr;
            buf6 \<leftarrow> mem_put buf6 (pb_pos6 s + 16) (be16 (to_int (p_port p)));
            Some (s\<lparr>pb_buf6 := buf6, pb_pos6 := pb_pos6 s + 16 + 2\<rparr>, w) }))"
  using assms(3) strcmp0_lit [OF assms(1), of "ctext (p_ip p)"] strcmp0_lit [OF assms(2), of "ctext (p_peer_id p)"]
  by (cases "ip = ctext (p_ip p)"; cases "ar_no_peer_id ar")
    (simp_all add: push_peer_def own_row_def entry_text_def bstring_def)

lemma push_peer_step:
  assumes "pton_lengths e" "cstr (ar_ip ar) = Some ip" "cstr (ar_peer_id ar) = Some pid"
    and "bufs_hold e ar (others ip pid ps) s" "length ps < 50"
  shows "\<exists>s'. push_peer e fd ar (ctext (p_ip p)) (ctext (p_peer_id p)) (to_int (p_port p)) (to_int (p_protover p)) s w =
      Some (s', w\<lparr>events := events w @ map (sent_event e fd) (texts ar (others ip pid [p]))\<rparr>) \<and>
    bufs_hold e ar (others ip pid (ps @ [p])) s'"
proof -
  have len: "length (list4 e ar (others ip pid ps)) \<le> 294" "length (list6 e ar (others ip pid ps)) \<le> 882"
    using length_lists [OF assms(1), of ar "others ip pid ps"] length_others [of ip pid ps] assms(5) by linarith+
  show ?thesis
  proof (cases "own_row ip pid p")
    case True
    with assms(4) show ?thesis
      by (simp add: push_peer_self [OF assms(2,3)] others_def texts_def)
  next
    case False
    note push = push_peer_other [OF assms(2,3) False, of e fd]
    have o: "others ip pid [p] = [p]" using False by (simp add: others_def)
    show ?thesis
    proof (cases "ar_compact ar")
      case False
      let ?t = "entry_text ar p"
      have n: "NUL \<notin> set (take 1022 ?t)"
        by (auto simp: entry_text_def bstring_def dest: in_set_takeD)
      have b: "length (pb_buf s) = 1024" using assms(4) by (simp add: bufs_hold_def)
      from b have "push_peer e fd ar (ctext (p_ip p)) (ctext (p_peer_id p)) (to_int (p_port p)) (to_int (p_protover p)) s w =
        Some (s\<lparr>pb_buf := take 1022 ?t @ NUL # drop (Suc (min 1022 (length ?t))) (pb_buf s)\<rparr>,
          log_event (sent_event e fd (take 1022 ?t)) w)"
        by (simp add: push False mem_simps sendString_eq n)
      then show ?thesis
        using assms(4) False
        by (simp add: bufs_hold_def o others_append list4_def list6_def texts_def log_event_def)
    next
      case True
      let ?l4 = "list4 e ar (others ip pid ps)" and ?l6 = "list6 e ar (others ip pid ps)"
      have b: "length (pb_buf s) = 1024" "length (pb_buf4 s) = 1024" "length (pb_buf6 s) = 1024"
        "pb_pos4 s = length ?l4" "take (length ?l4) (pb_buf4 s) = ?l4"
        "pb_pos6 s = length ?l6" "take (length ?l6) (pb_buf6 s) = ?l6"
        using assms(4) by (auto simp: bufs_hold_def)
      show ?thesis
      proof (cases "to_int (p_protover p) = 4")
        case v4: True
        show ?thesis
        proof (cases "os_pton4 e (ctext (p_ip p))")
          case None
          with True v4 b show ?thesis
            by (simp add: push o others_append bufs_hold_def list4_snoc list6_snoc
                texts_def entry4_def entry6_def)
        next
          case (Some a)
          then have a: "length a = 4" using assms(1) by (simp add: pton_lengths_def)
          obtain b1 b2 where m: "mem_put (pb_buf4 s) (length ?l4) a = Some b1"
            "mem_put b1 (length ?l4 + 4) (be16 (to_int (p_port p))) = Some b2" "length b2 = 1024"
            "take (6 + length ?l4) b2 = ?l4 @ a @ be16 (to_int (p_port p))"
            using mem_put_twice [of "length ?l4" a "be16 (to_int (p_port p))" "pb_buf4 s" ?l4]
              b len a by auto
          show ?thesis
            by (simp add: push o True v4 Some b a m others_append bufs_hold_def list4_snoc list6_snoc
                texts_def entry4_def entry6_def)
        qed
      next
        case v6: False
        show ?thesis
        proof (cases "os_pton6 e (ctext (p_ip p))")
          case None
          with True v6 b show ?thesis
            by (simp add: push o others_append bufs_hold_def list4_snoc list6_snoc
                texts_def entry4_def entry6_def)
        next
          case (Some a)
          then have a: "length a = 16" using assms(1) by (simp add: pton_lengths_def)
          obtain b1 b2 where m: "mem_put (pb_buf6 s) (length ?l6) a = Some b1"
            "mem_put b1 (length ?l6 + 16) (be16 (to_int (p_port p))) = Some b2" "length b2 = 1024"
            "take (18 + length ?l6) b2 = ?l6 @ a @ be16 (to_int (p_port p))"
            using mem_put_twice [of "length ?l6" a "be16 (to_int (p_port p))" "pb_buf6 s" ?l6]
              b len a by auto
          show ?thesis
            by (simp add: push o True v6 Some b a m others_append bufs_hold_def list4_snoc list6_snoc
                texts_def entry4_def entry6_def)
        qed
      qed
    qed
  qed
qed

section \<open>The loop\<close>

text \<open>The columns of a row of \<open>QUERY_TORRENT_PEERS\<close>.\<close>

definition peer_cols :: "peer_row \<Rightarrow> sqlrow" where
  "peer_cols p = [SText (p_peer_id p), SText (p_ip p), SInt (p_port p), SInt (p_protover p)]"

lemma mset_take_subset: "mset (take k xs) \<subseteq># mset xs"
  by (metis append_take_drop_id mset_append mset_subset_eq_add_left)

lemma snprintf_fits:
  "length s < n \<Longrightarrow> n \<le> length buf \<Longrightarrow>
   snprintf buf n s = Some (int (length s), s @ NUL # drop (Suc (length s)) buf)"
  by (cases n) (auto simp: snprintf_Some)

text \<open>A length, a colon and a buffered list, put together in the scratch buffer and sent.\<close>

lemma send_chunk:
  assumes "length buf = 1024" "length t + length l < 1023" "take n lb = l" "length l = n" "n \<le> length lb"
  obtains buf' where "length buf' = 1024"
    "\<And>K. snprintf buf 1023 t \<bind> (\<lambda>(c, buf). mem_get lb n \<bind> (\<lambda>bytes. mem_put buf (nat c) bytes \<bind>
      (\<lambda>buf. reallySend e fd buf (nat c + n) w \<bind> (\<lambda>(_, w). K buf w)))) =
      K buf' (w\<lparr>events := events w @ [sent_event e fd (t @ l)]\<rparr>)"
proof -
  let ?b = "t @ l @ drop (length l) (NUL # drop (Suc (length t)) buf)"
  have "mem_put (t @ NUL # drop (Suc (length t)) buf) (length t) l = Some ?b"
    using assms(1,2) by (simp add: mem_put_def)
  moreover have "reallySend e fd ?b (length t + n) w =
      Some (to_int (os_send e fd (t @ l)), w\<lparr>events := events w @ [sent_event e fd (t @ l)]\<rparr>)"
    using reallySend_eq [of "t @ l" "length t + n" e fd _ w] assms(4) by (simp add: log_event_def)
  ultimately have "snprintf buf 1023 t \<bind> (\<lambda>(c, buf). mem_get lb n \<bind> (\<lambda>bytes. mem_put buf (nat c) bytes \<bind>
      (\<lambda>buf. reallySend e fd buf (nat c + n) w \<bind> (\<lambda>(_, w). K buf w)))) =
      K ?b (w\<lparr>events := events w @ [sent_event e fd (t @ l)]\<rparr>)" for K
    using assms by (simp add: snprintf_fits mem_get_def)
  moreover have "length ?b = 1024" using assms(1,2) by simp
  ultimately show ?thesis using that by blast
qed

lemma send_compact_spec:
  assumes "pton_lengths e" "ar_compact ar" "bufs_hold e ar rs s" "length rs \<le> 50"
  shows "\<exists>s'. send_compact e fd s w = Some (s', (w :: 'a world)\<lparr>events := events w @ map (sent_event e fd)
      ((dec (int (length (list4 e ar rs))) @ '':'' @ list4 e ar rs) #
       (if list6 e ar rs = [] then []
        else [''10:peers_ipv6'' @ dec (int (length (list6 e ar rs))) @ '':'' @ list6 e ar rs]))\<rparr>)"
proof -
  let ?l4 = "list4 e ar rs" and ?l6 = "list6 e ar rs"
  have b: "length (pb_buf s) = 1024" "length (pb_buf4 s) = 1024" "length (pb_buf6 s) = 1024"
    "pb_pos4 s = length ?l4" "take (length ?l4) (pb_buf4 s) = ?l4"
    "pb_pos6 s = length ?l6" "take (length ?l6) (pb_buf6 s) = ?l6"
    using assms(3) by (auto simp: bufs_hold_def)
  have len: "length ?l4 \<le> 300" "length ?l6 \<le> 900"
    using length_lists [OF assms(1), of ar rs] assms(4) by linarith+
  have d: "length (dec (int (length ?l4))) \<le> 4" "length (dec (int (length ?l6))) \<le> 4"
    using dec_nat_length_le [of _ 4] len by (simp_all add: dec_def)
  obtain buf1 where 1: "length buf1 = 1024" "\<And>K :: string \<Rightarrow> 'a world \<Rightarrow> (peer_bufs \<times> 'a world) option. snprintf (pb_buf s) 1023 (dec (int (length ?l4)) @ '':'') \<bind>
      (\<lambda>(c, buf). mem_get (pb_buf4 s) (length ?l4) \<bind> (\<lambda>bytes. mem_put buf (nat c) bytes \<bind>
      (\<lambda>buf. reallySend e fd buf (nat c + length ?l4) w \<bind> (\<lambda>(_, w). K buf w)))) =
      K buf1 (w\<lparr>events := events w @ [sent_event e fd ((dec (int (length ?l4)) @ '':'') @ ?l4)]\<rparr>)"
    by (rule send_chunk [of "pb_buf s" "dec (int (length ?l4)) @ '':''" ?l4 "length ?l4" "pb_buf4 s" e fd w])
      (use b len d in auto)
  let ?w1 = "w\<lparr>events := events w @ [sent_event e fd ((dec (int (length ?l4)) @ '':'') @ ?l4)]\<rparr>"
  obtain buf2 where 2: "length buf2 = 1024"
    "\<And>K :: string \<Rightarrow> 'a world \<Rightarrow> (peer_bufs \<times> 'a world) option. snprintf buf1 1023 (''10:peers_ipv6'' @ dec (int (length ?l6)) @ '':'') \<bind>
      (\<lambda>(c, buf). mem_get (pb_buf6 s) (length ?l6) \<bind> (\<lambda>bytes. mem_put buf (nat c) bytes \<bind>
      (\<lambda>buf. reallySend e fd buf (nat c + length ?l6) ?w1 \<bind> (\<lambda>(_, w). K buf w)))) =
      K buf2 (?w1\<lparr>events := events ?w1 @
        [sent_event e fd ((''10:peers_ipv6'' @ dec (int (length ?l6)) @ '':'') @ ?l6)]\<rparr>)"
    by (rule send_chunk [of buf1 "''10:peers_ipv6'' @ dec (int (length ?l6)) @ '':''" ?l6 "length ?l6"
          "pb_buf6 s" e fd ?w1])
      (use b len d 1(1) in auto)
  show ?thesis
    unfolding send_compact_def b(4,6) 1(2) 2(2) by simp
qed

lemma length_texts: "length (texts ar ps) \<le> length ps"
  by (simp add: texts_def)

context sqlite_api
begin

lemma step_next_w:
  assumes "sqlite3_step q st w = (rc, st', w')" "sv_todo (view st) = Some rows" "sv_row (view st) \<noteq> None"
  shows "events w' = events w \<and> tabs_w w' = tabs_w w \<and>
    (rc \<noteq> 100 \<or> rows \<noteq> [] \<and> sv_row (view st') = Some (hd rows) \<and> sv_todo (view st') = Some (tl rows))"
proof -
  obtain db' where s: "sq_step q st (wdb w) = (rc, st', db')" "w' = w\<lparr>wdb := db'\<rparr>"
    using assms(1) by (auto simp: sqlite3_step_def split: prod.splits)
  show ?thesis
  proof (cases "rc = 100 \<or> rc = 101")
    case True
    with step_next [OF s(1) _ assms(2,3)] s(2) show ?thesis by auto
  next
    case False
    with step_fail [OF s(1)] s show ?thesis by auto
  qed
qed

lemma peer_columns:
  assumes "sv_row (view st) = Some (peer_cols p)"
  shows "sq_column_text q st 1 = ctext (p_ip p)" "sq_column_text q st 0 = ctext (p_peer_id p)"
    "sq_column_int q st 2 = to_int (p_port p)" "sq_column_int q st 3 = to_int (p_protover p)"
    "sq_column_text q st (Suc 0) = ctext (p_ip p)"
  using column_int [OF assms] column_text [OF assms] by (simp_all add: peer_cols_def)

text \<open>The loop once the statement has been stepped: it lists a prefix of the rows to come.\<close>

lemma push_peers_next:
  assumes "pton_lengths e" "cstr (ar_ip ar) = Some ip" "cstr (ar_peer_id ar) = Some pid"
    and "bufs_hold e ar (others ip pid ps) s" "length ps + n \<le> 50" "sv_todo (view st) = Some (map peer_cols rs)"
    and "sv_row (view st) \<noteq> None"
  shows "\<exists>m st' s' w'. push_peers e q fd ar n st s w = Some (st', s', w') \<and> m \<le> n \<and> m \<le> length rs \<and>
    bufs_hold e ar (others ip pid (ps @ take m rs)) s' \<and> tabs_w w' = tabs_w w \<and>
    events w' = events w @ map (sent_event e fd) (texts ar (others ip pid (take m rs)))"
  using assms(4-7)
proof (induction n arbitrary: ps st s w rs)
  case 0
  then show ?case by (intro exI [of _ 0]) (simp add: others_def texts_def)
next
  case (Suc n)
  obtain rc st1 w1 where st: "sqlite3_step q st w = (rc, st1, w1)" by (metis prod_cases3)
  note step = step_next_w [OF st Suc.prems(3,4)]
  show ?case
  proof (cases "rc = 100")
    case False
    with st step Suc.prems show ?thesis by (intro exI [of _ 0]) (simp add: others_def texts_def)
  next
    case True
    with step obtain r rs' where rs: "rs = r # rs'" and row: "sv_row (view st1) = Some (peer_cols r)"
      and todo: "sv_todo (view st1) = Some (map peer_cols rs')" by (cases rs) auto
    have row': "sv_row (view st1) \<noteq> None" using row by simp
    from push_peer_step [OF assms(1-3) Suc.prems(1), of fd r w1] Suc.prems(2) obtain s1 where
      push: "push_peer e fd ar (ctext (p_ip r)) (ctext (p_peer_id r)) (to_int (p_port r)) (to_int (p_protover r)) s w1 =
        Some (s1, w1\<lparr>events := events w1 @ map (sent_event e fd) (texts ar (others ip pid [r]))\<rparr>)" (is "_ = Some (_, ?w1)")
      and s1: "bufs_hold e ar (others ip pid (ps @ [r])) s1" by auto
    from Suc.IH [OF s1 _ todo row', of ?w1] Suc.prems(2) obtain m st' s' w' where
      "push_peers e q fd ar n st1 s1 ?w1 = Some (st', s', w')" "m \<le> n" "m \<le> length rs'"
      "bufs_hold e ar (others ip pid ((ps @ [r]) @ take m rs')) s'" "tabs_w w' = tabs_w ?w1"
      "events w' = events ?w1 @ map (sent_event e fd) (texts ar (others ip pid (take m rs')))" by auto
    moreover from this(1) have "push_peers e q fd ar (Suc n) st s w = Some (st', s', w')"
      by (simp only: push_peers.simps st prod.case SQLITE_ROW_def True simp_thms if_True peer_columns [OF row] push
          Option.bind.bind_lunit)
    moreover have "others ip pid (r # take m rs') = others ip pid [r] @ others ip pid (take m rs')"
      using others_append [of ip pid "[r]" "take m rs'"] by simp
    ultimately show ?thesis
      using step by (intro exI [of _ "Suc m"] exI [of _ st'] exI [of _ s'] exI [of _ w'])
        (simp del: push_peers.simps add: rs texts_append)
  qed
qed

text \<open>The whole loop: it lists rows of the torrent, each at most once.\<close>

lemma push_peers_spec:
  assumes "pton_lengths e" "cstr (ar_ip ar) = Some ip" "cstr (ar_peer_id ar) = Some pid"
    and "bufs_hold e ar [] s" "n \<le> 50"
    and "view st = (fresh_stmt QUERY_TORRENT_PEERS)\<lparr>sv_args := (\<lambda>_. SNull)(Suc 0 := SInt tid)\<rparr>"
  shows "\<exists>rs st' s' w'. push_peers e q fd ar n st s w = Some (st', s', w') \<and> length rs \<le> n \<and>
    mset rs \<subseteq># mset (filter (\<lambda>p. p_torrent p = tid) (peers (tabs_w w))) \<and>
    bufs_hold e ar (others ip pid rs) s' \<and> tabs_w w' = tabs_w w \<and>
    events w' = events w @ map (sent_event e fd) (texts ar (others ip pid rs))"
proof (cases n)
  case 0
  with assms(4) show ?thesis by (intro exI [of _ "[]"]) (simp add: others_def texts_def)
next
  case (Suc k)
  obtain rc st1 w1 where st: "sqlite3_step q st w = (rc, st1, w1)" by (metis prod_cases3)
  have todo: "sv_todo (view st) = None" using assms(6) by simp
  from step_w [OF st todo] assms(6) have w1: "events w1 = events w" "tabs_w w1 = tabs_w w" by auto
  show ?thesis
  proof (cases "rc = 100")
    case False
    with st w1 Suc assms(4) show ?thesis by (intro exI [of _ "[]"]) (simp add: others_def texts_def)
  next
    case True
    with step_w [OF st todo] assms(6) obtain order rows r0 rs0 where order: "\<forall>ps. mset (order ps) = mset ps"
      and run: "run_sql order QUERY_TORRENT_PEERS ((\<lambda>_. SNull)(Suc 0 := SInt tid)) (tabs_w w) = Some (tabs_w w1, rows)"
      and rows0: "rows = r0 # rs0" "sv_row (view st1) = Some r0" "sv_todo (view st1) = Some rs0"
      by auto
    define R where "R = take 50 (order (filter (\<lambda>p. p_torrent p = tid) (peers (tabs_w w))))"
    have "rows = map peer_cols R"
      using run by (auto simp: R_def peer_cols_def)
    then obtain r rs where r: "R = r # rs" and rows: "r0 = peer_cols r" "rs0 = map peer_cols rs"
      using rows0(1) by (cases R) auto
    have row: "sv_row (view st1) = Some (peer_cols r)" and todo1: "sv_todo (view st1) = Some (map peer_cols rs)"
      using rows rows0 by simp_all
    have "bufs_hold e ar (others ip pid []) s" using assms(4) by (simp add: others_def)
    from push_peer_step [OF assms(1-3) this, of fd r w1] obtain s1 where
      push: "push_peer e fd ar (ctext (p_ip r)) (ctext (p_peer_id r)) (to_int (p_port r)) (to_int (p_protover r)) s w1 =
        Some (s1, w1\<lparr>events := events w1 @ map (sent_event e fd) (texts ar (others ip pid [r]))\<rparr>)" (is "_ = Some (_, ?w1)")
      and s1: "bufs_hold e ar (others ip pid ([] @ [r])) s1" by auto
    have row1: "sv_row (view st1) \<noteq> None" using row by simp
    from push_peers_next [OF assms(1-3) s1 _ todo1 row1, of k fd ?w1] assms(5) Suc obtain m st' s' w' where
      rest: "push_peers e q fd ar k st1 s1 ?w1 = Some (st', s', w')" "m \<le> k" "m \<le> length rs"
      "bufs_hold e ar (others ip pid (([] @ [r]) @ take m rs)) s'" "tabs_w w' = tabs_w ?w1"
      "events w' = events ?w1 @ map (sent_event e fd) (texts ar (others ip pid (take m rs)))" by auto
    have "push_peers e q fd ar n st s w = Some (st', s', w')"
      by (simp only: Suc push_peers.simps st prod.case SQLITE_ROW_def True simp_thms if_True peer_columns [OF row] push
          Option.bind.bind_lunit rest)
    moreover have "others ip pid (r # take m rs) = others ip pid [r] @ others ip pid (take m rs)"
      using others_append [of ip pid "[r]" "take m rs"] by simp
    moreover have "mset (r # take m rs) \<subseteq># mset (filter (\<lambda>p. p_torrent p = tid) (peers (tabs_w w)))"
    proof -
      have "r # take m rs = take (min (Suc m) 50) (order (filter (\<lambda>p. p_torrent p = tid) (peers (tabs_w w))))"
        using r unfolding R_def by (metis min.commute take_Suc_Cons take_take)
      then show ?thesis using order mset_take_subset by metis
    qed
    ultimately show ?thesis
      using rest w1 Suc by (intro exI [of _ "r # take m rs"] exI [of _ st'] exI [of _ s'] exI [of _ w'])
        (simp del: push_peers.simps add: texts_append)
  qed
qed

text \<open>The part of \<open>track\<close> after the lookup of the torrent.\<close>

lemma answer_peers_spec:
  assumes "pton_lengths e" "cstr (ar_ip ar) = Some ip" "cstr (ar_peer_id ar) = Some pid"
    and "ar_numwant ar \<le> 50" "int_range iv"
  shows "\<exists>w'. answer_peers e q fd ar iv tid w = Some w' \<and>
    (tabs_w w' = tabs_w w \<and> events w' = events w @ [sent_event e fd ''d14:failure reason12:Server errore''] \<or>
     (\<exists>rs w1 r. length rs \<le> nat (ar_numwant ar) \<and>
        mset rs \<subseteq># mset (filter (\<lambda>p. p_torrent p = tid) (peers (tabs_w w))) \<and>
        tabs_w w1 = tabs_w w \<and> events w1 = events w @ map (sent_event e fd) (peers_pieces e ar iv (others ip pid rs)) \<and>
        updatePeer e q tid ar w1 = Some (r, w')))"
proof -
  obtain rc st w1 where p: "sqlite3_prepare_v2 q QUERY_TORRENT_PEERS w = (rc, st, w1)" by (metis prod_cases3)
  obtain rc2 st2 where b: "sq_bind_int q st 1 tid = (rc2, st2)" by fastforce
  note w1 = prepare_w' [OF p]
  consider "rc \<noteq> 0" | "rc = 0" "rc2 \<noteq> 0" | "rc = 0" "rc2 = 0" by blast
  then show ?thesis
  proof cases
    case 1
    with p w1 show ?thesis by (simp add: answer_peers_def sendString_lit log_event_def)
  next
    case 2
    with p b w1 show ?thesis by (simp add: answer_peers_def sendString_lit log_event_def)
  next
    case 3
    define t where "t = ''d8:intervali'' @ dec iv @ ''e5:peers'' @ (if ar_compact ar then [] else ''l'')"
    define buf where "buf = t @ NUL # drop (Suc (length t)) (uninit (os_stack e) 1024)"
    define s where "s = \<lparr>pb_buf = buf, pb_buf4 = uninit (os_stack e) 1024, pb_pos4 = 0,
             pb_buf6 = uninit (os_stack e) 1024, pb_pos6 = 0\<rparr>"
    define w2 where "w2 = w1\<lparr>events := events w1 @ [sent_event e fd t]\<rparr>"
    have len: "length t < 1023" using dec_length_le [OF assms(5)] by (simp add: t_def)
    have sn: "snprintf (uninit (os_stack e) 1024) 1023 t = Some (int (length t), buf)"
      unfolding buf_def by (rule snprintf_fits [OF len]) simp
    have send: "sendString e fd buf w1 = Some (to_int (os_send e fd t), w2)"
      unfolding buf_def w2_def by (subst sendString_eq) (auto simp: log_event_def t_def)
    have view: "view st2 = (fresh_stmt QUERY_TORRENT_PEERS)\<lparr>sv_args := (\<lambda>_. SNull)(Suc 0 := SInt tid)\<rparr>"
      using bind_int_ok [of st 1 tid st2] b w1 3 by simp
    have hold: "bufs_hold e ar [] s"
      using len by (simp add: bufs_hold_def list4_def list6_def s_def buf_def)
    have "nat (ar_numwant ar) \<le> 50" using assms(4) by simp
    from push_peers_spec [OF assms(1-3) hold this view, of fd w2] obtain rs st' s' w3
      where loop: "push_peers e q fd ar (nat (ar_numwant ar)) st2 s w2 = Some (st', s', w3)"
      and rs: "length rs \<le> nat (ar_numwant ar)" "mset rs \<subseteq># mset (filter (\<lambda>p. p_torrent p = tid) (peers (tabs_w w2)))"
      and s': "bufs_hold e ar (others ip pid rs) s'" and w3: "tabs_w w3 = tabs_w w2"
        "events w3 = events w2 @ map (sent_event e fd) (texts ar (others ip pid rs))"
      by blast
    have w2: "tabs_w w2 = tabs_w w" "events w2 = events w @ [sent_event e fd t]"
      using w1 by (simp_all add: w2_def)
    let ?w4 = "sqlite3_finalize q st' w3"
    let ?comp = "if ar_compact ar
      then (dec (int (length (list4 e ar (others ip pid rs)))) @ '':'' @ list4 e ar (others ip pid rs)) #
        (if list6 e ar (others ip pid rs) = [] then []
         else [''10:peers_ipv6'' @ dec (int (length (list6 e ar (others ip pid rs)))) @ '':'' @
           list6 e ar (others ip pid rs)])
      else []"
    have "length (others ip pid rs) \<le> 50"
      using rs(1) assms(4) length_others [of ip pid rs] by linarith
    from send_compact_spec [OF assms(1) _ s' this, of fd ?w4] obtain s5 where comp:
      "(if ar_compact ar then send_compact e fd s' ?w4 else Some (s', ?w4)) =
        Some (s5, ?w4\<lparr>events := events ?w4 @ map (sent_event e fd) ?comp\<rparr>)"
      by (cases "ar_compact ar") auto
    define w5 where "w5 = ?w4\<lparr>events := events ?w4 @ map (sent_event e fd) ?comp\<rparr>"
    define c where "c = (if ar_compact ar then ''e'' else ''ee'')"
    have close: "sendString e fd (lit c) w5 = Some (to_int (os_send e fd c), log_event (sent_event e fd c) w5)"
      by (rule sendString_lit) (simp add: c_def)
    obtain r w' where up: "updatePeer e q tid ar (log_event (sent_event e fd c) w5) = Some (r, w')"
      using updatePeer_returns [OF assms(3,2)] by blast
    have run: "answer_peers e q fd ar iv tid w = Some w'"
      using 3
      by (simp only: answer_peers_def p prod.case b SQLITE_OK_def simp_thms if_False t_def [symmetric] sn
          Option.bind.bind_lunit Let_def s_def [symmetric] send loop comp w5_def [symmetric] c_def [symmetric]
          close up)
    have ev: "events (log_event (sent_event e fd c) w5) = events w @ map (sent_event e fd) (peers_pieces e ar iv (others ip pid rs))"
      by (simp add: w3 w2 w5_def c_def log_event_def peers_pieces_def t_def)
    have tb: "tabs_w (log_event (sent_event e fd c) w5) = tabs_w w"
      by (simp add: w5_def w3 w2)
    show ?thesis
      using run ev tb up rs [unfolded w2] by blast
  qed
qed

end

section \<open>The whole handler\<close>

text \<open>What \<open>parseSocket\<close> passes: terminated strings, the array of the info hash in full.\<close>

definition announce_ok :: "announce \<Rightarrow> bool" where
  "announce_ok ar \<longleftrightarrow> length (ar_info_hash ar) = 61 \<and> NUL \<in> set (ar_info_hash ar) \<and>
     NUL \<in> set (ar_peer_id ar) \<and> NUL \<in> set (ar_ip ar) \<and> ar_numwant ar \<le> 50"

lemma cstr_iff_NUL: "NUL \<in> set p \<Longrightarrow> \<exists>s. cstr p = Some s"
  by (induction p) auto

lemma tolower_NUL: "tolower c = NUL \<Longrightarrow> c = NUL"
  by (auto simp: tolower_def Let_def char_of_eq_iff take_bit_eq_mod split: if_splits)

lemma strtolower_cstr:
  assumes "cstr p = Some s"
  obtains p' where "strtolower p = Some p'" "cstr p' = Some (map tolower s)"
  using assms tolower_NUL by (fastforce simp: cstr_eq_Some_iff strtolower_eq cstr_append)

text \<open>The hash that \<open>track\<close> looks up.\<close>

lemma info_hash_hex:
  assumes "length ih = 61" "cstr ih = Some s"
  obtains r b hx hex where "destructiveURLDecode ih = Some (r, b)" "hashEncodeHex stk b 60 = Some (0, hx)"
    "cstr hx = Some hex" "length hex = 40" "\<And>h. url_decode s = Some h \<Longrightarrow> length h = 20 \<Longrightarrow> hex = hex_encode h"
proof -
  from assms(2) obtain t where t: "ih = s @ NUL # t" "NUL \<notin> set s" by (auto simp: cstr_eq_Some_iff)
  obtain r b where d: "destructiveURLDecode ih = Some (r, b)" and len: "length b = 61"
    and h: "\<And>h. url_decode s = Some h \<Longrightarrow> take (length h) b = h"
    using destructiveURLDecode_decoded [OF t(2), of t] assms(1) t(1) url_decode_length [of s]
    by (cases "url_decode s") (auto simp: decoded_def)
  have e: "hashEncodeHex stk b 60 = Some (0, hex_encode (take 20 b) @ NUL # drop 41 b)"
    using len by (simp add: hashEncodeHex_eq)
  have "cstr (hex_encode (take 20 b) @ NUL # drop 41 b) = Some (hex_encode (take 20 b))"
    using hex.encoded_noNUL by (simp add: cstr_append hex_encode_def)
  moreover have "length (hex_encode (take 20 b)) = 40"
    using len by (simp add: length_hex_encode)
  moreover have "hex_encode (take 20 b) = hex_encode h" if "url_decode s = Some h" "length h = 20" for h
    using h [OF that(1)] that(2) by simp
  ultimately show ?thesis using d e that by blast
qed

text \<open>The texts of an answer without peers.\<close>

definition refusals :: "string list" where
  "refusals = [''d14:failure reason19:Hash not recognizede'', ''d14:failure reason20:Database error (TID)e'',
     ''d14:failure reason12:Server errore'']"

lemma refusals_sent:
  "sendString e fd (lit ''d14:failure reason19:Hash not recognizede'') w =
     Some (to_int (os_send e fd ''d14:failure reason19:Hash not recognizede''),
       log_event (sent_event e fd ''d14:failure reason19:Hash not recognizede'') w)"
  "sendString e fd (lit ''d14:failure reason20:Database error (TID)e'') w =
     Some (to_int (os_send e fd ''d14:failure reason20:Database error (TID)e''),
       log_event (sent_event e fd ''d14:failure reason20:Database error (TID)e'') w)"
  by (rule sendString_lit, simp)+

definition head_pieces :: "string \<Rightarrow> string list" where
  "head_pieces rc = [''HTTP/1.1 '', rc, crlf, STANDARD_HEADER, ''Content-type: text/plain'' @ crlf @
     ''Connection: close'' @ crlf @ ''Server: traccoon'' @ crlf @ crlf]"

lemma concat_head_pieces: "concat (head_pieces rc) = http_head rc STANDARD_HEADER"
  by (simp add: head_pieces_def http_head_def)

lemma head_eq:
  "NUL \<notin> set rc \<Longrightarrow> sendHttpHeaders e fd (lit rc) (lit STANDARD_HEADER) w =
     Some (0, w\<lparr>events := events w @ map (sent_event e fd) (head_pieces rc)\<rparr>)"
  by (subst sendHttpHeaders_eq) (simp_all add: STANDARD_HEADER_def head_pieces_def)

context sqlite_api
begin

lemma getTorrentId_total: "cstr hash = Some h \<Longrightarrow> \<exists>r w'. getTorrentId q hash w = Some (r, w')"
  by (auto simp: getTorrentId_def bind_or_fail_def split: prod.splits)

lemma track_spec:
  assumes "pton_lengths e" "announce_ok ar" "int_range iv"
    and "cstr (ar_info_hash ar) = Some ih" "cstr (ar_ip ar) = Some ip" "cstr (ar_peer_id ar) = Some pid"
  shows "\<exists>w' hex. track e q fd ar iv w = Some w' \<and> length hex = 40 \<and>
    (\<forall>h. url_decode ih = Some h \<longrightarrow> length h = 20 \<longrightarrow> hex = hex_encode h) \<and>
    ((\<exists>msg\<in>set refusals. tabs_w w' = tabs_w w \<and>
        events w' = events w @ map (sent_event e fd) (head_pieces ''200 OK'' @ [msg])) \<or>
     (\<exists>tid ar' rs w1 r. (odd_code q tid \<or> (\<exists>t\<in>set (torrents (tabs_w w)). t_hash t = hex \<and> tid = to_int (t_id t))) \<and>
        (\<exists>p i. ar' = ar\<lparr>ar_ip := p, ar_info_hash := i\<rparr> \<and> cstr p = Some (map tolower ip)) \<and>
        length rs \<le> nat (ar_numwant ar) \<and>
        mset rs \<subseteq># mset (filter (\<lambda>p. p_torrent p = tid) (peers (tabs_w w))) \<and>
        tabs_w w1 = tabs_w w \<and> events w1 = events w @ map (sent_event e fd)
          (head_pieces ''200 OK'' @ peers_pieces e ar iv (others (map tolower ip) pid rs)) \<and>
        updatePeer e q tid ar' w1 = Some (r, w')))"
proof -
  have len: "length (ar_info_hash ar) = 61" "ar_numwant ar \<le> 50" using assms(2) by (auto simp: announce_ok_def)
  obtain p where p: "strtolower (ar_ip ar) = Some p" "cstr p = Some (map tolower ip)"
    using strtolower_cstr [OF assms(5)] by blast
  obtain hl b hx hex where hx: "destructiveURLDecode (ar_info_hash ar) = Some (hl, b)"
    "hashEncodeHex (os_stack e) b 60 = Some (0, hx)" "cstr hx = Some hex" "length hex = 40"
    "\<And>h. url_decode ih = Some h \<Longrightarrow> length h = 20 \<Longrightarrow> hex = hex_encode h"
    using info_hash_hex [OF len(1) assms(4)] by metis
  define ar' where "ar' = ar\<lparr>ar_ip := p, ar_info_hash := hx\<rparr>"
  define w0 where "w0 = w\<lparr>events := events w @ map (sent_event e fd) (head_pieces ''200 OK'')\<rparr>"
  obtain tid w1 where tid: "getTorrentId q hx w0 = Some (tid, w1)"
    using getTorrentId_total [OF hx(3)] by blast
  from getTorrentId_spec [OF tid hx(3)] have w1: "tabs_w w1 = tabs_w w"
    "events w1 = events w @ map (sent_event e fd) (head_pieces ''200 OK'')"
    "tid = DB_FAILED \<or> odd_code q tid \<or> tid = DB_NOSUCHHASH \<or> (\<exists>t\<in>set (torrents (tabs_w w)). t_hash t = hex \<and> tid = to_int (t_id t))"
    using hd_in_set [of "filter (\<lambda>t. t_hash t = hex) (torrents (tabs_w w))"]
    by (auto simp: Let_def w0_def)
  have run: "track e q fd ar iv w =
      (if tid = DB_NOSUCHHASH then Some (log_event (sent_event e fd ''d14:failure reason19:Hash not recognizede'') w1)
       else if tid = DB_FAILED then Some (log_event (sent_event e fd ''d14:failure reason20:Database error (TID)e'') w1)
       else answer_peers e q fd ar' iv tid w1)"
    using p hx(1,2) tid
    by (simp add: track_def max_len_defs head_eq ar'_def w0_def [symmetric] sendString_lit)
  have ar': "cstr (ar_ip ar') = Some (map tolower ip)" "cstr (ar_peer_id ar') = Some pid" "ar_numwant ar' \<le> 50"
    using p assms(6) len(2) by (simp_all add: ar'_def)
  have changed: "\<exists>p i. ar' = ar\<lparr>ar_ip := p, ar_info_hash := i\<rparr> \<and> cstr p = Some (map tolower ip)"
    and numw: "ar_numwant ar' = ar_numwant ar"
    using p by (auto simp: ar'_def)
  have pieces: "peers_pieces e ar' iv rs = peers_pieces e ar iv rs" for rs
    by (simp add: ar'_def peers_pieces_def texts_def list4_def list6_def entry_text_def)
  consider "tid = DB_NOSUCHHASH" | "tid = DB_FAILED" "tid \<noteq> DB_NOSUCHHASH" | "tid \<noteq> DB_NOSUCHHASH" "tid \<noteq> DB_FAILED" by blast
  then show ?thesis
  proof cases
    case 1
    with run w1 hx show ?thesis by (simp add: refusals_def log_event_def) metis
  next
    case 2
    with run w1 hx show ?thesis by (simp add: refusals_def log_event_def) metis
  next
    case 3
    with w1(3) have tid': "odd_code q tid \<or> (\<exists>t\<in>set (torrents (tabs_w w)). t_hash t = hex \<and> tid = to_int (t_id t))" by simp
    from 3 run have run': "track e q fd ar iv w = answer_peers e q fd ar' iv tid w1" by simp
    from answer_peers_spec [OF assms(1) ar' assms(3), of fd tid w1] obtain w' where
      a: "answer_peers e q fd ar' iv tid w1 = Some w'" and outcome:
      "tabs_w w' = tabs_w w1 \<and> events w' = events w1 @ [sent_event e fd ''d14:failure reason12:Server errore''] \<or>
       (\<exists>rs w2 r. length rs \<le> nat (ar_numwant ar') \<and>
        mset rs \<subseteq># mset (filter (\<lambda>p. p_torrent p = tid) (peers (tabs_w w1))) \<and>
        tabs_w w2 = tabs_w w1 \<and> events w2 = events w1 @ map (sent_event e fd) (peers_pieces e ar' iv (others (map tolower ip) pid rs)) \<and>
        updatePeer e q tid ar' w2 = Some (r, w'))" by blast
    from outcome show ?thesis
    proof
      assume "tabs_w w' = tabs_w w1 \<and> events w' = events w1 @ [sent_event e fd ''d14:failure reason12:Server errore'']"
      with a run' w1 hx show ?thesis
        by (intro exI [of _ w'] exI [of _ hex] conjI disjI1 bexI [of _ "''d14:failure reason12:Server errore''"])
          (simp_all add: refusals_def)
    next
      assume "\<exists>rs w2 r. length rs \<le> nat (ar_numwant ar') \<and>
        mset rs \<subseteq># mset (filter (\<lambda>p. p_torrent p = tid) (peers (tabs_w w1))) \<and>
        tabs_w w2 = tabs_w w1 \<and> events w2 = events w1 @ map (sent_event e fd) (peers_pieces e ar' iv (others (map tolower ip) pid rs)) \<and>
        updatePeer e q tid ar' w2 = Some (r, w')"
      then obtain rs w2 r where "length rs \<le> nat (ar_numwant ar)"
        "mset rs \<subseteq># mset (filter (\<lambda>p. p_torrent p = tid) (peers (tabs_w w)))"
        "tabs_w w2 = tabs_w w" "events w2 = events w @ map (sent_event e fd)
          (head_pieces ''200 OK'' @ peers_pieces e ar iv (others (map tolower ip) pid rs))"
        "updatePeer e q tid ar' w2 = Some (r, w')" "\<exists>p i. ar' = ar\<lparr>ar_ip := p, ar_info_hash := i\<rparr> \<and> cstr p = Some (map tolower ip)"
        using w1(1,2) changed by (auto simp: pieces numw)
      then show ?thesis using a run' tid' hx(4,5) by metis
    qed
  qed
qed

end

text \<open>\<open>param_ok s tid T r\<close>: \<open>r\<close> is a result of \<open>queryTorrentParam\<close> on the tables \<open>T\<close>.\<close>

definition param_ok :: "('db, 'stmt) sqlite \<Rightarrow> sql \<Rightarrow> int \<Rightarrow> tables \<Rightarrow> int \<Rightarrow> bool" where
  "param_ok q s tid T r \<longleftrightarrow> r = DB_FAILED \<or> odd_code q r \<or>
     (\<exists>n ns. torrent_param s tid T = n # ns \<and> r = to_int n)"

definition scrape_text :: "string \<Rightarrow> int \<Rightarrow> int \<Rightarrow> int \<Rightarrow> string" where
  "scrape_text h seeds completed leechers =
     ''d5:files'' @ dec (to_int (int (length h))) @ '':'' @ h @ ''d8:completei'' @ dec seeds @
     ''e10:downloadedi'' @ dec completed @ ''e10:incompletei'' @ dec leechers @ ''eee''"

context sqlite_api
begin

lemma queryTorrentParam_total: "\<exists>r w'. queryTorrentParam q s tid w = Some (r, w')"
  by (auto simp: queryTorrentParam_def bind_or_fail_def split: prod.splits)

lemma queryTorrentParam_ok:
  assumes "queryTorrentParam q s tid w = Some (r, w')"
    and "s \<in> {GET_COMPLETION_COUNT, GET_SEED_COUNT, GET_PEERS_COUNT}"
  shows "param_ok q s tid (tabs_w w) r \<and> tabs_w w' = tabs_w w \<and> events w' = events w"
  using queryTorrentParam_spec [OF assms]
  by (cases "torrent_param s tid (tabs_w w)") (auto simp: param_ok_def Let_def)

lemma param_range: "param_ok q s tid T r \<Longrightarrow> int_range r"
  using step_code int_range_to_int by (auto simp: param_ok_def odd_code_def int_range_def)

lemma scrape_spec:
  assumes "cstr hash = Some h"
  shows "\<exists>w'. scrape e q fd (Some hash) w = Some w' \<and> tabs_w w' = tabs_w w \<and>
    ((\<exists>msg\<in>set refusals. events w' = events w @ map (sent_event e fd) (head_pieces ''200 OK'' @ [msg])) \<or>
     (\<exists>tid seeds completed leechers.
        (odd_code q tid \<or> (\<exists>t\<in>set (torrents (tabs_w w)). t_hash t = h \<and> tid = to_int (t_id t))) \<and>
        param_ok q GET_SEED_COUNT tid (tabs_w w) seeds \<and> param_ok q GET_COMPLETION_COUNT tid (tabs_w w) completed \<and>
        param_ok q GET_PEERS_COUNT tid (tabs_w w) leechers \<and>
        events w' = events w @ map (sent_event e fd)
          (head_pieces ''200 OK'' @ [take 510 (scrape_text h seeds completed leechers)])))"
proof -
  define w0 where "w0 = w\<lparr>events := events w @ map (sent_event e fd) (head_pieces ''200 OK'')\<rparr>"
  obtain tid w1 where tid: "getTorrentId q hash w0 = Some (tid, w1)"
    using getTorrentId_total [OF assms] by blast
  obtain a w2 where a: "queryTorrentParam q GET_SEED_COUNT tid w1 = Some (a, w2)"
    using queryTorrentParam_total by blast
  obtain b w3 where b: "queryTorrentParam q GET_COMPLETION_COUNT tid w2 = Some (b, w3)"
    using queryTorrentParam_total by blast
  obtain c w4 where c: "queryTorrentParam q GET_PEERS_COUNT tid w3 = Some (c, w4)"
    using queryTorrentParam_total by blast
  from getTorrentId_spec [OF tid assms] have w1: "tabs_w w1 = tabs_w w"
    "events w1 = events w @ map (sent_event e fd) (head_pieces ''200 OK'')"
    "tid = DB_FAILED \<or> odd_code q tid \<or> tid = DB_NOSUCHHASH \<or> (\<exists>t\<in>set (torrents (tabs_w w)). t_hash t = h \<and> tid = to_int (t_id t))"
    using hd_in_set [of "filter (\<lambda>t. t_hash t = h) (torrents (tabs_w w))"]
    by (auto simp: Let_def w0_def)
  note params = queryTorrentParam_ok [OF a] queryTorrentParam_ok [OF b] queryTorrentParam_ok [OF c]
  let ?t = "take 510 (scrape_text h a b c)"
  have noNUL: "NUL \<notin> set ?t"
    using cstr_noNUL [OF assms] by (auto simp: scrape_text_def dest: in_set_takeD)
  have sn: "snprintf (uninit (os_stack e) 512) 511 (scrape_text h a b c) =
      Some (int (length (scrape_text h a b c)), ?t @ NUL # drop (Suc (min 510 (length (scrape_text h a b c)))) (uninit (os_stack e) 512))"
    by (simp add: snprintf_Some)
  have run: "scrape e q fd (Some hash) w =
      (if tid = DB_NOSUCHHASH then Some (log_event (sent_event e fd ''d14:failure reason19:Hash not recognizede'') w1)
       else if tid = DB_FAILED then Some (log_event (sent_event e fd ''d14:failure reason20:Database error (TID)e'') w1)
       else Some (log_event (sent_event e fd ?t) w4))"
    by (simp only: scrape_def option.case head_eq [where rc = "''200 OK''", simplified] w0_def [symmetric] Option.bind.bind_lunit
        prod.case tid a b c assms scrape_text_def [symmetric] sn sendString_eq [OF noNUL] refusals_sent)
  consider "tid = DB_NOSUCHHASH" | "tid = DB_FAILED" "tid \<noteq> DB_NOSUCHHASH" | "tid \<noteq> DB_NOSUCHHASH" "tid \<noteq> DB_FAILED" by blast
  then show ?thesis
  proof cases
    case 1
    with run w1 show ?thesis by (simp add: refusals_def log_event_def)
  next
    case 2
    with run w1 show ?thesis by (simp add: refusals_def log_event_def)
  next
    case 3
    let ?w' = "log_event (sent_event e fd ?t) w4"
    from 3 run have "scrape e q fd (Some hash) w = Some ?w'" by simp
    moreover have "tabs_w ?w' = tabs_w w" "events ?w' = events w @ map (sent_event e fd) (head_pieces ''200 OK'' @ [?t])"
      using params w1 by (simp_all add: log_event_def)
    moreover have "odd_code q tid \<or> (\<exists>t\<in>set (torrents (tabs_w w)). t_hash t = h \<and> tid = to_int (t_id t))"
      using 3 w1(3) by blast
    moreover have "param_ok q GET_SEED_COUNT tid (tabs_w w) a" "param_ok q GET_COMPLETION_COUNT tid (tabs_w w) b"
      "param_ok q GET_PEERS_COUNT tid (tabs_w w) c"
      using params w1 by simp_all
    ultimately show ?thesis by blast
  qed
qed

lemma scrape_tables: "scrape e q fd hash w = Some w' \<Longrightarrow> tabs_w w' = tabs_w w"
proof (cases hash)
  case None
  then show "scrape e q fd hash w = Some w' \<Longrightarrow> tabs_w w' = tabs_w w"
    by (auto simp: scrape_def head_eq)
next
  case (Some p)
  assume r: "scrape e q fd hash w = Some w'"
  show "tabs_w w' = tabs_w w"
  proof (cases "cstr p")
    case None
    from r show ?thesis
      by (auto simp: Some scrape_def head_eq getTorrentId_def None refusals_sent log_event_def elim!: bind_SomeE
          dest!: prepare_w' split: prod.split_asm if_split_asm)
  next
    case (Some h)
    with scrape_spec [OF Some, of e fd w] r \<open>hash = _\<close> show ?thesis by auto
  qed
qed

lemma track_peers_ok:
  assumes "pton_lengths e" "announce_ok ar" "int_range iv" "track e q fd ar iv w = Some w'" "peers_ok (tabs_w w)"
  shows "peers_ok (tabs_w w')"
proof -
  obtain ih ip pid where s: "cstr (ar_info_hash ar) = Some ih" "cstr (ar_ip ar) = Some ip" "cstr (ar_peer_id ar) = Some pid"
    using assms(2) cstr_iff_NUL unfolding announce_ok_def by metis
  from track_spec [OF assms(1-3) s, of fd w] assms(4) consider "tabs_w w' = tabs_w w"
    | tid ar' w1 r where "tabs_w w1 = tabs_w w" "updatePeer e q tid ar' w1 = Some (r, w')"
        "cstr (ar_ip ar') = Some (map tolower ip)" "cstr (ar_peer_id ar') = Some pid"
    using s(3) by fastforce
  then show ?thesis
  proof cases
    case 2
    from updatePeer_spec [OF 2(2,4,3)] 2(1) assms(5) show ?thesis
      by (auto simp: Let_def intro!: peers_ok_refresh peers_ok_register)
  qed (use assms(5) in simp)
qed

end

section \<open>No statement stays open\<close>

context sqlite_handles
begin

lemma sendString_opened: "sendString e fd p w = Some (r, w') \<Longrightarrow> wdb w' = wdb w"
  by (auto simp: sendString_def reallySend_def Let_def elim!: bind_SomeE)

lemma reallySend_opened: "reallySend e fd p n w = Some (r, w') \<Longrightarrow> wdb w' = wdb w"
  by (auto simp: reallySend_def Let_def elim!: bind_SomeE)

lemma sendHttpHeaders_opened: "sendHttpHeaders e fd p h w = Some (r, w') \<Longrightarrow> wdb w' = wdb w"
  by (auto simp: sendHttpHeaders_def elim!: bind_SomeE dest!: sendString_opened)

lemma push_peer_opened: "push_peer e fd ar ip pid port proto s w = Some (s', w') \<Longrightarrow> wdb w' = wdb w"
  by (auto simp: push_peer_def elim!: bind_SomeE dest!: sendString_opened split: if_split_asm option.split_asm)

lemma push_peers_opened: "push_peers e q fd ar n st s w = Some (st', s', w') \<Longrightarrow> opened_w w' = opened_w w"
proof (induction n arbitrary: st s w)
  case (Suc n)
  obtain rc st1 w1 where st: "sqlite3_step q st w = (rc, st1, w1)" by (metis prod_cases3)
  with Suc.prems Suc.IH step_opened_w [OF st] show ?case
    by (auto elim!: bind_SomeE dest!: push_peer_opened split: if_split_asm)
qed simp

lemma send_compact_opened: "send_compact e fd s w = Some (s', w') \<Longrightarrow> wdb w' = wdb w"
  by (auto simp: send_compact_def elim!: bind_SomeE dest!: reallySend_opened split: if_split_asm)

lemma answer_peers_opened: "answer_peers e q fd ar iv tid w = Some w' \<Longrightarrow> opened_w w' = opened_w w"
  by (auto simp: answer_peers_def Let_def elim!: bind_SomeE
      dest!: prepare_opened_w sendString_opened push_peers_opened send_compact_opened updatePeer_opened
      split: prod.split_asm if_split_asm)

lemma track_opened: "track e q fd ar iv w = Some w' \<Longrightarrow> opened_w w' = opened_w w"
  by (auto simp: track_def Let_def elim!: bind_SomeE
      dest!: sendHttpHeaders_opened sendString_opened getTorrentId_opened answer_peers_opened split: if_split_asm)

lemma scrape_opened: "scrape e q fd hash w = Some w' \<Longrightarrow> opened_w w' = opened_w w"
  by (auto simp: scrape_def elim!: bind_SomeE
      dest!: sendHttpHeaders_opened sendString_opened getTorrentId_opened queryTorrentParam_opened
      split: if_split_asm option.split_asm)

end

section \<open>Properties\<close>

lemma peers_complete_if [simp]: "peers (complete_if ev tid T) = peers T"
  by (simp add: complete_if_def bump_torrent_def)

lemma received_sent_events:
  assumes "full_send e" "events w' = events w @ map (sent_event e fd) ss"
  shows "received fd w' = received fd w @ concat ss"
  using assms by (simp add: received_def sent_bytes_sent_events)


lemma track_sends:
  assumes "sqlite_api q opened tabs view" "pton_lengths e" "announce_ok ar" "int_range iv" "full_send e"
    and "cstr (ar_info_hash ar) = Some ih" "cstr (ar_ip ar) = Some ip" "cstr (ar_peer_id ar) = Some pid"
    and "url_decode ih = Some h" "length h = 20" "track e q fd ar iv w = Some w'"
  shows "(\<exists>msg\<in>set refusals. tabs (wdb w') = tabs (wdb w) \<and>
        received fd w' = received fd w @ http_head ''200 OK'' STANDARD_HEADER @ msg) \<or>
     (\<exists>tid rs. (odd_code q tid \<or>
          (\<exists>t\<in>set (torrents (tabs (wdb w))). t_hash t = hex_encode h \<and> tid = to_int (t_id t))) \<and>
        length rs \<le> nat (ar_numwant ar) \<and>
        mset rs \<subseteq># mset (filter (\<lambda>p. p_torrent p = tid) (peers (tabs (wdb w)))) \<and>
        received fd w' = received fd w @ http_head ''200 OK'' STANDARD_HEADER @
          concat (peers_pieces e ar iv (others (map tolower ip) pid rs)))"
proof -
  from sqlite_api.track_spec [OF assms(1-4,6-8), of fd w] assms(9-11) have
    "(\<exists>msg\<in>set refusals. tabs (wdb w') = tabs (wdb w) \<and>
        events w' = events w @ map (sent_event e fd) (head_pieces ''200 OK'' @ [msg])) \<or>
     (\<exists>tid ar' rs w1 r. (odd_code q tid \<or>
          (\<exists>t\<in>set (torrents (tabs (wdb w))). t_hash t = hex_encode h \<and> tid = to_int (t_id t))) \<and>
        (\<exists>p i. ar' = ar\<lparr>ar_ip := p, ar_info_hash := i\<rparr> \<and> cstr p = Some (map tolower ip)) \<and>
        length rs \<le> nat (ar_numwant ar) \<and>
        mset rs \<subseteq># mset (filter (\<lambda>p. p_torrent p = tid) (peers (tabs (wdb w)))) \<and>
        tabs (wdb w1) = tabs (wdb w) \<and> events w1 = events w @ map (sent_event e fd)
          (head_pieces ''200 OK'' @ peers_pieces e ar iv (others (map tolower ip) pid rs)) \<and>
        updatePeer e q tid ar' w1 = Some (r, w'))" (is "?A \<or> ?B") by auto
  then show ?thesis
  proof
    assume ?A
    then obtain msg where "msg \<in> set refusals" "tabs (wdb w') = tabs (wdb w)"
      "events w' = events w @ map (sent_event e fd) (head_pieces ''200 OK'' @ [msg])" by blast
    with received_sent_events [OF assms(5) this(3)] show ?thesis by (auto simp: concat_head_pieces)
  next
    assume ?B
    then obtain tid ar' rs w1 r p i where b: "odd_code q tid \<or>
          (\<exists>t\<in>set (torrents (tabs (wdb w))). t_hash t = hex_encode h \<and> tid = to_int (t_id t))"
      "length rs \<le> nat (ar_numwant ar)"
      "mset rs \<subseteq># mset (filter (\<lambda>p. p_torrent p = tid) (peers (tabs (wdb w))))"
      and ev: "events w1 = events w @ map (sent_event e fd)
          (head_pieces ''200 OK'' @ peers_pieces e ar iv (others (map tolower ip) pid rs))"
      and up: "updatePeer e q tid ar' w1 = Some (r, w')"
      and ar': "ar' = ar\<lparr>ar_ip := p, ar_info_hash := i\<rparr>" "cstr p = Some (map tolower ip)" by blast
    have "events w' = events w1"
      using sqlite_api.updatePeer_spec [OF assms(1) up, of pid "map tolower ip"] assms(8) ar' by simp
    with ev have "received fd w' = received fd w @ concat
          (head_pieces ''200 OK'' @ peers_pieces e ar iv (others (map tolower ip) pid rs))"
      using received_sent_events [OF assms(5)] by metis
    with b show ?thesis by (auto simp: concat_head_pieces)
  qed
qed

text \<open>
  C9: The answer to an announce. When \<open>send\<close> takes what it is given, the client receives the HTTP
  header followed either by one of three failure texts, and then the tables are as before, or by a
  peer list. The list is for the torrent whose stored hash is the hex form of the decoded info hash
  (or for a step code taken for an id); it has at most \<open>numwant\<close> entries, made from different rows
  of that torrent; and the row with the client's own address and peer id is never in it.
\<close>

theorem track_answers:
  assumes "sqlite_api q opened tabs view" "pton_lengths e" "announce_ok ar" "int_range iv" "full_send e"
    and "cstr (ar_info_hash ar) = Some ih" "cstr (ar_ip ar) = Some ip" "cstr (ar_peer_id ar) = Some pid"
    and "url_decode ih = Some h" "length h = 20" "track e q fd ar iv w = Some w'"
  shows "(\<exists>msg\<in>set refusals. tabs (wdb w') = tabs (wdb w) \<and>
        received fd w' = received fd w @ http_head ''200 OK'' STANDARD_HEADER @ msg) \<or>
     (\<exists>tid rs. (odd_code q tid \<or>
          (\<exists>t\<in>set (torrents (tabs (wdb w))). t_hash t = hex_encode h \<and> tid = to_int (t_id t))) \<and>
        length rs \<le> nat (ar_numwant ar) \<and>
        mset rs \<subseteq># mset (filter (\<lambda>p. p_torrent p = tid) (peers (tabs (wdb w)))) \<and>
        received fd w' = received fd w @ http_head ''200 OK'' STANDARD_HEADER @
          concat (peers_pieces e ar iv (others (map tolower ip) pid rs)))"
  by (rule track_sends [OF assms])


text \<open>
  C26: The answer to a scrape of a torrent. The tables are unchanged, and the client receives the
  HTTP header and then a refusal or the counts of the torrent with this hash: the peers with
  nothing left, the completed downloads, the peers with something left, each of them \<open>DB_FAILED\<close>
  or a step code if its query fails. The text is never cut off for a hash of up to 60 characters.
\<close>

theorem scrape_answers:
  assumes "sqlite_api q opened tabs view" "full_send e" "cstr hash = Some h" "length h \<le> 60"
    and "scrape e q fd (Some hash) w = Some w'"
  shows "tabs (wdb w') = tabs (wdb w) \<and>
    ((\<exists>msg\<in>set refusals. received fd w' = received fd w @ http_head ''200 OK'' STANDARD_HEADER @ msg) \<or>
     (\<exists>tid seeds completed leechers.
        (odd_code q tid \<or> (\<exists>t\<in>set (torrents (tabs (wdb w))). t_hash t = h \<and> tid = to_int (t_id t))) \<and>
        param_ok q GET_SEED_COUNT tid (tabs (wdb w)) seeds \<and>
        param_ok q GET_COMPLETION_COUNT tid (tabs (wdb w)) completed \<and>
        param_ok q GET_PEERS_COUNT tid (tabs (wdb w)) leechers \<and>
        received fd w' = received fd w @ http_head ''200 OK'' STANDARD_HEADER @
          scrape_text h seeds completed leechers))"
proof -
  have short: "take 510 (scrape_text h a b c) = scrape_text h a b c"
    if "param_ok q s1 tid (tabs (wdb w)) a" "param_ok q s2 tid (tabs (wdb w)) b" "param_ok q s3 tid (tabs (wdb w)) c"
    for s1 s2 s3 a b c tid
  proof -
    have "length (dec (to_int (int (length h)))) \<le> 11" by (rule dec_length_le [OF int_range_to_int])
    moreover have "length (dec a) \<le> 11" "length (dec b) \<le> 11" "length (dec c) \<le> 11"
      using that sqlite_api.param_range [OF assms(1)] dec_length_le by blast+
    ultimately show ?thesis using assms(4) by (simp add: scrape_text_def)
  qed
  from sqlite_api.scrape_spec [OF assms(1,3), of e fd w] assms(5) have "tabs (wdb w') = tabs (wdb w)" and
    "(\<exists>msg\<in>set refusals. events w' = events w @ map (sent_event e fd) (head_pieces ''200 OK'' @ [msg])) \<or>
     (\<exists>tid seeds completed leechers.
        (odd_code q tid \<or> (\<exists>t\<in>set (torrents (tabs (wdb w))). t_hash t = h \<and> tid = to_int (t_id t))) \<and>
        param_ok q GET_SEED_COUNT tid (tabs (wdb w)) seeds \<and> param_ok q GET_COMPLETION_COUNT tid (tabs (wdb w)) completed \<and>
        param_ok q GET_PEERS_COUNT tid (tabs (wdb w)) leechers \<and>
        events w' = events w @ map (sent_event e fd)
          (head_pieces ''200 OK'' @ [take 510 (scrape_text h seeds completed leechers)]))" (is "?A \<or> ?B") by auto
  moreover have ?thesis if "tabs (wdb w') = tabs (wdb w)" ?A
  proof -
    from that(2) obtain msg where msg: "msg \<in> set refusals"
      "events w' = events w @ map (sent_event e fd) (head_pieces ''200 OK'' @ [msg])" by blast
    have "received fd w' = received fd w @ http_head ''200 OK'' STANDARD_HEADER @ msg"
      using received_sent_events [OF assms(2) msg(2)] by (simp add: concat_head_pieces)
    with msg(1) that(1) show ?thesis by blast
  qed
  moreover have ?thesis if "tabs (wdb w') = tabs (wdb w)" ?B
  proof -
    from that(2) obtain tid a b c where x:
      "odd_code q tid \<or> (\<exists>t\<in>set (torrents (tabs (wdb w))). t_hash t = h \<and> tid = to_int (t_id t))"
      "param_ok q GET_SEED_COUNT tid (tabs (wdb w)) a" "param_ok q GET_COMPLETION_COUNT tid (tabs (wdb w)) b"
      "param_ok q GET_PEERS_COUNT tid (tabs (wdb w)) c"
      "events w' = events w @ map (sent_event e fd) (head_pieces ''200 OK'' @ [scrape_text h a b c])"
      using short by metis
    have "received fd w' = received fd w @ http_head ''200 OK'' STANDARD_HEADER @ scrape_text h a b c"
      using received_sent_events [OF assms(2) x(5)] by (simp add: concat_head_pieces)
    with x that(1) show ?thesis by blast
  qed
  ultimately show ?thesis by blast
qed

text \<open>A torrent with one other peer, and an announce for it.\<close>

definition swarm_hash :: string where
  "swarm_hash = ''aaaaaaaaaaaaaaaaaaaa''"

definition swarm_db :: mem_db where
  "swarm_db = no_peers_db\<lparr>m_tabs := \<lparr>
     torrents = [\<lparr>t_id = 7, t_hash = hex_encode swarm_hash, t_downloaded = 3\<rparr>],
     peers = [\<lparr>p_id = 1, p_torrent = 7, p_peer_id = ''q'', p_ip = ''1.2.3.4'', p_port = 258,
       p_protover = 4, p_left = 5, p_status = Some 1, p_expires = 0\<rparr>], peers_seq = 2\<rparr>\<rparr>"

definition swarm_os :: os where
  "swarm_os = sample_os\<lparr>os_pton4 := (\<lambda>_. Some ''abcd''), os_pton6 := (\<lambda>_. None)\<rparr>"

definition swarm_announce :: announce where
  "swarm_announce = sample_announce\<lparr>ar_info_hash := swarm_hash @ replicate 41 NUL\<rparr>"

lemma swarm_facts:
  "pton_lengths swarm_os" "full_send swarm_os" "announce_ok swarm_announce"
  "cstr (ar_info_hash swarm_announce) = Some swarm_hash" "cstr (ar_ip swarm_announce) = Some ''1.2.3.4''"
  "cstr (ar_peer_id swarm_announce) = Some ''p''" "length swarm_hash = 20"
  "peers_ok (m_tabs (wdb (sample_world swarm_db)))" "peers_seq (m_tabs (wdb (sample_world swarm_db))) < 2 ^ 31"
proof -
  show "pton_lengths swarm_os" "full_send swarm_os"
    by (simp_all add: pton_lengths_def full_send_def swarm_os_def sample_os_def)
qed code_simp+

lemma swarm_hash_decodes: "url_decode swarm_hash = Some swarm_hash"
  by (simp add: swarm_hash_def url_decode_plain)

lemma swarm_track:
  obtains w' where "track swarm_os mem_sqlite 5 swarm_announce 300 (sample_world swarm_db) = Some w'"
  using mem.track_spec [OF swarm_facts(1,3) _ swarm_facts(4-6), of 300 5 "sample_world swarm_db"]
  by (auto simp: int_range_def)


theorem track_answers_witness:
  "\<exists>w'. track swarm_os mem_sqlite 5 swarm_announce 300 (sample_world swarm_db) = Some w' \<and>
     ((\<exists>msg\<in>set refusals. received 5 w' = http_head ''200 OK'' STANDARD_HEADER @ msg) \<or>
      (\<exists>rs. mset rs \<subseteq># mset (peers (m_tabs swarm_db)) \<and>
        received 5 w' = http_head ''200 OK'' STANDARD_HEADER @
          concat (peers_pieces swarm_os swarm_announce 300 (others (map tolower ''1.2.3.4'') ''p'' rs))))"
proof -
  let ?w = "sample_world swarm_db"
  obtain w' where w': "track swarm_os mem_sqlite 5 swarm_announce 300 ?w = Some w'" by (rule swarm_track)
  have iv: "int_range 300" by (simp add: int_range_def)
  have emp: "received 5 ?w = []" by (simp add: received_def sample_world_def)
  have sub: "mset rs \<subseteq># mset (peers (m_tabs swarm_db))"
    if "mset rs \<subseteq># mset (filter P (peers (m_tabs (wdb ?w))))" for rs P
    using that subset_mset.order_trans by (fastforce simp: sample_world_def)
  from track_answers [OF mem.sqlite_api_axioms swarm_facts(1,3) iv swarm_facts(2,4-6) swarm_hash_decodes
      swarm_facts(7) w'] emp sub w'
  show ?thesis by (metis append_Nil)
qed


theorem scrape_answers_witness:
  "\<exists>w'. scrape sample_os mem_sqlite 5 (Some (lit ''h'')) (sample_world no_peers_db) = Some w' \<and>
     m_tabs (wdb w') = m_tabs no_peers_db"
proof -
  let ?w = "sample_world no_peers_db"
  have h: "cstr (lit ''h'') = Some ''h''" by code_simp
  obtain w' where w': "scrape sample_os mem_sqlite 5 (Some (lit ''h'')) ?w = Some w'"
    using mem.scrape_spec [OF h, of sample_os 5 ?w] by auto
  have "full_send sample_os" by (simp add: full_send_def sample_os_def)
  from scrape_answers [OF mem.sqlite_api_axioms this h _ w'] w' show ?thesis by (simp add: sample_world_def)
qed

end
