(* ===== verification/Track_Benc.thy ===== *)
theory Track_Benc
  imports Track_Spec Benc_Spec "HOL-Library.Char_ord" "HOL-Library.List_Lexorder"
begin

text \<open>
  The tracker's answers as bencode: the reader of \<^verbatim>\<open>src/benc/benc.c\<close>, which the client of the same
  repository uses, on what \<^verbatim>\<open>src/track.c\<close> sends.
\<close>

definition entry_value :: "announce \<Rightarrow> peer_row \<Rightarrow> benc" where
  "entry_value ar p = BDict ((''ip'', BStr (ctext (p_ip p))) # (''port'', BInt (to_int (p_port p))) #
     (if ar_no_peer_id ar then [] else [(''peer id'', BStr (ctext (p_peer_id p)))]))"

definition peers_value :: "os \<Rightarrow> announce \<Rightarrow> int \<Rightarrow> peer_row list \<Rightarrow> (string \<times> benc) list" where
  "peers_value e ar interval ps = (''interval'', BInt interval) #
     (if ar_compact ar
      then (''peers'', BStr (list4 e ar ps)) #
        (if list6 e ar ps = [] then [] else [(''peers_ipv6'', BStr (list6 e ar ps))])
      else [(''peers'', BList (map (entry_value ar) ps))])"

lemma dec_nat_small: "dec_nat 1 = ''1''" "dec_nat 2 = ''2''" "dec_nat 4 = ''4''" "dec_nat 5 = ''5''" "dec_nat 7 = ''7''" "dec_nat 8 = ''8''"
  "dec_nat 10 = ''10''" "dec_nat 14 = ''14''" "dec_nat 12 = ''12''" "dec_nat 19 = ''19''" "dec_nat 20 = ''20''"
  by (simp_all add: dec_nat.simps, code_simp+)

lemmas dec_nat_keys = dec_nat_small [simplified eval_nat_numeral BitM.simps]

lemma bstring_text: "int (length s) < 2 ^ 31 \<Longrightarrow> bstring s = benc_text (BStr s)"
  by (simp add: bstring_def to_int_id int_range_def dec_def)

lemma entry_value_text:
  assumes "length (entry_text ar p) < 2 ^ 31"
  shows "benc_text (entry_value ar p) = entry_text ar p"
proof -
  have "int (length (ctext (p_ip p))) < 2 ^ 31" using assms by (simp add: entry_text_def bstring_def split: if_splits)
  moreover have "\<not> ar_no_peer_id ar \<Longrightarrow> int (length (ctext (p_peer_id p))) < 2 ^ 31"
    using assms by (simp add: entry_text_def bstring_def split: if_splits)
  ultimately show ?thesis
    by (simp add: entry_text_def entry_value_def bstring_text dec_nat_keys)
qed

lemma peers_value_text:
  assumes "\<forall>p\<in>set ps. length (entry_text ar p) \<le> 1022"
  shows "benc_text (BDict (peers_value e ar iv ps)) = concat (peers_pieces e ar iv ps)"
proof (cases "ar_compact ar")
  case True
  then show ?thesis by (simp add: peers_value_def peers_pieces_def texts_def dec_nat_keys dec_def)
next
  case False
  have "map benc_text (map (entry_value ar) ps) = texts ar ps"
    using False assms entry_value_text by (fastforce simp: texts_def)
  with False show ?thesis by (simp add: peers_value_def peers_pieces_def dec_nat_keys comp_def)
qed

lemma refusal_text:
  assumes "msg \<in> set refusals"
  shows "\<exists>reason. msg = benc_text (BDict [(''failure reason'', BStr reason)])"
proof -
  have "''d14:failure reason19:Hash not recognizede'' = benc_text (BDict [(''failure reason'', BStr ''Hash not recognized'')])"
    "''d14:failure reason20:Database error (TID)e'' = benc_text (BDict [(''failure reason'', BStr ''Database error (TID)'')])"
    "''d14:failure reason12:Server errore'' = benc_text (BDict [(''failure reason'', BStr ''Server error'')])"
    by code_simp+
  moreover have "msg = ''d14:failure reason19:Hash not recognizede'' \<or> msg = ''d14:failure reason20:Database error (TID)e'' \<or>
      msg = ''d14:failure reason12:Server errore''"
    using assms unfolding refusals_def by simp
  ultimately show ?thesis by metis
qed

section \<open>Properties\<close>


text \<open>the answer to a scrape is not bencode: the value of the key \<open>files\<close> is the hash, where a
  dictionary belongs, and the next key is a dictionary, where a string belongs. The repository's
  reader rejects it for every torrent and every count.\<close>

theorem scrape_answer_not_bencode:
  assumes "int (length h) < 2 ^ 31 - 20"
  shows "benc_entity_length (n + 4) (scrape_text h seeds completed leechers @ r) 0 = Some (-1)"
proof -
  let ?kt = "dec_nat (length ''files'') @ '':'' @ ''files''" and ?ht = "dec_nat (length h) @ '':'' @ h"
  define rest where "rest = ''8:completei'' @ dec seeds @ ''e10:downloadedi'' @ dec completed @ ''e10:incompletei'' @
     dec leechers @ ''eee'' @ r"
  define b where "b = scrape_text h seeds completed leechers @ r"
  have kt: "?kt = ''5:files''" by (simp add: dec_nat_keys)
  have len: "length (dec_nat (length h)) \<le> 10" using assms by (intro dec_nat_length_le) auto
  have "dec (to_int (int (length h))) = dec_nat (length h)" using assms by (simp add: to_int_id int_range_def dec_def)
  then have b: "b = [] @ CHR ''d'' # ''5:files'' @ ?ht @ CHR ''d'' # rest"
    by (simp add: b_def scrape_text_def rest_def)
  have t0: "benc_entity_type b 0 = Some T_DICT" by (simp add: b benc_entity_type_def rdi_def rd_def)
  have c0: "rdi b (0 + 0 + 1) = Some CHR ''5''" by (simp add: b rdi_def rd_def)
  have tk: "benc_entity_type b (0 + 0 + 1) = Some T_STRING"
    using type_string [of "0 + 0 + 1" "''d''" 5 "''files'' @ ?ht @ CHR ''d'' # rest"] by (simp add: b dec_nat_small)
  have lk: "string_entity_length b (0 + 0 + 1) = Some 7"
    using string_length_at [of "0 + 0 + 1" "''d''" "''files''" "?ht @ CHR ''d'' # rest"] by (simp add: b dec_nat_keys)
  obtain x xs where x: "dec_nat (length h) = x # xs" "isdigit x" by (rule dec_nat_Cons)
  have c1: "rdi b (0 + 7 + 1) = Some x" using rdi_at [of "0 + 7 + 1" "''d5:files''" x "xs @ '':'' @ h @ CHR ''d'' # rest"] by (simp add: b x)
  have th: "benc_entity_type b (0 + 7 + 1) = Some T_STRING"
    using type_string [of "0 + 7 + 1" "''d5:files''" "length h" "h @ CHR ''d'' # rest"] by (simp add: b)
  define l where "l = int (length (dec_nat (length h))) + int (length h) + 1"
  have lh: "string_entity_length b (0 + 7 + 1) = Some l"
    using string_length_at [of "0 + 7 + 1" "''d5:files''" h "CHR ''d'' # rest"] len assms by (simp add: b l_def)
  have pos: "0 + (7 + l) + 1 = int (length (''d5:files'' @ ?ht))" by (simp add: l_def)
  have c2: "rdi b (0 + (7 + l) + 1) = Some CHR ''d''" "benc_entity_type b (0 + (7 + l) + 1) = Some T_DICT"
    using rdi_at [OF pos, of "CHR ''d''" rest] by (simp_all add: b benc_entity_type_def)
  have add: "int_add 0 7 = Some 7" "int_add 7 l = Some (7 + l)" "int_add 0 1 = Some 1" "int_add 1 1 = Some 2"
    using len assms by (simp_all add: int_add_def int_range_def l_def)
  have l1: "l \<noteq> -1" by (simp add: l_def)
  have "dict_length (Suc n) b 0 (7 + l) 2 = Some (-1)" using c2 by simp
  then have "dict_length (Suc (Suc n)) b 0 7 1 = Some (-1)"
    using c1 th lh l1 add isdigit_not [OF x(2)] by simp
  then have "dict_length (Suc (Suc (Suc n))) b 0 0 0 = Some (-1)"
    using c0 tk lk add by simp
  then have "benc_entity_length (Suc (Suc (Suc (Suc n)))) b 0 = Some (-1)" using t0 by simp
  then show ?thesis by (simp add: b_def eval_nat_numeral)
qed

text \<open>bencode wants the keys of a dictionary in ascending order. The answer keeps to it, but not the entry of a peer
  with its peer id.\<close>

theorem peer_keys_unsorted:
  "sorted (map fst (peers_value e ar iv ps)) \<and>
   (\<exists>kvs. entry_value ar p = BDict kvs \<and> (sorted (map fst kvs) \<longleftrightarrow> ar_no_peer_id ar))"
  by (auto simp: peers_value_def entry_value_def less_eq_char_def)

section \<open>Witnesses\<close>


theorem scrape_answer_not_bencode_witness:
  "benc_entity_length 4 (scrape_text ''ab'' 1 2 3 @ [NUL]) 0 = Some (-1)"
  using scrape_answer_not_bencode [of "''ab''" 0 1 2 3 "[NUL]"] by simp

end
