(* ===== verification/Getpeers_Spec.thy ===== *)
theory Getpeers_Spec
  imports Getpeers Netlib_Spec Torrentfile_Spec Track_Benc
begin

text \<open>
  What the getpeers tool prints, against a printer of bencoded values; and the tool with the tracker of
  the same repository: it prints the peers that the tracker sends.
\<close>

section \<open>A printer of values\<close>

definition number_text :: "(string \<times> benc) list \<Rightarrow> string \<Rightarrow> string \<Rightarrow> string \<Rightarrow> string \<Rightarrow> string" where
  "number_text kvs key before after absent =
     (case map_of kvs key of None \<Rightarrow> absent | Some v \<Rightarrow> before @ dec (shown v) @ after)"

fun bytes_of :: "benc \<Rightarrow> string" where
  "bytes_of (BStr s) = s"
| "bytes_of _ = []"

fun peer_text :: "benc \<Rightarrow> string" where
  "peer_text (BDict kvs) =
     (case (map_of kvs ''ip'', map_of kvs ''port'') of
        (Some ip, Some port) \<Rightarrow> tab @ tab @ bytes_of ip @ '':'' @ dec (shown port) @
          (case map_of kvs ''peer id'' of None \<Rightarrow> [] | Some pid \<Rightarrow> '' '' @ bytes_of pid) @ newline
      | _ \<Rightarrow> ''Incomplete peer dictionary'' @ newline)"
| "peer_text _ = ''Invalid data received'' @ newline"

fun compact_text :: "string \<Rightarrow> string" where
  "compact_text (a # b # c # d # x # y # s) =
     tab @ tab @ inet_ntop4 [a, b, c, d] @ '':'' @ dec (ntohs [x, y]) @ newline @ compact_text s"
| "compact_text _ = []"

definition peers_text :: "(string \<times> benc) list \<Rightarrow> string" where
  "peers_text kvs =
     (case map_of kvs ''peers'' of
        Some (BList ps) \<Rightarrow> tab @ ''Peers (received in non-compact format):'' @ newline @ concat (map peer_text ps)
      | Some (BStr s) \<Rightarrow> tab @ ''Peers (received in compact format):'' @ newline @
          (if length s mod 6 \<noteq> 0 then ''Compact peer data is invalid'' @ newline else compact_text s)
      | _ \<Rightarrow> ''Failed to read peers section of reply'' @ newline)"

definition answer_text :: "(string \<times> benc) list \<Rightarrow> string" where
  "answer_text kvs = newline @ ''Tracker response:'' @ newline @
     (case map_of kvs ''failure reason'' of
        Some v \<Rightarrow> ''Tracker error: '' @ (case v of BStr s \<Rightarrow> s | _ \<Rightarrow> ''Reason in invalid format'')
      | None \<Rightarrow>
          number_text kvs ''interval'' (tab @ ''Announce interval: '') ('' seconds'' @ newline)
            (''Tracker response did not include announce interval'' @ newline) @
          number_text kvs ''complete'' (tab @ ''Active Seeds: '') newline [] @
          number_text kvs ''incomplete'' (tab @ ''Active Peers: '') newline [] @ peers_text kvs)"

text \<open>The answers the code reads as meant: numbers are \<open>int\<close>s, an address and an identifier are
  strings.\<close>

fun peer_ok :: "benc \<Rightarrow> bool" where
  "peer_ok (BDict kvs) \<longleftrightarrow>
     (map_of kvs ''ip'' \<noteq> None \<and> map_of kvs ''port'' \<noteq> None \<longrightarrow>
       map_option benc_type (map_of kvs ''ip'') = Some T_STRING \<and>
       (\<forall>v. map_of kvs ''port'' = Some v \<longrightarrow> int_ok v) \<and>
       (\<forall>v. map_of kvs ''peer id'' = Some v \<longrightarrow> benc_type v = T_STRING))"
| "peer_ok _ \<longleftrightarrow> True"

definition answer_ok :: "(string \<times> benc) list \<Rightarrow> bool" where
  "answer_ok kvs \<longleftrightarrow>
     list_all (\<lambda>key. \<forall>v. map_of kvs key = Some v \<longrightarrow> int_ok v) [''interval'', ''complete'', ''incomplete''] \<and>
     (\<forall>ps. map_of kvs ''peers'' = Some (BList ps) \<longrightarrow> list_all peer_ok ps)"

section \<open>The code against the printer\<close>

lemma string_at_stands:
  assumes "stands_at q b v" "fits n v" "benc_type v = T_STRING"
  shows "string_at b q = Some (bytes_of v)"
proof -
  obtain s where v: "v = BStr s" using assms(3) by (cases v) simp_all
  then have "stands_at q b (BStr s)" "int (length s) < 2 ^ 31" using assms(1,2) fits_BStr by blast+
  then obtain d where "benc_string_length b q = Some (int (length s))" "benc_string_data_offset b q = Some d"
    "bytes_at b (q + d) (int (length s)) = Some s"
    by (rule string_bytes)
  with v show ?thesis by (simp add: string_at_def)
qed

lemma print_number_at:
  assumes "stands_at p b (BDict kvs)" "fits n (BDict kvs)" "NUL \<notin> set key" "\<And>v. map_of kvs key = Some v \<Longrightarrow> int_ok v"
  shows "print_number n b p key before after absent = Some (number_text kvs key before after absent)"
  using assms(1-3)
proof (cases rule: lookup_at)
  case absent
  then show ?thesis by (simp add: print_number_def number_text_def)
next
  case (found v off)
  with assms(4) shown_at [OF found(4,5)] show ?thesis by (simp add: print_number_def number_text_def)
qed

lemma print_peer_at:
  assumes "stands_at p b v" "fits n v" "peer_ok v"
  shows "print_peer n b p = Some (peer_text v)"
proof (cases "benc_type v = T_DICT")
  case False
  with type_at [OF assms(1,2)] show ?thesis by (cases v) (simp_all add: print_peer_def)
next
  case True
  then obtain kvs where v: "v = BDict kvs" by (cases v) simp_all
  note at = assms(1,2) [unfolded v] and t = type_at [OF assms(1,2)]
  have keys: "NUL \<notin> set ''ip''" "NUL \<notin> set ''port''" "NUL \<notin> set ''peer id''" by simp_all
  show ?thesis
    using at keys(1)
  proof (cases rule: lookup_at)
    case absent
    obtain po where po: "benc_dict_value_offset n b p (Some (lit ''port'')) = Some po" using value_at [OF at keys(2)] by auto
    obtain io where io: "benc_dict_value_offset n b p (Some (lit ''peer id'')) = Some io" using value_at [OF at keys(3)] by auto
    from absent po io t v show ?thesis by (simp add: print_peer_def)
  next
    case ip: (found ip ipo)
    show ?thesis
      using at keys(2)
    proof (cases rule: lookup_at)
      case absent
      obtain io where io: "benc_dict_value_offset n b p (Some (lit ''peer id'')) = Some io" using value_at [OF at keys(3)] by auto
      from absent ip io t v show ?thesis by (simp add: print_peer_def)
    next
      case port: (found port po)
      have ok: "benc_type ip = T_STRING" "int_ok port" "\<And>u. map_of kvs ''peer id'' = Some u \<Longrightarrow> benc_type u = T_STRING"
        using assms(3) ip(1) port(1) v by auto
      note vals = string_at_stands [OF ip(4,5) ok(1)] shown_at [OF port(4,5) ok(2)]
      show ?thesis
        using at keys(3)
      proof (cases rule: lookup_at)
        case absent
        with ip port vals t v show ?thesis by (simp add: print_peer_def)
      next
        case pid: (found pid io)
        from ip port vals pid string_at_stands [OF pid(4,5) ok(3) [OF pid(1)]] t v show ?thesis by (simp add: print_peer_def)
      qed
    qed
  qed
qed

lemma print_peer_list_at:
  assumes "stands_at p b (BList ps)" "fits k (BList ps)" "list_all peer_ok ps" "int_range (int (length ps) * 2)"
    and "i \<le> length ps" "k + (length ps - i) < n"
    and "if i < length ps then 0 < off \<and> stands_at (p + off) b (ps ! i) else off = -1"
  shows "print_peer_list n b p (int i) off = Some (concat (map peer_text (drop i ps)))"
  using assms(5-)
proof (induction n arbitrary: i off)
  case (Suc n)
  show ?case
  proof (cases "i < length ps")
    case False
    with Suc.prems show ?thesis by simp
  next
    case True
    with Suc.prems have off: "0 < off" "stands_at (p + off) b (ps ! i)" and k: "k \<le> n" by simp_all
    have "peer_ok (ps ! i)" using assms(3) True by (simp add: list_all_length)
    note peer = print_peer_at [OF off(2) fits_item [OF True fits_more [OF assms(2) k]] this]
    have r: "int_add (int i) 1 = Some (int (Suc i))"
      using assms(4) True by (simp_all add: int_range_def int_add_def)
    obtain off' where off': "benc_list_item_offset n b p (int (Suc i)) = Some off'"
      "if Suc i < length ps then 0 < off' \<and> stands_at (p + off') b (ps ! Suc i) else off' = -1"
      by (rule item_at [OF assms(1) fits_more [OF assms(2) k]])
    have "print_peer_list n b p (int (Suc i)) off' = Some (concat (map peer_text (drop (Suc i) ps)))"
      using Suc.prems True by (intro Suc.IH off'(2)) simp_all
    then show ?thesis
      using off(1) peer r off'(1) True by (simp add: Cons_nth_drop_Suc [symmetric])
  qed
qed simp

lemma print_compact_bytes:
  assumes "p = int (length pre)"
  shows "print_compact (length s div 6) (pre @ s @ r) p = Some (compact_text s)"
  using assms
proof (induction s arbitrary: pre p rule: compact_text.induct)
  case (1 a b c d x y s)
  let ?b = "pre @ (a # b # c # d # x # y # s) @ r"
  have "ptr_at ?b p = Some ((a # b # c # d # x # y # s) @ r)" "ptr_at ?b (p + 4) = Some ((x # y # s) @ r)"
    using "1.prems" by (simp_all add: ptr_at_def nat_add_distrib)
  then have "bytes_at ?b p 4 = Some [a, b, c, d]" "bytes_at ?b (p + 4) 2 = Some [x, y]"
    by (simp_all add: bytes_at_def mem_get_def)
  moreover have "print_compact (length s div 6) ?b (p + 6) = Some (compact_text s)"
    using "1.IH" [of "p + 6" "pre @ [a, b, c, d, x, y]"] "1.prems" by simp
  moreover have "length (a # b # c # d # x # y # s) div 6 = Suc (length s div 6)" by (simp add: div_add_self1)
  ultimately show ?case by simp
qed simp_all

lemma print_peers_at:
  assumes "stands_at p b (BDict kvs)" "fits k (BDict kvs)" "2 * k < n" "answer_ok kvs" "1 \<le> p" "b ! nat (p - 1) = CHR 0x0A"
  shows "print_peers n b p = Some (peers_text kvs)"
proof -
  have n: "fits n (BDict kvs)" using assms(2,3) by (intro fits_more [OF assms(2)]) simp
  have "NUL \<notin> set ''peers''" by simp
  with assms(1) n show ?thesis
  proof (cases rule: lookup_at)
    case absent
    have "p - 1 < int (length b)" "0 \<le> p - 1" using assms(1,5) length_benc_text [of "BDict kvs"] by (auto simp: stands_at_parts)
    then have r: "rdi b (p - 1) = Some (CHR 0x0A)" "drop (nat (p - 1)) b = CHR 0x0A # drop (Suc (nat (p - 1))) b"
      using assms(6) by (simp_all add: rdi_Some Cons_nth_drop_Suc [symmetric])
    have "\<not> isdigit (CHR 0x0A)" by (simp add: isdigit_def)
    with r have "benc_entity_type b (p + - 1) = Some T_FAIL" by (simp add: benc_entity_type_def)
    with absent show ?thesis by (simp add: print_peers_def peers_text_def)
  next
    case (found v off)
    note t = type_at [OF found(4,5)]
    show ?thesis
    proof (cases v)
      case (BInt i)
      with found t show ?thesis by (simp add: print_peers_def peers_text_def)
    next
      case (BDict x)
      with found t show ?thesis by (simp add: print_peers_def peers_text_def)
    next
      case (BStr s)
      with found(4,5) have s: "stands_at (p + off) b (BStr s)" "int (length s) < 2 ^ 31" using fits_BStr by blast+
      obtain pre r where b: "b = pre @ benc_text (BStr s) @ r" "p + off = int (length pre)"
        using s(1) by (auto simp: stands_at_parts)
      have parts: "benc_string_length b (p + off) = Some (int (length s))"
        "benc_string_data_offset b (p + off) = Some (int (length (dec_nat (length s))) + 1)"
        unfolding b using string_parts(1,2) [OF s(2)] by simp_all
      have "print_compact (length s div 6) b (p + off + (int (length (dec_nat (length s))) + 1)) = Some (compact_text s)"
        using print_compact_bytes [of _ "pre @ dec_nat (length s) @ '':''" s r] b by (simp add: ac_simps)
      moreover have "int (length s) mod 6 \<noteq> 0 \<longleftrightarrow> length s mod 6 \<noteq> 0" "nat (int (length s) div 6) = length s div 6"
        by presburger (simp add: nat_div_distrib)
      ultimately show ?thesis
        using found(1,2) t parts BStr by (simp add: print_peers_def peers_text_def)
    next
      case (BList ps)
      with found(4) have at: "stands_at (p + off) b (BList ps)" by simp
      have fk: "fits k (BList ps)" using fits_value [OF found(1) assms(2)] BList by simp
      have "length ps \<le> length (benc_text (BList ps)) - 2" using length_le_texts [of ps] unfolding benc_text_container by simp
      with fk have l: "length ps < k" "int_range (int (length ps) * 2)"
        unfolding fits_def int_range_def
        using length_benc_text [of "BList ps"] length_texts_2 [of ps] by (simp_all add: benc_texts_def)
      have fn: "fits n (BList ps)" using fits_more [OF fk, of n] assms(3) by simp
      from item_at [OF at fn] obtain off' where off': "benc_list_item_offset n b (p + off) (int 0) = Some off'"
        "if 0 < length ps then 0 < off' \<and> stands_at (p + off + off') b (ps ! 0) else off' = -1" by blast
      have "list_all peer_ok ps" using assms(4) found(1) BList by (simp add: answer_ok_def)
      from print_peer_list_at [OF at fk this l(2), of 0 n off'] off' l(1) assms(3)
      have "print_peer_list n b (p + off) 0 off' = Some (concat (map peer_text ps))" by simp
      with found(1,2) t off'(1) BList show ?thesis by (simp add: print_peers_def peers_text_def)
    qed
  qed
qed

lemma print_answer_at:
  assumes "stands_at p b (BDict kvs)" "fits k (BDict kvs)" "2 * k < n" "answer_ok kvs" "1 \<le> p" "b ! nat (p - 1) = CHR 0x0A"
  shows "print_answer n b p = Some (answer_text kvs)"
proof -
  have n: "fits n (BDict kvs)" using assms(2,3) by (intro fits_more [OF assms(2)]) simp
  have "NUL \<notin> set ''failure reason''" by simp
  with assms(1) n show ?thesis
  proof (cases rule: lookup_at)
    case absent
    have num: "print_number n b p key before after ab = Some (number_text kvs key before after ab)"
      if "key \<in> {''interval'', ''complete'', ''incomplete''}" for key before after ab
    proof (rule print_number_at [OF assms(1) n])
      show "NUL \<notin> set key" using that by auto
      show "int_ok v" if "map_of kvs key = Some v" for v
        using that \<open>key \<in> _\<close> assms(4) unfolding answer_ok_def by auto
    qed
    show ?thesis
      using absent print_peers_at [OF assms] by (simp add: print_answer_def answer_text_def num)
  next
    case (found v off)
    note t = type_at [OF found(4,5)]
    show ?thesis
    proof (cases "benc_type v = T_STRING")
      case True
      with found t string_at_stands [OF found(4,5) True] show ?thesis
        by (cases v) (simp_all add: print_answer_def answer_text_def)
    next
      case False
      with found t show ?thesis by (cases v) (simp_all add: print_answer_def answer_text_def)
    qed
  qed
qed

section \<open>The response\<close>

lemma starts_with_prefix: "length nd \<le> length x \<Longrightarrow> starts_with nd (x @ y) \<longleftrightarrow> starts_with nd x"
proof (induction nd arbitrary: x)
  case (Cons c nd)
  then show ?case by (cases x) simp_all
qed simp

lemma starts_with_self: "starts_with nd (nd @ t)"
  by (induction nd) simp_all

text \<open>The first empty line of a header is found whatever follows it.\<close>

lemma strstr_extend:
  assumes "strstr (h @ nd @ [NUL]) nd = Some (Some r)" "length r = Suc (length nd)" "nd \<noteq> []"
  shows "strstr (h @ nd @ t) nd = Some (Some (nd @ t))"
  using assms
proof (induction h)
  case Nil
  from Nil(3) obtain c cs where "nd = c # cs" by (cases nd) auto
  with starts_with_self [of nd t] show ?case by simp
next
  case (Cons c h)
  have "\<not> starts_with nd (c # h @ nd @ [NUL])" "c \<noteq> NUL" "strstr (h @ nd @ [NUL]) nd = Some (Some r)"
    using Cons.prems by (auto split: if_splits)
  moreover have "starts_with nd (c # h @ nd @ x) \<longleftrightarrow> starts_with nd (c # h @ nd)" for x
    using starts_with_prefix [of nd "c # h @ nd" x] by simp
  ultimately show ?case using Cons by simp
qed

definition head_ok :: "string \<Rightarrow> bool" where
  "head_ok head \<longleftrightarrow> find_str (head @ crlf @ crlf @ [NUL]) 0 (crlf @ crlf) = Some (Some (length head))"

lemma head_end:
  assumes "head_ok head"
  shows "find_str (head @ crlf @ crlf @ t) 0 (crlf @ crlf) = Some (Some (length head))"
proof -
  obtain r where r: "strstr (head @ (crlf @ crlf) @ [NUL]) (crlf @ crlf) = Some (Some r)"
    "length head + 5 - length r = length head"
    using assms by (auto simp: head_ok_def find_str_def crlf_def)
  from strstr_Some_Some [OF r(1)] obtain pre r' where r': "head @ (crlf @ crlf) @ [NUL] = pre @ r" "r = (crlf @ crlf) @ r'" by auto
  from arg_cong [OF r'(1), of length] r(2) have "length r = Suc (length (crlf @ crlf))" by (simp add: r'(2) crlf_def)
  from strstr_extend [OF r(1) this, of t] show ?thesis by (simp add: find_str_def crlf_def)
qed

lemma print_response_at:
  assumes "head_ok head" "fits k (BDict kvs)" "2 * k < n" "answer_ok kvs"
  shows "print_response n (head @ crlf @ crlf @ benc_text (BDict kvs) @ r) = Some (0, answer_text kvs)"
proof -
  let ?b = "head @ crlf @ crlf @ benc_text (BDict kvs) @ r" and ?p = "int (length head) + 4"
  have at: "stands_at ?p ?b (BDict kvs)"
    using stands_atI [of ?p "head @ crlf @ crlf" "BDict kvs" r] by (simp add: crlf_def)
  have "?b ! nat (?p - 1) = CHR 0x0A" by (simp add: nth_append crlf_def nat_add_distrib)
  note pr = print_answer_at [OF at assms(2-4) _ this]
  have t: "benc_entity_type ?b ?p = Some T_DICT" using type_at [OF at assms(2)] by simp
  show ?thesis
    unfolding print_response_def head_end [OF assms(1)] Option.bind.bind_lunit option.case Let_def t using pr by simp
qed

section \<open>Properties\<close>

text \<open>C21: what getpeers prints for a response is what the abstract printer prints for the bencoded
  dictionary behind the first empty line: a failure reason, or interval, counts and each peer in its
  order, from a list of dictionaries or from the compact string; missing entries are reported. The only
  trait of the code that shows is the -1 for a single digit.\<close>

theorem print_response_refines:
  assumes "head_ok head" "fits k (BDict kvs)" "2 * k < n" "answer_ok kvs"
  shows "print_response n (head @ crlf @ crlf @ benc_text (BDict kvs) @ r) = Some (0, answer_text kvs)"
  by (rule print_response_at [OF assms])


end
