(* ===== verification/Comm.thy ===== *)
theory Comm
  imports Track
begin

text \<open>
  The parser of client requests (\<^verbatim>\<open>src/comm.c\<close>). \<open>parseSocket\<close> looks at the input of a socket
  without taking it; it answers when the request is complete, and otherwise leaves it for the next
  round, up to \<open>MAX_RECV_ITER\<close> rounds. Its result says whether the client is done with.
\<close>

section \<open>Announce requests\<close>

definition read_event :: "cptr option \<Rightarrow> bt_event option" where
  "read_event event =
     (case event of
        None \<Rightarrow> Some NONE
      | Some event \<Rightarrow> do {
          st \<leftarrow> strncmp0 event (lit ''st'') 2;
          ok \<leftarrow> (if st then Some True else strncmp0 event (lit ''co'') 2);
          if ok then do {
            x \<leftarrow> rd event 2;
            Some (if x = CHR ''a'' then STARTED
                  else if x = CHR ''o'' then STOPPED
                  else if x = CHR ''m'' then COMPLETED
                  else NONE) }
          else Some NONE })"

text \<open>A number from a parameter, converted to \<open>int\<close> by the assignment; 0 without the
  parameter.\<close>

definition read_number :: "cptr option \<Rightarrow> int option" where
  "read_number p = (case p of None \<Rightarrow> Some 0 | Some p \<Rightarrow> map_option to_int (strtoul p))"

definition read_numwant :: "cptr option \<Rightarrow> int option" where
  "read_numwant p = do {
     n \<leftarrow> read_number p;
     Some (if n > MAXPEERS_SENT \<or> n \<le> 0 then MAXPEERS_SENT else n) }"

text \<open>The flag of a request string: whether the text occurs in it.\<close>

definition read_flag :: "cptr \<Rightarrow> string \<Rightarrow> bool option" where
  "read_flag buffer flag = map_option (\<lambda>r. r \<noteq> None) (strstr buffer flag)"

text \<open>\<open>ar\<close> as \<open>memset\<close> leaves it.\<close>

definition cleared_announce :: announce where
  "cleared_announce = \<lparr>ar_info_hash = replicate (MAX_URLENC_HASH_LEN + 1) NUL,
     ar_peer_id = replicate (MAX_URLENC_HASH_LEN + 1) NUL, ar_ip = replicate INET6_ADDRSTRLEN NUL,
     ar_port = 0, ar_protover = 0, ar_event = NONE, ar_left = 0, ar_compact = False,
     ar_no_peer_id = False, ar_numwant = 0\<rparr>"

text \<open>The request as it is handed to \<open>track\<close>, or \<^term>\<open>None\<close> if the info hash or the peer id has
  the wrong length.\<close>

definition read_announce ::
    "cptr \<Rightarrow> bool \<times> string \<Rightarrow> cptr \<Rightarrow> cptr \<Rightarrow> cptr \<Rightarrow> cptr option \<Rightarrow> cptr option \<Rightarrow> cptr option \<Rightarrow>
     announce option option" where
  "read_announce buffer conn hash peerid port event numwant left = do {
     compact \<leftarrow> read_flag buffer ''compact=1'';
     no_peer_id \<leftarrow> read_flag buffer ''no_peer_id=1'';
     ev \<leftarrow> read_event event;
     hash_len \<leftarrow> httpParamLength hash;
     peerid_len \<leftarrow> httpParamLength peerid;
     n \<leftarrow> decodedStrlen hash (int hash_len);
     ok \<leftarrow> (if n = int MAX_HASH_LEN
            then map_option (\<lambda>n. n = int MAX_HASH_LEN) (decodedStrlen peerid (int peerid_len))
            else Some False);
     if \<not> ok then Some None else do {
       info_hash \<leftarrow> strncpy (ar_info_hash cleared_announce) hash hash_len;
       peer_id \<leftarrow> strncpy (ar_peer_id cleared_announce) peerid peerid_len;
       pt \<leftarrow> map_option to_int (strtoul port);
       nw \<leftarrow> read_numwant numwant;
       lf \<leftarrow> read_number left;
       ip \<leftarrow> mem_put (ar_ip cleared_announce) 0 (snd conn @ [NUL]);
       Some (Some \<lparr>ar_info_hash = info_hash, ar_peer_id = peer_id, ar_ip = ip, ar_port = pt,
         ar_protover = (if fst conn then 6 else 4), ar_event = ev, ar_left = lf, ar_compact = compact,
         ar_no_peer_id = no_peer_id, ar_numwant = nw\<rparr>) } }"

text \<open>The answer a client gets in its last round only.\<close>

definition give_up ::
    "os \<Rightarrow> client \<Rightarrow> string \<Rightarrow> string \<Rightarrow> 'db world \<Rightarrow> (bool \<times> 'db world) option" where
  "give_up e client rcode reason w =
     (if cl_recv_iter client \<ge> MAX_RECV_ITER
      then do {
        (_, w) \<leftarrow> sendHttpHeaders e (cl_socket client) (lit rcode) (lit (''X-Failure-Reason: '' @ reason @ crlf)) w;
        Some (False, w) }
      else Some (False, w))"

text \<open>The branch for \<^verbatim>\<open>GET /announce\<close>; \<open>buffer\<close> starts after these words.\<close>

definition parse_announce ::
    "os \<Rightarrow> ('db, 'stmt) sqlite \<Rightarrow> client \<Rightarrow> int \<Rightarrow> string \<Rightarrow> 'db world \<Rightarrow> (bool \<times> 'db world) option" where
  "parse_announce e q client announceInterval buffer w =
     (case os_peer e (cl_socket client) (polls w) of
        None \<Rightarrow> Some (True, w)
      | Some conn \<Rightarrow> do {
          c \<leftarrow> charIndex (Some buffer) CHR '' '';
          if c \<noteq> -1 then do {
            buffer \<leftarrow> wri buffer c NUL;
            hash \<leftarrow> textAfter (Some buffer) (lit ''info_hash='');
            peerid \<leftarrow> textAfter (Some buffer) (lit ''peer_id='');
            port \<leftarrow> textAfter (Some buffer) (lit ''port='');
            event \<leftarrow> textAfter (Some buffer) (lit ''event='');
            numwant \<leftarrow> textAfter (Some buffer) (lit ''numwant='');
            left \<leftarrow> textAfter (Some buffer) (lit ''left='');
            (case (hash, peerid, port) of
               (Some hash, Some peerid, Some port) \<Rightarrow> do {
                 r \<leftarrow> read_announce buffer conn hash peerid port event numwant left;
                 (case r of
                    Some ar \<Rightarrow> do {
                      w \<leftarrow> track e q (cl_socket client) ar announceInterval w;
                      Some (True, w) }
                  | None \<Rightarrow> give_up e client ''400 Bad Syntax'' ''Failed Parameter Validation'' w) }
             | _ \<Rightarrow> give_up e client ''408 Timed out'' ''Missing parameters'' w) }
          else give_up e client ''400 Bad Syntax'' ''Thats just plain wrong'' w })"

section \<open>Scrape requests\<close>

definition parse_scrape ::
    "os \<Rightarrow> ('db, 'stmt) sqlite \<Rightarrow> client \<Rightarrow> string \<Rightarrow> 'db world \<Rightarrow> (bool \<times> 'db world) option" where
  "parse_scrape e q client buffer w = do {
     c \<leftarrow> charIndex (Some buffer) CHR '' '';
     if c \<noteq> -1 then do {
       buffer \<leftarrow> wri buffer c NUL;
       hash \<leftarrow> textAfter (Some buffer) (lit ''info_hash='');
       (case hash of
          None \<Rightarrow> do { w \<leftarrow> scrape e q (cl_socket client) None w; Some (True, w) }
        | Some hash \<Rightarrow> do {
            hash_len \<leftarrow> httpParamLength hash;
            n \<leftarrow> decodedStrlen hash (int hash_len);
            if n = int MAX_HASH_LEN then do {
              bytes \<leftarrow> mem_get hash hash_len;
              hashbuf \<leftarrow> mem_put (uninit (os_stack e) (MAX_URLENC_HASH_LEN + 1)) 0 bytes;
              hashbuf \<leftarrow> wr hashbuf hash_len NUL;
              (_, hashbuf) \<leftarrow> destructiveURLDecode hashbuf;
              (_, hashbuf) \<leftarrow> hashEncodeHex (os_stack e) hashbuf (int (length hashbuf) - 1);
              w \<leftarrow> scrape e q (cl_socket client) (Some hashbuf) w;
              Some (True, w) }
            else Some (False, w) }) }
     else give_up e client ''400 Bad Syntax'' ''Thats just plain wrong'' w }"

section \<open>The socket\<close>

fun send_times :: "nat \<Rightarrow> os \<Rightarrow> int \<Rightarrow> string \<Rightarrow> 'db world \<Rightarrow> 'db world option" where
  "send_times 0 e fd s w = Some w"
| "send_times (Suc n) e fd s w = do { (_, w) \<leftarrow> sendString e fd (lit s) w; send_times n e fd s w }"

text \<open>What a complete or incomplete request in \<open>buf\<close> leads to.\<close>

definition parse_request ::
    "os \<Rightarrow> ('db, 'stmt) sqlite \<Rightarrow> client \<Rightarrow> int \<Rightarrow> string \<Rightarrow> 'db world \<Rightarrow> (bool \<times> 'db world) option" where
  "parse_request e q client announceInterval buf w = do {
     get \<leftarrow> strncmp0 buf (lit ''GET /'') 5;
     if get then do {
       ann \<leftarrow> strncmp0 (drop 5 buf) (lit ''announce'') 8;
       if ann then parse_announce e q client announceInterval (drop 13 buf) w
       else do {
         scr \<leftarrow> strncmp0 (drop 5 buf) (lit ''scrape'') 6;
         if scr then parse_scrape e q client (drop 11 buf) w
         else do {
           (_, w) \<leftarrow> sendHttpHeaders e (cl_socket client) (lit ''200 OK'') (lit STANDARD_HEADER) w;
           w \<leftarrow> send_times 10 e (cl_socket client) (''Making Milhouse cry is not a science project'' @ crlf) w;
           Some (True, w) } } }
     else do {
       (_, w) \<leftarrow> sendHttpHeaders e (cl_socket client) (lit ''405 Not supported'') (lit STANDARD_HEADER) w;
       Some (True, w) } }"

text \<open>\<open>recv\<close> with \<open>MSG_PEEK\<close> into an array: its result and the array.\<close>

definition recv_peek :: "os \<Rightarrow> int \<Rightarrow> string \<Rightarrow> 'db world \<Rightarrow> (int \<times> string \<times> 'db world) option" where
  "recv_peek e fd buf w =
     (case os_recv e fd (polls w) of
        None \<Rightarrow> Some (-1, buf, w\<lparr>polls := Suc (polls w)\<rparr>)
      | Some bytes \<Rightarrow> do {
          buf \<leftarrow> mem_put buf 0 bytes;
          Some (int (length bytes), buf, w\<lparr>polls := Suc (polls w)\<rparr>) })"

definition parseSocket ::
    "os \<Rightarrow> ('db, 'stmt) sqlite \<Rightarrow> client \<Rightarrow> int \<Rightarrow> 'db world \<Rightarrow> (bool \<times> 'db world) option" where
  "parseSocket e q client announceInterval w = do {
     (size, buf, w) \<leftarrow> recv_peek e (cl_socket client) (uninit (os_stack e) 1024) w;
     (handled, w) \<leftarrow>
       (if size = 0 \<or> size = 1023 then Some (True, w)
        else do {
          buf \<leftarrow> wri buf size NUL;
          parse_request e q client announceInterval buf w });
     if handled \<or> cl_recv_iter client \<ge> MAX_RECV_ITER
     then Some (True, log_event (Flushed (cl_socket client)) w)
     else Some (handled, w) }"

end
