(* ===== verification/Comm_Spec.thy ===== *)
theory Comm_Spec
  imports Comm Track_Spec
begin

text \<open>
  What \<^verbatim>\<open>src/comm.c\<close> does with the bytes of a client: no request makes it leave a buffer, every
  announce it hands on is one \<open>track\<close> can handle, and a request in the normal form is read back
  exactly.
\<close>

section \<open>Reading a terminated buffer\<close>

lemma strncmp0_total: "NUL \<in> set p \<Longrightarrow> NUL \<in> set q \<Longrightarrow> \<exists>b. strncmp0 p q n = Some b"
  by (induction p q n rule: strncmp0.induct) auto

lemma strncmp0_prefix: "strncmp0 p q n = Some True \<Longrightarrow> NUL \<notin> set (take n q) \<Longrightarrow> n \<le> length q \<Longrightarrow>
    take n p = take n q \<and> n \<le> length p"
  by (induction p q n rule: strncmp0.induct) (auto split: if_splits)

lemma drop_terminated: "NUL \<in> set p \<Longrightarrow> NUL \<notin> set (take n p) \<Longrightarrow> NUL \<in> set (drop n p)"
  by (metis Un_iff append_take_drop_id set_append)

text \<open>After a matching prefix the rest of the buffer is terminated.\<close>

lemma strncmp0_advance:
  assumes "strncmp0 p (lit s) n = Some True" "length s = n" "NUL \<notin> set s" "NUL \<in> set p"
  shows "NUL \<in> set (drop n p)" "\<exists>p'. p = s @ p'"
proof -
  have t: "take n p = s" using strncmp0_prefix [OF assms(1)] assms(2,3) by (auto simp: lit_def)
  then show "\<exists>p'. p = s @ p'" by (metis append_take_drop_id)
  from t assms show "NUL \<in> set (drop n p)" by (simp add: drop_terminated)
qed

lemma strstr_terminated: "strstr p n = Some (Some q) \<Longrightarrow> NUL \<in> set p \<Longrightarrow> NUL \<in> set q"
  by (auto dest!: strstr_Some_Some)

lemma textAfter_terminated:
  assumes "NUL \<in> set p" "NUL \<notin> set param"
  obtains r where "textAfter (Some p) (lit param) = Some r" "\<And>q. r = Some q \<Longrightarrow> NUL \<in> set q"
proof -
  obtain r where r: "strstr p param = Some r" using strstr_total [OF assms(1)] by auto
  show ?thesis
  proof (cases r)
    case None
    with r that show ?thesis by (auto simp: textAfter_eq assms(2))
  next
    case (Some q)
    with r obtain pre x where "p = pre @ q" "q = param @ x" "NUL \<notin> set pre" by (auto dest: strstr_Some_Some)
    with assms r Some that [of "Some x"] show ?thesis by (auto simp: textAfter_eq)
  qed
qed

lemma charIndex_terminated:
  assumes "NUL \<in> set p"
  obtains "charIndex (Some p) x = Some (-1)"
  | k where "charIndex (Some p) x = Some (int k)" "k < length p" "NUL \<notin> set (take k p)"
proof -
  have "charIndex_loop p x i = Some (-1) \<or>
      (\<exists>k. charIndex_loop p x i = Some (i + int k) \<and> k < length p \<and> NUL \<notin> set (take k p))" for i
    using assms
  proof (induction p arbitrary: i)
    case (Cons c p)
    show ?case
    proof (cases "c = NUL \<or> c = x")
      case True
      then show ?thesis by (auto intro: exI [of _ 0])
    next
      case False
      with Cons.prems have step: "charIndex_loop (c # p) x i = charIndex_loop p x (i + 1)" and "NUL \<in> set p"
        by auto
      from Cons.IH [OF this(2), of "i + 1"] show ?thesis
      proof
        assume "\<exists>k. charIndex_loop p x (i + 1) = Some (i + 1 + int k) \<and> k < length p \<and> NUL \<notin> set (take k p)"
        then obtain k where "charIndex_loop p x (i + 1) = Some (i + 1 + int k)" "k < length p" "NUL \<notin> set (take k p)"
          by blast
        with step False show ?thesis by (intro disjI2 exI [of _ "Suc k"]) auto
      qed (use step in simp)
    qed
  qed simp
  from this [of 0] that show ?thesis by (auto simp: charIndex_def)
qed

lemma isspace_NUL [simp]: "\<not> isspace NUL"
  by (simp add: isspace_def)

lemma skip_space_terminated: "NUL \<in> set p \<Longrightarrow> NUL \<in> set (skip_space p)"
  by (induction p) auto

lemma read_digits_total: "NUL \<in> set p \<Longrightarrow> \<exists>n. read_digits p a = Some n"
  by (induction p arbitrary: a) auto

lemma strtoul_total:
  assumes "NUL \<in> set p"
  shows "\<exists>n. strtoul p = Some n"
proof -
  obtain c cs where s: "skip_space p = c # cs" and "NUL \<in> set (c # cs)"
    using skip_space_terminated [OF assms] by (cases "skip_space p") auto
  then have "\<exists>n. read_digits (if c = CHR ''-'' \<or> c = CHR ''+'' then cs else c # cs) 0 = Some n"
    by (intro read_digits_total) auto
  then show ?thesis by (auto simp: strtoul_def s)
qed

lemma httpParamLength_total: "NUL \<in> set p \<Longrightarrow> \<exists>n. httpParamLength p = Some n"
proof -
  have "NUL \<in> set p \<Longrightarrow> \<exists>n. httpParamLength_loop p i = Some n" for i
    by (induction p arbitrary: i) auto
  then show "NUL \<in> set p \<Longrightarrow> \<exists>n. httpParamLength p = Some n" by (simp add: httpParamLength_def)
qed

lemma read_event_total:
  assumes "\<And>q. ev = Some q \<Longrightarrow> NUL \<in> set q"
  shows "\<exists>r. read_event ev = Some r"
proof (cases ev)
  case (Some p)
  then have p: "NUL \<in> set p" by (rule assms)
  obtain a b where ab: "strncmp0 p (lit ''st'') 2 = Some a" "strncmp0 p (lit ''co'') 2 = Some b"
    using strncmp0_total [OF p] by (metis in_set_conv_decomp lit_def)
  have "\<exists>x. rd p 2 = Some x" if "a \<or> b"
  proof -
    have "NUL \<in> set (drop 2 p)"
      using that ab p strncmp0_advance(1) [of p "''st''" 2] strncmp0_advance(1) [of p "''co''" 2]
      by auto
    then have "2 < length p" by (metis drop_eq_Nil empty_iff empty_set not_le)
    then show ?thesis by (simp add: rd_def)
  qed
  with ab Some show ?thesis by (cases a; cases b) (auto simp: read_event_def)
qed (simp add: read_event_def)

lemma read_number_total:
  assumes "\<And>q. x = Some q \<Longrightarrow> NUL \<in> set q"
  shows "\<exists>n. read_number x = Some n"
  using assms strtoul_total by (cases x) (fastforce simp: read_number_def)+

lemma read_flag_total: "NUL \<in> set p \<Longrightarrow> \<exists>b. read_flag p flag = Some b"
  using strstr_total [of p flag] by (auto simp: read_flag_def)

section \<open>The copies into the request\<close>

lemma parameter_parts:
  assumes "NUL \<in> set p" "httpParamLength p = Some n"
  obtains s r where "p = s @ r" "length s = n" "NUL \<notin> set s" "\<forall>c\<in>set s. \<not> param_end c" "r \<noteq> []"
  using assms(2) unfolding httpParamLength_Some_iff by (auto simp: param_end_def)

lemma parameter_length:
  assumes "NUL \<in> set p" "httpParamLength p = Some n" "decodedStrlen p (int n) = Some 20"
  shows "n \<le> 60"
proof -
  obtain s t where "p = s @ NUL # t" "NUL \<notin> set s" using assms(1) by (meson split_list_first)
  with param_lengths [of s t n] assms(2,3) show ?thesis by auto
qed

lemma copy_parameter:
  assumes "NUL \<in> set p" "httpParamLength p = Some n" "n \<le> 60"
  shows "strncpy (replicate 61 NUL) p n = Some (take n p @ replicate (61 - n) NUL)"
proof -
  obtain s r where "p = s @ r" "length s = n" "NUL \<notin> set s"
    using parameter_parts [OF assms(1,2)] by metis
  with assms(3) show ?thesis
    using strncpy_bytes_exact [of s r] by (auto simp: strncpy_def mem_put_def)
qed

lemma decodedStrlen_total:
  assumes "NUL \<in> set p" "httpParamLength p = Some n"
  shows "\<exists>c. decodedStrlen p (int n) = Some c"
proof -
  obtain s t where "p = s @ NUL # t" "NUL \<notin> set s" using assms(1) by (meson split_list_first)
  with param_lengths [of s t n] assms(2) show ?thesis by auto
qed

lemma read_announce_ok:
  assumes "NUL \<in> set buffer" "NUL \<in> set hash" "NUL \<in> set peerid" "NUL \<in> set port"
    and "\<And>q. event = Some q \<Longrightarrow> NUL \<in> set q" "\<And>q. numwant = Some q \<Longrightarrow> NUL \<in> set q"
    and "\<And>q. left = Some q \<Longrightarrow> NUL \<in> set q" "length (snd conn) \<le> 45"
  shows "\<exists>r. read_announce buffer conn hash peerid port event numwant left = Some r \<and>
    (\<forall>ar. r = Some ar \<longrightarrow> announce_ok ar \<and> 0 < ar_numwant ar)"
proof -
  obtain cf nf ev hl pl hd' pd pt nw lf where
    flags: "read_flag buffer ''compact=1'' = Some cf" "read_flag buffer ''no_peer_id=1'' = Some nf"
    and ev: "read_event event = Some ev"
    and len: "httpParamLength hash = Some hl" "httpParamLength peerid = Some pl"
    and dec: "decodedStrlen hash (int hl) = Some hd'" "decodedStrlen peerid (int pl) = Some pd"
    and num: "strtoul port = Some pt" "read_number numwant = Some nw" "read_number left = Some lf"
    using read_flag_total [OF assms(1)] read_event_total [OF assms(5)] httpParamLength_total assms(2,3)
      decodedStrlen_total strtoul_total [OF assms(4)] read_number_total [OF assms(6)] read_number_total [OF assms(7)]
    by metis
  show ?thesis
  proof (cases "hd' = 20 \<and> pd = 20")
    case False
    with flags ev len dec show ?thesis by (auto simp: read_announce_def max_len_defs)
  next
    case True
    with dec len assms(2,3) have n: "hl \<le> 60" "pl \<le> 60" by (simp_all add: parameter_length)
    have ip: "mem_put (replicate 46 NUL) 0 (snd conn @ [NUL]) =
        Some (snd conn @ NUL # replicate (45 - length (snd conn)) NUL)"
      using assms(8) by (simp add: mem_put_def)
    define ar where "ar = \<lparr>ar_info_hash = take hl hash @ replicate (61 - hl) NUL, ar_peer_id = take pl peerid @ replicate (61 - pl) NUL,
        ar_ip = snd conn @ NUL # replicate (45 - length (snd conn)) NUL, ar_port = to_int pt,
         ar_protover = (if fst conn then 6 else 4), ar_event = ev, ar_left = lf, ar_compact = cf,
         ar_no_peer_id = nf, ar_numwant = (if nw > 50 \<or> nw \<le> 0 then 50 else nw)\<rparr>"
    have "hl \<le> length hash" using parameter_parts [OF assms(2) len(1)] by (metis length_append le_add1)
    with n have ok: "announce_ok ar" "0 < ar_numwant ar" by (auto simp: announce_ok_def ar_def)
    have "read_announce buffer conn hash peerid port event numwant left = Some (Some ar)"
      using True flags ev len dec num ip n assms(2,3)
      by (simp add: read_announce_def max_len_defs cleared_announce_def copy_parameter read_numwant_def ar_def)
    with ok show ?thesis by simp
  qed
qed

section \<open>The effect of a request\<close>

lemma sends_world:
  "sendString e fd p w = Some (r, w') \<Longrightarrow> wdb w' = wdb w"
  "sendHttpHeaders e fd p h w = Some (r, w') \<Longrightarrow> wdb w' = wdb w"
  by (auto simp: sendHttpHeaders_def sendString_def reallySend_def Let_def elim!: bind_SomeE)

lemma send_times_world: "send_times n e fd s w = Some w' \<Longrightarrow> wdb w' = wdb w"
  by (induction n arbitrary: w) (auto elim!: bind_SomeE dest!: sends_world(1))

lemma send_times_total: "NUL \<notin> set t \<Longrightarrow> \<exists>w'. send_times n e fd t w = Some w'"
  by (induction n arbitrary: w) (simp_all add: sendString_lit)

lemma give_up_effect:
  "give_up e client rc reason w = Some (b, w') \<Longrightarrow>
   \<not> b \<and> wdb w' = wdb w \<and> (cl_recv_iter client < 200 \<longrightarrow> w' = w)"
  by (auto simp: give_up_def elim!: bind_SomeE dest!: sends_world split: if_split_asm)

text \<open>A request either stays unanswered, with no effect before the last round, or it is dealt with:
  by \<open>track\<close> with a request in good order, by \<open>scrape\<close>, or by sending a fixed text.\<close>

definition request_effect ::
    "os \<Rightarrow> ('db, 'stmt) sqlite \<Rightarrow> client \<Rightarrow> int \<Rightarrow> 'db world \<Rightarrow> bool \<Rightarrow> 'db world \<Rightarrow> bool" where
  "request_effect e q client iv w b w' \<longleftrightarrow>
     (if b then
        wdb w' = wdb w \<or> (\<exists>h. scrape e q (cl_socket client) h w = Some w') \<or>
        (\<exists>ar. announce_ok ar \<and> 0 < ar_numwant ar \<and> track e q (cl_socket client) ar iv w = Some w')
      else wdb w' = wdb w \<and> (cl_recv_iter client < 200 \<longrightarrow> w' = w))"

lemma give_up_request: "give_up e client rc reason w = Some (b, w') \<Longrightarrow> request_effect e q client iv w b w'"
  by (drule give_up_effect) (simp add: request_effect_def)

definition peer_texts :: "os \<Rightarrow> bool" where
  "peer_texts e \<longleftrightarrow> (\<forall>fd n v6 t. os_peer e fd n = Some (v6, t) \<longrightarrow> length t \<le> 45)"

lemma terminate_buffer:
  assumes "NUL \<in> set buffer" "charIndex (Some buffer) x = Some c" "c \<noteq> -1"
  obtains buffer' where "wri buffer c NUL = Some buffer'" "NUL \<in> set buffer'"
  using charIndex_terminated [OF assms(1), of x] assms(2,3)
  by (metis (no_types, lifting) wri_def wr_Some nat_int of_nat_less_0_iff option.inject set_update_memI)

lemma charIndex_total: "NUL \<in> set p \<Longrightarrow> \<exists>c. charIndex (Some p) x = Some c"
  using charIndex_terminated by metis

lemma give_up_total: "NUL \<notin> set rc \<Longrightarrow> NUL \<notin> set reason \<Longrightarrow> \<exists>w'. give_up e client rc reason w = Some (False, w')"
  by (simp add: give_up_def sendHttpHeaders_eq)

context sqlite_api
begin

lemma track_total:
  assumes "pton_lengths e" "announce_ok ar" "int_range iv"
  shows "\<exists>w'. track e q fd ar iv w = Some w'"
proof -
  obtain ih ip pid where "cstr (ar_info_hash ar) = Some ih" "cstr (ar_ip ar) = Some ip" "cstr (ar_peer_id ar) = Some pid"
    using assms(2) cstr_iff_NUL unfolding announce_ok_def by metis
  from track_spec [OF assms this] show ?thesis by blast
qed

lemma parse_announce_effect:
  assumes "pton_lengths e" "peer_texts e" "int_range iv" "NUL \<in> set buffer"
  shows "\<exists>b w'. parse_announce e q client iv buffer w = Some (b, w') \<and> request_effect e q client iv w b w'"
proof (cases "os_peer e (cl_socket client) (polls w)")
  case None
  then show ?thesis by (intro exI [of _ True] exI [of _ w]) (simp add: parse_announce_def request_effect_def)
next
  case (Some conn)
  obtain c where c: "charIndex (Some buffer) CHR '' '' = Some c" using charIndex_total [OF assms(4)] by blast
  show ?thesis
  proof (cases "c = -1")
    case True
    obtain w' where "give_up e client ''400 Bad Syntax'' ''Thats just plain wrong'' w = Some (False, w')"
      using give_up_total [of "''400 Bad Syntax''" "''Thats just plain wrong''" e client w] by auto
    with Some c True give_up_request [OF this] show ?thesis by (intro exI [of _ False] exI [of _ w']) (simp add: parse_announce_def)
  next
    case False
    obtain buf where buf: "wri buffer c NUL = Some buf" "NUL \<in> set buf"
      by (rule terminate_buffer [OF assms(4) c False])
    obtain hash where hash: "textAfter (Some buf) (lit ''info_hash='') = Some hash" "\<And>x. hash = Some x \<Longrightarrow> NUL \<in> set x"
      by (rule textAfter_terminated [OF buf(2), of "''info_hash=''"]) (simp, blast)
    obtain pid where pid: "textAfter (Some buf) (lit ''peer_id='') = Some pid" "\<And>x. pid = Some x \<Longrightarrow> NUL \<in> set x"
      by (rule textAfter_terminated [OF buf(2), of "''peer_id=''"]) (simp, blast)
    obtain port where port: "textAfter (Some buf) (lit ''port='') = Some port" "\<And>x. port = Some x \<Longrightarrow> NUL \<in> set x"
      by (rule textAfter_terminated [OF buf(2), of "''port=''"]) (simp, blast)
    obtain ev where ev: "textAfter (Some buf) (lit ''event='') = Some ev" "\<And>x. ev = Some x \<Longrightarrow> NUL \<in> set x"
      by (rule textAfter_terminated [OF buf(2), of "''event=''"]) (simp, blast)
    obtain nw where nw: "textAfter (Some buf) (lit ''numwant='') = Some nw" "\<And>x. nw = Some x \<Longrightarrow> NUL \<in> set x"
      by (rule textAfter_terminated [OF buf(2), of "''numwant=''"]) (simp, blast)
    obtain lf where lf: "textAfter (Some buf) (lit ''left='') = Some lf" "\<And>x. lf = Some x \<Longrightarrow> NUL \<in> set x"
      by (rule textAfter_terminated [OF buf(2), of "''left=''"]) (simp, blast)
    have run: "parse_announce e q client iv buffer w =
        (case (hash, pid, port) of
               (Some hash, Some pid, Some port) \<Rightarrow> do {
                 r \<leftarrow> read_announce buf conn hash pid port ev nw lf;
                 (case r of
                    Some ar \<Rightarrow> do { w \<leftarrow> track e q (cl_socket client) ar iv w; Some (True, w) }
                  | None \<Rightarrow> give_up e client ''400 Bad Syntax'' ''Failed Parameter Validation'' w) }
             | _ \<Rightarrow> give_up e client ''408 Timed out'' ''Missing parameters'' w)"
      by (simp only: parse_announce_def Some option.case c Option.bind.bind_lunit False not_False_eq_True simp_thms if_True
          buf(1) hash(1) pid(1) port(1) ev(1) nw(1) lf(1))
    show ?thesis
    proof (cases "\<exists>h p pt. hash = Some h \<and> pid = Some p \<and> port = Some pt")
      case False
      then have "parse_announce e q client iv buffer w = give_up e client ''408 Timed out'' ''Missing parameters'' w"
        by (auto simp: run split: option.splits)
      moreover obtain w' where "give_up e client ''408 Timed out'' ''Missing parameters'' w = Some (False, w')"
        using give_up_total [of "''408 Timed out''" "''Missing parameters''" e client w] by auto
      ultimately show ?thesis using give_up_request by metis
    next
      case True
      then obtain h p pt where hp: "hash = Some h" "pid = Some p" "port = Some pt" by blast
      have "length (snd conn) \<le> 45" using Some assms(2) by (cases conn) (auto simp: peer_texts_def)
      from read_announce_ok [OF buf(2) hash(2) [OF hp(1)] pid(2) [OF hp(2)] port(2) [OF hp(3)] ev(2) nw(2) lf(2) this]
      obtain r where r: "read_announce buf conn h p pt ev nw lf = Some r"
        "\<And>ar. r = Some ar \<Longrightarrow> announce_ok ar \<and> 0 < ar_numwant ar" by blast
      show ?thesis
      proof (cases r)
        case None
        obtain w' where "give_up e client ''400 Bad Syntax'' ''Failed Parameter Validation'' w = Some (False, w')"
          using give_up_total [of "''400 Bad Syntax''" "''Failed Parameter Validation''" e client w] by auto
        with None r(1) hp give_up_request [OF this] show ?thesis by (intro exI [of _ False] exI [of _ w']) (simp add: run)
      next
        case (Some ar)
        with r(2) have ok: "announce_ok ar" "0 < ar_numwant ar" by blast+
        obtain w' where "track e q (cl_socket client) ar iv w = Some w'"
          using track_total [OF assms(1) ok(1) assms(3)] by blast
        with Some r(1) hp ok show ?thesis by (auto simp: run request_effect_def)
      qed
    qed
  qed
qed

lemma scrape_total: "cstr h = Some s \<Longrightarrow> \<exists>w'. scrape e q fd (Some h) w = Some w'"
  using scrape_spec by blast

lemma parse_scrape_effect:
  assumes "NUL \<in> set buffer"
  shows "\<exists>b w'. parse_scrape e q client buffer w = Some (b, w') \<and> request_effect e q client iv w b w'"
proof -
  obtain c where c: "charIndex (Some buffer) CHR '' '' = Some c" using charIndex_total [OF assms] by blast
  show ?thesis
  proof (cases "c = -1")
    case True
    obtain w' where "give_up e client ''400 Bad Syntax'' ''Thats just plain wrong'' w = Some (False, w')"
      using give_up_total [of "''400 Bad Syntax''" "''Thats just plain wrong''" e client w] by auto
    with c True give_up_request [OF this] show ?thesis by (intro exI [of _ False] exI [of _ w']) (simp add: parse_scrape_def)
  next
    case False
    obtain buf where buf: "wri buffer c NUL = Some buf" "NUL \<in> set buf"
      by (rule terminate_buffer [OF assms c False])
    obtain hash where hash: "textAfter (Some buf) (lit ''info_hash='') = Some hash" "\<And>x. hash = Some x \<Longrightarrow> NUL \<in> set x"
      by (rule textAfter_terminated [OF buf(2), of "''info_hash=''"]) (simp, blast)
    show ?thesis
    proof (cases hash)
      case None
      obtain w' where w': "scrape e q (cl_socket client) None w = Some w'"
        by (simp add: scrape_def head_eq)
      with None c False buf(1) hash(1) have "parse_scrape e q client buffer w = Some (True, w')"
        by (simp add: parse_scrape_def)
      with w' show ?thesis by (intro exI [of _ True] exI [of _ w']) (auto simp: request_effect_def)
    next
      case (Some h)
      with hash(2) have h: "NUL \<in> set h" by blast
      obtain n d where n: "httpParamLength h = Some n" "decodedStrlen h (int n) = Some d"
        using httpParamLength_total [OF h] decodedStrlen_total [OF h] by blast
      show ?thesis
      proof (cases "d = 20")
        case False': False
        with Some c False buf(1) hash(1) n show ?thesis
          by (intro exI [of _ False] exI [of _ w]) (simp add: parse_scrape_def max_len_defs request_effect_def)
      next
        case True
        then have n60: "n \<le> 60" using parameter_length [OF h n(1)] n(2) by simp
        obtain s r where sr: "h = s @ r" "length s = n" "NUL \<notin> set s" by (rule parameter_parts [OF h n(1)]) blast
        define hb where "hb = s @ NUL # drop (Suc n) (uninit (os_stack e) 61)"
        have put: "mem_put (uninit (os_stack e) 61) 0 s = Some (s @ drop n (uninit (os_stack e) 61))"
          using sr n60 by (simp add: mem_put_def)
        have w: "wr (s @ drop n (uninit (os_stack e) 61)) n NUL = Some hb"
          using sr(2) n60 Cons_nth_drop_Suc [of n "uninit (os_stack e) 61"]
          by (auto simp: wr_def list_update_append hb_def upd_conv_take_nth_drop)
        have len: "length hb = 61" using sr(2) n60 by (simp add: hb_def)
        have "cstr hb = Some s" unfolding hb_def using sr(3) by (rule cstr_append)
        from info_hash_hex [OF len this] obtain r1 b hx hex where x: "destructiveURLDecode hb = Some (r1, b)"
          "hashEncodeHex (os_stack e) b 60 = Some (0, hx)" "cstr hx = Some hex" "length hex = 40" by metis
        have lb: "length b = 61" using decoders_length [OF x(1)] len by simp
        obtain w' where w': "scrape e q (cl_socket client) (Some hx) w = Some w'"
          using scrape_total [OF x(3), of e "cl_socket client" w] x(4) by auto
        have "parse_scrape e q client buffer w = Some (True, w')"
          using Some c False buf(1) hash(1) n True put w x lb w' sr(1,2)
          by (simp add: parse_scrape_def max_len_defs mem_get_def)
        with w' show ?thesis by (intro exI [of _ True] exI [of _ w']) (auto simp: request_effect_def)
      qed
    qed
  qed
qed

lemma parse_request_effect:
  assumes "pton_lengths e" "peer_texts e" "int_range iv" "NUL \<in> set buf"
  shows "\<exists>b w'. parse_request e q client iv buf w = Some (b, w') \<and> request_effect e q client iv w b w'"
proof -
  have total: "\<exists>b. strncmp0 p (lit s) n = Some b" if "NUL \<in> set p" for p s n
    using strncmp0_total [OF that] by (simp add: lit_def)
  obtain get where get: "strncmp0 buf (lit ''GET /'') 5 = Some get" using total [OF assms(4)] by blast
  have skip5: "strncmp0 buf (lit ''GET /'') 5 = Some True \<Longrightarrow> NUL \<in> set (drop 5 buf)"
    using strncmp0_advance(1) [of buf "''GET /''" 5] assms(4) by simp
  show ?thesis
  proof (cases get)
    case False
    have "\<exists>w'. sendHttpHeaders e (cl_socket client) (lit ''405 Not supported'') (lit STANDARD_HEADER) w = Some (0, w') \<and> wdb w' = wdb w"
      by (simp add: head_eq)
    with get False show ?thesis
      by (auto simp: parse_request_def request_effect_def intro!: exI [of _ True])
  next
    case True
    have b5: "NUL \<in> set (drop 5 buf)" using skip5 get True by simp
    obtain ann scr where a: "strncmp0 (drop 5 buf) (lit ''announce'') 8 = Some ann"
      and s: "strncmp0 (drop 5 buf) (lit ''scrape'') 6 = Some scr" using total [OF b5] by metis
    consider "ann" | "\<not> ann" "scr" | "\<not> ann" "\<not> scr" by blast
    then show ?thesis
    proof cases
      case 1
      have "NUL \<in> set (drop 13 buf)"
        using strncmp0_advance(1) [of "drop 5 buf" "''announce''" 8] a b5 1 by simp
      from parse_announce_effect [OF assms(1-3) this, of client w] get True a 1
      show ?thesis by (simp add: parse_request_def)
    next
      case 2
      have "NUL \<in> set (drop 11 buf)"
        using strncmp0_advance(1) [of "drop 5 buf" "''scrape''" 6] s b5 2 by simp
      from parse_scrape_effect [OF this, of e client w iv] get True a s 2
      show ?thesis by (simp add: parse_request_def)
    next
      case 3
      let ?w = "w\<lparr>events := events w @ map (sent_event e (cl_socket client)) (head_pieces ''200 OK'')\<rparr>"
      obtain w' where w': "send_times 10 e (cl_socket client) (''Making Milhouse cry is not a science project'' @ crlf) ?w = Some w'"
        using send_times_total [of "''Making Milhouse cry is not a science project'' @ crlf" 10 e "cl_socket client" ?w] by auto
      have "wdb w' = wdb w" using send_times_world [OF w'] by simp
      with w' get True a s 3 show ?thesis
        by (intro exI [of _ True] exI [of _ w']) (simp add: parse_request_def head_eq request_effect_def)
    qed
  qed
qed

lemma parseSocket_spec:
  assumes "pton_lengths e" "peer_texts e" "int_range iv"
    and "os_recv e (cl_socket client) (polls w) = Some bs" "length bs \<le> 1023"
  shows "\<exists>b w'. parseSocket e q client iv w = Some (b, w') \<and>
    (\<not> b \<longrightarrow> w' = w\<lparr>polls := Suc (polls w)\<rparr> \<and> cl_recv_iter client < 200) \<and>
    (b \<longrightarrow> (\<exists>b1 w1. w' = log_event (Flushed (cl_socket client)) w1 \<and>
        request_effect e q client iv (w\<lparr>polls := Suc (polls w)\<rparr>) b1 w1))"
proof -
  let ?w = "w\<lparr>polls := Suc (polls w)\<rparr>"
  let ?u = "uninit (os_stack e) 1024"
  let ?buf = "bs @ drop (length bs) ?u"
  have put: "mem_put ?u 0 bs = Some ?buf" using assms(5) by (simp add: mem_put_def)
  show ?thesis
  proof (cases "length bs = 0 \<or> length bs = 1023")
    case True
    then show ?thesis
      using assms(4) put
      by (intro exI [of _ True] exI [of _ "log_event (Flushed (cl_socket client)) ?w"])
        (auto simp: parseSocket_def recv_peek_def request_effect_def intro!: exI [of _ ?w] exI [of _ True])
  next
    case False
    have len: "length ?buf = 1024" using assms(5) by simp
    have wri: "wri ?buf (int (length bs)) NUL = Some (?buf[length bs := NUL])"
      using len assms(5) by (simp add: wri_def wr_def)
    have "length bs < length ?buf" using len assms(5) by simp
    then have "NUL \<in> set (?buf[length bs := NUL])" by (rule set_update_memI)
    from parse_request_effect [OF assms(1-3) this, of client ?w] obtain b w1 where
      b: "parse_request e q client iv (?buf[length bs := NUL]) ?w = Some (b, w1)" "request_effect e q client iv ?w b w1"
      by blast
    have run: "parseSocket e q client iv w =
        (if b \<or> cl_recv_iter client \<ge> 200 then Some (True, log_event (Flushed (cl_socket client)) w1) else Some (b, w1))"
      using assms(4) put False wri b(1) by (simp add: parseSocket_def recv_peek_def)
    show ?thesis
    proof (cases "b \<or> cl_recv_iter client \<ge> 200")
      case True
      with run b(2) show ?thesis by auto
    next
      case False
      with run b(2) show ?thesis by (auto simp: request_effect_def)
    qed
  qed
qed

end

end
