(* ===== verification/Comm_Request.thy ===== *)
theory Comm_Request
  imports Comm_Spec
begin

text \<open>
  Whole requests: the normal form of an announce and that \<open>parseSocket\<close> reads it back, and the
  properties of the parser as a whole.
\<close>

section \<open>A request in the normal form\<close>

text \<open>A search for text with an equals sign in it, over text cut at its equals signs.\<close>

definition ends_with :: "string \<Rightarrow> string \<Rightarrow> bool" where
  "ends_with m a \<longleftrightarrow> starts_with (rev m) (rev a)"

lemma ends_with_iff: "ends_with m a \<longleftrightarrow> (\<exists>x. a = x @ m)"
  by (auto simp: ends_with_def starts_with_iff) (metis rev_append rev_rev_ident)

lemma starts_with_append: "starts_with (m @ u) (m @ r) = starts_with u r"
  by (induction m) auto

lemma starts_with_cut:
  assumes "CHR ''='' \<notin> set a" "CHR ''='' \<notin> set m" "starts_with (m @ CHR ''='' # u) (a @ CHR ''='' # r)"
  shows "a = m"
  using assms
proof (induction m arbitrary: a)
  case Nil
  then show ?case by (cases a) auto
next
  case (Cons c m)
  then show ?case by (cases a) auto
qed

lemma strstr_cut:
  assumes "CHR ''='' \<notin> set a" "NUL \<notin> set a" "CHR ''='' \<notin> set m" "m \<noteq> []"
  shows "strstr (a @ CHR ''='' # r) (m @ CHR ''='' # u) =
    (if ends_with m a \<and> starts_with u r then Some (Some (m @ CHR ''='' # r))
     else strstr r (m @ CHR ''='' # u))"
  using assms(1,2)
proof (induction a)
  case Nil
  with assms(3,4) show ?case by (cases m) (auto simp: ends_with_iff)
next
  case (Cons c a)
  show ?case
  proof (cases "starts_with (m @ CHR ''='' # u) ((c # a) @ CHR ''='' # r)")
    case True
    then have m: "c # a = m" using Cons.prems(1) assms(3) by (rule starts_with_cut [rotated -1])
    with True have "starts_with u r" using starts_with_append [of "m @ ''=''" u r] by simp
    with m True show ?thesis by (auto simp: ends_with_iff)
  next
    case False
    then have "\<not> (c # a = m \<and> starts_with u r)"
      using starts_with_append [of "m @ ''=''" u r] by auto
    then have "ends_with m (c # a) \<and> starts_with u r \<longleftrightarrow> ends_with m a \<and> starts_with u r"
      by (auto simp: ends_with_iff Cons_eq_append_conv)
    with False Cons show ?thesis by simp
  qed
qed

lemma starts_with_cut_end:
  "CHR ''='' \<notin> set s \<Longrightarrow> NUL \<notin> set m \<Longrightarrow> \<not> starts_with (m @ CHR ''='' # u) (s @ NUL # t)"
proof (induction m arbitrary: s)
  case Nil
  then show ?case by (cases s) auto
next
  case (Cons c m)
  then show ?case by (cases s) auto
qed

lemma strstr_absent: "CHR ''='' \<notin> set s \<Longrightarrow> NUL \<notin> set s \<Longrightarrow> NUL \<notin> set m \<Longrightarrow>
    strstr (s @ NUL # t) (m @ CHR ''='' # u) = Some None"
proof (induction s)
  case Nil
  with starts_with_cut_end [of "[]" m u t] show ?case by simp
next
  case (Cons c s)
  with starts_with_cut_end [of "c # s" m u t] show ?case by simp
qed

text \<open>The form that \<open>textAfter\<close> and the flags need.\<close>

lemma textAfter_cut:
  assumes "CHR ''='' \<notin> set a" "NUL \<notin> set a" "CHR ''='' \<notin> set m" "NUL \<notin> set m" "m \<noteq> []"
  shows "textAfter (Some (a @ CHR ''='' # r)) (lit (m @ ''='')) =
    (if ends_with m a then Some (Some r) else textAfter (Some r) (lit (m @ ''='')))"
  using strstr_cut [OF assms(1-3,5), of r "[]"] assms(4) by (simp add: textAfter_eq)

lemma read_flag_cut:
  assumes "CHR ''='' \<notin> set a" "NUL \<notin> set a" "CHR ''='' \<notin> set m" "m \<noteq> []"
  shows "read_flag (a @ CHR ''='' # r) (m @ CHR ''='' # u) =
    (if ends_with m a \<and> starts_with u r then Some True else read_flag r (m @ CHR ''='' # u))"
  using strstr_cut [OF assms, of r u] by (simp add: read_flag_def)

lemma read_flag_absent:
  "CHR ''='' \<notin> set s \<Longrightarrow> NUL \<notin> set s \<Longrightarrow> NUL \<notin> set m \<Longrightarrow> read_flag (s @ NUL # t) (m @ CHR ''='' # u) = Some False"
  by (simp add: read_flag_def strstr_absent)

lemma url_encode_chars:
  assumes "c \<in> set (url_encode s)"
  shows "c \<notin> {CHR ''='', CHR ''&'', CHR '' '', NUL}"
proof -
  have "hexdict ! n \<in> set hexdict" if "n < 16" for n
    using that by (intro nth_mem) (simp add: hexdict_def)
  then have "c \<in> set nonreserved \<union> set hexdict \<union> {CHR ''%''}"
    using assms by (auto simp: url_encode_def url_enc_byte_def split: if_splits)
  then show ?thesis by (auto simp: nonreserved_def hexdict_def)
qed

lemma url_encode_last: "CHR ''%'' \<notin> set (drop (length (url_encode s) - 2) (url_encode s))"
proof (induction s rule: rev_induct)
  case (snoc x s)
  have digit: "hexdict ! n \<noteq> CHR ''%''" if "n < 16" for n
    using nth_mem [of n hexdict] that by (auto simp: hexdict_def)
  show ?case
  proof (cases "x \<in> set nonreserved")
    case True
    then have u: "url_encode (s @ [x]) = url_encode s @ [x]" by (simp add: url_encode_def url_enc_byte_def)
    have "set (drop (length (url_encode s) - 1) (url_encode s)) \<subseteq> set (drop (length (url_encode s) - 2) (url_encode s))"
      by (rule set_drop_subset_set_drop) simp
    moreover have "x \<noteq> CHR ''%''" using True percent_reserved by auto
    ultimately show ?thesis using snoc unfolding u by auto
  next
    case False
    then have u: "url_encode (s @ [x]) = (url_encode s @ ''%'') @ [hexdict ! (of_char x div 16), hexdict ! (of_char x mod 16)]"
      by (simp add: url_encode_def url_enc_byte_def)
    have "drop (length (url_encode (s @ [x])) - 2) (url_encode (s @ [x])) =
        [hexdict ! (of_char x div 16), hexdict ! (of_char x mod 16)]"
      unfolding u by simp
    then show ?thesis using digit [of "of_char x div 16"] digit [of "of_char x mod 16"] by auto
  qed
qed (simp add: url_encode_def)

section \<open>Reading it back\<close>

fun event_text :: "bt_event \<Rightarrow> string" where
  "event_text STARTED = ''started''"
| "event_text STOPPED = ''stopped''"
| "event_text COMPLETED = ''completed''"
| "event_text NONE = []"

definition flag_text :: "bool \<Rightarrow> string" where
  "flag_text b = (if b then ''1'' else ''0'')"

text \<open>The part of a request between \<^verbatim>\<open>GET /announce\<close> and the blank.\<close>

definition query_text :: "string \<Rightarrow> string \<Rightarrow> nat \<Rightarrow> nat \<Rightarrow> bool \<Rightarrow> bool \<Rightarrow> bt_event \<Rightarrow> nat \<Rightarrow> string" where
  "query_text h pid port left compact no_peer_id ev numwant =
     ''?info_hash='' @ url_encode h @ ''&peer_id='' @ url_encode pid @ ''&port='' @ dec_nat port @
     ''&left='' @ dec_nat left @ ''&compact='' @ flag_text compact @ ''&no_peer_id='' @ flag_text no_peer_id @
     ''&event='' @ event_text ev @ ''&numwant='' @ dec_nat numwant"

lemma dec_nat_chars: "c \<in> set (dec_nat n) \<Longrightarrow> c \<notin> {CHR ''='', CHR ''&'', CHR '' '', NUL, CHR ''-'', CHR ''+''} \<and> \<not> isspace c"
  using dec_nat_digits [of c n] by (auto simp: isdigit_def isspace_def Let_def)

lemma read_event_text:
  "read_event (Some (event_text ev @ CHR ''&'' # r)) = Some ev"
  by (cases ev) (auto simp: read_event_def lit_def rd_def numeral_2_eq_2)

text \<open>A query is a list of segments between its equality signs, which end with the name of the next
  parameter: what a search finds is what follows the first segment that ends with the name.\<close>

fun eqs :: "string list \<Rightarrow> string \<Rightarrow> string" where
  "eqs [] t = NUL # t"
| "eqs [a] t = a @ NUL # t"
| "eqs (a # as) t = a @ CHR ''='' # eqs as t"

fun after :: "string \<Rightarrow> string list \<Rightarrow> string list option" where
  "after m (a # b # as) = (if ends_with m a then Some (b # as) else after m (b # as))"
| "after m as = None"

fun flag_in :: "string \<Rightarrow> string \<Rightarrow> string list \<Rightarrow> string \<Rightarrow> bool" where
  "flag_in m u (a # b # as) t = (ends_with m a \<and> starts_with u (eqs (b # as) t) \<or> flag_in m u (b # as) t)"
| "flag_in m u as t = False"

definition segment :: "string \<Rightarrow> bool" where
  "segment a \<longleftrightarrow> CHR ''='' \<notin> set a \<and> NUL \<notin> set a"

lemma textAfter_eqs:
  assumes "list_all segment as" "segment m" "m \<noteq> []"
  shows "textAfter (Some (eqs as t)) (lit (m @ ''='')) = Some (map_option (\<lambda>r. eqs r t) (after m as))"
  using assms
proof (induction m as rule: after.induct [case_names step none one])
  case (step m a b as)
  then have a: "CHR ''='' \<notin> set a" "NUL \<notin> set a" and m: "CHR ''='' \<notin> set m" "NUL \<notin> set m" by (simp_all add: segment_def)
  from step textAfter_cut [OF a m step.prems(3), of "eqs (b # as) t"] show ?case by simp
next
  case (none m)
  then show ?case using strstr_absent [of "[]" m t "[]"] by (simp add: segment_def textAfter_eq)
next
  case (one m a)
  then show ?case using strstr_absent [of a m t "[]"] by (simp add: segment_def textAfter_eq)
qed

lemma read_flag_eqs:
  assumes "list_all segment as" "segment m" "m \<noteq> []"
  shows "read_flag (eqs as t) (m @ CHR ''='' # u) = Some (flag_in m u as t)"
  using assms
proof (induction m u as t rule: flag_in.induct [case_names step none one])
  case (step m u a b as t)
  then have a: "CHR ''='' \<notin> set a" "NUL \<notin> set a" and m: "CHR ''='' \<notin> set m" by (simp_all add: segment_def)
  from step read_flag_cut [OF a m step.prems(3), of "eqs (b # as) t" u] show ?case by auto
next
  case (none m u t)
  then show ?case using read_flag_absent [of "[]" m t u] by (simp add: segment_def)
next
  case (one m u a t)
  then show ?case using read_flag_absent [of a m t u] by (simp add: segment_def)
qed

lemma segment_parts:
  "segment (a @ b) \<longleftrightarrow> segment a \<and> segment b" "segment []"
  "segment (c # a) \<longleftrightarrow> c \<noteq> CHR ''='' \<and> c \<noteq> NUL \<and> segment a"
  "segment (url_encode s)" "segment (dec_nat n)" "segment (flag_text f)" "segment (event_text ev)"
proof -
  show "segment (event_text ev)" by (cases ev) (simp_all add: segment_def)
qed (auto simp: segment_def flag_text_def dest: url_encode_chars dec_nat_chars)

text \<open>A 20-byte parameter at the front of the rest of the request.\<close>

lemma encoded_parameter:
  assumes "length h = 20" "NUL \<notin> set r"
  shows "httpParamLength (url_encode h @ CHR ''&'' # r @ NUL # t) = Some (length (url_encode h))"
    and "decodedStrlen (url_encode h @ CHR ''&'' # r @ NUL # t) (int (length (url_encode h))) = Some 20"
    and "strncpy (replicate 61 NUL) (url_encode h @ CHR ''&'' # r @ NUL # t) (length (url_encode h)) =
      Some (url_encode h @ replicate (61 - length (url_encode h)) NUL)"
proof -
  let ?u = "url_encode h"
  have e: "url_decode ?u = Some h" using url.roundtrip by (simp add: url_encode_def)
  show len: "httpParamLength (?u @ CHR ''&'' # r @ NUL # t) = Some (length ?u)"
    using httpParamLength_loop_eq [of ?u "CHR ''&''" "r @ NUL # t" 0] url_encode_chars [of _ h]
    by (auto simp: httpParamLength_def param_end_def)
  show "decodedStrlen (?u @ CHR ''&'' # r @ NUL # t) (int (length ?u)) = Some 20"
    using decodedStrlen_loop_prefix [of ?u "CHR ''&'' # r" 0 t 0] url_encode_last [of h] url_decode_units [OF e]
      url_encode_chars [of NUL h] assms by (auto simp: decodedStrlen_def)
  show "strncpy (replicate 61 NUL) (?u @ CHR ''&'' # r @ NUL # t) (length ?u) = Some (?u @ replicate (61 - length ?u) NUL)"
    using copy_parameter [OF _ len] length_url_encode(2) [of h] assms(1) by simp
qed

lemma query_parts:
  assumes S_def: "S = query_text h pid port left compact no_peer_id ev numwant @ NUL # t"
  shows "\<exists>x1 x2 x3 x4 x5. NUL \<notin> set x1 \<and> NUL \<notin> set x2 \<and>
    textAfter (Some S) (lit ''info_hash='') = Some (Some (url_encode h @ CHR ''&'' # x1 @ NUL # t)) \<and>
    textAfter (Some S) (lit ''peer_id='') = Some (Some (url_encode pid @ CHR ''&'' # x2 @ NUL # t)) \<and>
    textAfter (Some S) (lit ''port='') = Some (Some (dec_nat port @ CHR ''&'' # x3)) \<and>
    textAfter (Some S) (lit ''left='') = Some (Some (dec_nat left @ CHR ''&'' # x4)) \<and>
    textAfter (Some S) (lit ''event='') = Some (Some (event_text ev @ CHR ''&'' # x5)) \<and>
    textAfter (Some S) (lit ''numwant='') = Some (Some (dec_nat numwant @ NUL # t)) \<and>
    read_flag S ''compact=1'' = Some compact \<and> read_flag S ''no_peer_id=1'' = Some no_peer_id"
proof -
  let ?as = "[''?info_hash'', url_encode h @ ''&peer_id'', url_encode pid @ ''&port'', dec_nat port @ ''&left'',
    dec_nat left @ ''&compact'', flag_text compact @ ''&no_peer_id'', flag_text no_peer_id @ ''&event'',
    event_text ev @ ''&numwant'', dec_nat numwant]"
  have S: "S = eqs ?as t" by (simp add: S_def query_text_def)
  have ok: "list_all segment ?as" by (simp add: segment_parts)
  note after = textAfter_eqs [OF ok, of _ t] and flag = read_flag_eqs [OF ok, of _ t]
  define x1 where "x1 = ''peer_id='' @ url_encode pid @ ''&port='' @ dec_nat port @ ''&left='' @ dec_nat left @ ''&compact='' @
    flag_text compact @ ''&no_peer_id='' @ flag_text no_peer_id @ ''&event='' @ event_text ev @ ''&numwant='' @ dec_nat numwant"
  define x2 where "x2 = drop (length (''peer_id='' @ url_encode pid @ ''&'')) x1"
  have x2: "x2 = ''port='' @ dec_nat port @ ''&left='' @ dec_nat left @ ''&compact='' @
    flag_text compact @ ''&no_peer_id='' @ flag_text no_peer_id @ ''&event='' @ event_text ev @ ''&numwant='' @ dec_nat numwant"
    by (simp add: x2_def x1_def)
  have "NUL \<notin> set x1" using ok by (simp add: x1_def segment_def)
  moreover have "NUL \<notin> set x2" using ok by (simp add: x2 segment_def)
  moreover have "textAfter (Some S) (lit ''info_hash='') = Some (Some (url_encode h @ CHR ''&'' # x1 @ NUL # t))"
    unfolding S using after [of "''info_hash''"] by (simp add: segment_parts ends_with_def x1_def)
  moreover have "textAfter (Some S) (lit ''peer_id='') = Some (Some (url_encode pid @ CHR ''&'' # x2 @ NUL # t))"
    unfolding S using after [of "''peer_id''"] by (simp add: segment_parts ends_with_def x2)
  moreover have "\<exists>x3. textAfter (Some S) (lit ''port='') = Some (Some (dec_nat port @ CHR ''&'' # x3))"
    unfolding S using after [of "''port''"] by (simp add: segment_parts ends_with_def)
  moreover have "\<exists>x4. textAfter (Some S) (lit ''left='') = Some (Some (dec_nat left @ CHR ''&'' # x4))"
    unfolding S using after [of "''left''"] by (simp add: segment_parts ends_with_def)
  moreover have "\<exists>x5. textAfter (Some S) (lit ''event='') = Some (Some (event_text ev @ CHR ''&'' # x5))"
    unfolding S using after [of "''event''"] by (simp add: segment_parts ends_with_def)
  moreover have "textAfter (Some S) (lit ''numwant='') = Some (Some (dec_nat numwant @ NUL # t))"
    unfolding S using after [of "''numwant''"] by (simp add: segment_parts ends_with_def)
  moreover have "read_flag S ''compact=1'' = Some compact"
    unfolding S using flag [of "''compact''" "''1''"] by (simp add: segment_parts ends_with_def) (simp add: flag_text_def)
  moreover have "read_flag S ''no_peer_id=1'' = Some no_peer_id"
    unfolding S using flag [of "''no_peer_id''" "''1''"] by (simp add: segment_parts ends_with_def) (simp add: flag_text_def)
  ultimately show ?thesis by blast
qed

text \<open>The request that \<open>track\<close> should be given.\<close>

definition expected_announce ::
    "string \<Rightarrow> string \<Rightarrow> nat \<Rightarrow> nat \<Rightarrow> bool \<Rightarrow> bool \<Rightarrow> bt_event \<Rightarrow> nat \<Rightarrow> bool \<Rightarrow> string \<Rightarrow> announce" where
  "expected_announce h pid port left compact no_peer_id ev numwant v6 ip =
     \<lparr>ar_info_hash = url_encode h @ replicate (61 - length (url_encode h)) NUL,
      ar_peer_id = url_encode pid @ replicate (61 - length (url_encode pid)) NUL,
      ar_ip = ip @ replicate (46 - length ip) NUL, ar_port = to_int (int port), ar_protover = (if v6 then 6 else 4),
      ar_event = ev, ar_left = to_int (int left), ar_compact = compact, ar_no_peer_id = no_peer_id,
      ar_numwant = (let n = to_int (int numwant) in if n > 50 \<or> n \<le> 0 then 50 else n)\<rparr>"

lemma query_text_chars:
  assumes "c \<in> set (query_text h pid port left cf n ev nw)"
  shows "c \<noteq> CHR '' ''" "c \<noteq> NUL"
proof -
  have "d \<in> set (event_text ev) \<Longrightarrow> d \<noteq> CHR '' '' \<and> d \<noteq> NUL" for d by (cases ev) auto
  with assms show "c \<noteq> CHR '' ''" "c \<noteq> NUL"
    by (auto simp: query_text_def flag_text_def dest: url_encode_chars dec_nat_chars split: if_split_asm)
qed

lemma isdigit_delims [simp]: "\<not> isdigit CHR ''&''"
  by (simp add: isdigit_def)

lemma read_announce_query:
  assumes "length h = 20" "length pid = 20" "port < 2 ^ 64" "left < 2 ^ 64" "numwant < 2 ^ 64"
    and "length ip \<le> 45"
  shows "\<exists>hash peerid prt event nwant lft. 
    (let S = query_text h pid port left compact no_peer_id ev numwant @ NUL # t in
     textAfter (Some S) (lit ''info_hash='') = Some (Some hash) \<and>
     textAfter (Some S) (lit ''peer_id='') = Some (Some peerid) \<and>
     textAfter (Some S) (lit ''port='') = Some (Some prt) \<and>
     textAfter (Some S) (lit ''event='') = Some event \<and>
     textAfter (Some S) (lit ''numwant='') = Some nwant \<and>
     textAfter (Some S) (lit ''left='') = Some lft \<and>
     read_announce S (v6, ip) hash peerid prt event nwant lft =
       Some (Some (expected_announce h pid port left compact no_peer_id ev numwant v6 ip)))"
proof -
  obtain S where S: "S = query_text h pid port left compact no_peer_id ev numwant @ NUL # t" by blast
  obtain x1 x2 x3 x4 x5 where x: "NUL \<notin> set x1" "NUL \<notin> set x2"
    and p: "textAfter (Some S) (lit ''info_hash='') = Some (Some (url_encode h @ CHR ''&'' # x1 @ NUL # t))"
    "textAfter (Some S) (lit ''peer_id='') = Some (Some (url_encode pid @ CHR ''&'' # x2 @ NUL # t))"
    "textAfter (Some S) (lit ''port='') = Some (Some (dec_nat port @ CHR ''&'' # x3))"
    "textAfter (Some S) (lit ''left='') = Some (Some (dec_nat left @ CHR ''&'' # x4))"
    "textAfter (Some S) (lit ''event='') = Some (Some (event_text ev @ CHR ''&'' # x5))"
    "textAfter (Some S) (lit ''numwant='') = Some (Some (dec_nat numwant @ NUL # t))"
    and f: "read_flag S ''compact=1'' = Some compact" "read_flag S ''no_peer_id=1'' = Some no_peer_id"
    using query_parts [OF S] by metis
  have ip: "mem_put (replicate 46 NUL) 0 (ip @ [NUL]) = Some (ip @ replicate (46 - length ip) NUL)"
    using assms(6) Suc_diff_le [of "length ip" 45] by (simp add: mem_put_def)
  have "read_announce S (v6, ip) (url_encode h @ CHR ''&'' # x1 @ NUL # t) (url_encode pid @ CHR ''&'' # x2 @ NUL # t)
      (dec_nat port @ CHR ''&'' # x3) (Some (event_text ev @ CHR ''&'' # x5)) (Some (dec_nat numwant @ NUL # t))
      (Some (dec_nat left @ CHR ''&'' # x4)) =
    Some (Some (expected_announce h pid port left compact no_peer_id ev numwant v6 ip))"
    using encoded_parameter [OF assms(1) x(1)] encoded_parameter [OF assms(2) x(2)] f ip assms(3-5)
    by (simp add: read_announce_def max_len_defs cleared_announce_def read_event_text strtoul_dec_nat
        read_number_def read_numwant_def expected_announce_def Let_def)
  with p show ?thesis unfolding S [symmetric] Let_def by blast
qed

lemma charIndex_first: "x \<notin> set a \<Longrightarrow> NUL \<notin> set a \<Longrightarrow> x \<noteq> NUL \<Longrightarrow> charIndex (Some (a @ x # r)) x = Some (int (length a))"
proof -
  have "x \<notin> set a \<Longrightarrow> NUL \<notin> set a \<Longrightarrow> x \<noteq> NUL \<Longrightarrow> charIndex_loop (a @ x # r) x i = Some (i + int (length a))" for i
    by (induction a arbitrary: i) auto
  then show "x \<notin> set a \<Longrightarrow> NUL \<notin> set a \<Longrightarrow> x \<noteq> NUL \<Longrightarrow> charIndex (Some (a @ x # r)) x = Some (int (length a))"
    by (simp add: charIndex_def)
qed

text \<open>An announce with the query \<open>Q\<close>, from which the values \<open>ar\<close> are read.\<close>

definition query_reads :: "string \<Rightarrow> bool \<times> string \<Rightarrow> announce \<Rightarrow> bool" where
  "query_reads Q conn ar \<longleftrightarrow> CHR '' '' \<notin> set Q \<and> NUL \<notin> set Q \<and>
     (\<forall>t. let S = Some (Q @ NUL # t) in
        \<exists>hash peerid prt event nwant lft.
          textAfter S (lit ''info_hash='') = Some (Some hash) \<and> textAfter S (lit ''peer_id='') = Some (Some peerid) \<and>
          textAfter S (lit ''port='') = Some (Some prt) \<and> textAfter S (lit ''event='') = Some event \<and>
          textAfter S (lit ''numwant='') = Some nwant \<and> textAfter S (lit ''left='') = Some lft \<and>
          read_announce (Q @ NUL # t) conn hash peerid prt event nwant lft = Some (Some ar))"

lemma query_text_reads:
  assumes "length h = 20" "length pid = 20" "port < 2 ^ 64" "left < 2 ^ 64" "numwant < 2 ^ 64" "length ip \<le> 45"
  shows "query_reads (query_text h pid port left compact no_peer_id ev numwant) (v6, ip)
    (expected_announce h pid port left compact no_peer_id ev numwant v6 ip)"
proof -
  have "CHR '' '' \<notin> set (query_text h pid port left compact no_peer_id ev numwant)"
    "NUL \<notin> set (query_text h pid port left compact no_peer_id ev numwant)"
    using query_text_chars(1) [of "CHR '' ''"] query_text_chars(2) [of NUL] by auto
  then show ?thesis
    unfolding query_reads_def Let_def by (intro conjI allI read_announce_query [OF assms, unfolded Let_def])
qed

lemma parse_announce_reads:
  assumes "query_reads Q conn ar" "os_peer e (cl_socket client) (polls w) = Some conn"
  shows "parse_announce e q client iv (Q @ CHR '' '' # t) w =
    map_option (Pair True) (track e q (cl_socket client) ar iv w)"
proof -
  have c: "charIndex (Some (Q @ CHR '' '' # t)) CHR '' '' = Some (int (length Q))"
    using assms(1) by (intro charIndex_first) (auto simp: query_reads_def)
  have wri: "wri (Q @ CHR '' '' # t) (int (length Q)) NUL = Some (Q @ NUL # t)"
    by (simp add: wri_def wr_append)
  obtain hash peerid prt event nwant lft where p:
     "textAfter (Some (Q @ NUL # t)) (lit ''info_hash='') = Some (Some hash)"
     "textAfter (Some (Q @ NUL # t)) (lit ''peer_id='') = Some (Some peerid)"
     "textAfter (Some (Q @ NUL # t)) (lit ''port='') = Some (Some prt)"
     "textAfter (Some (Q @ NUL # t)) (lit ''event='') = Some event"
     "textAfter (Some (Q @ NUL # t)) (lit ''numwant='') = Some nwant"
     "textAfter (Some (Q @ NUL # t)) (lit ''left='') = Some lft"
     "read_announce (Q @ NUL # t) conn hash peerid prt event nwant lft = Some (Some ar)"
    using assms(1) unfolding query_reads_def Let_def by blast
  have len_neq: "int (length Q) = -1 \<longleftrightarrow> False" by simp
  have "parse_announce e q client iv (Q @ CHR '' '' # t) w =
      do { w \<leftarrow> track e q (cl_socket client) ar iv w; Some (True, w) }"
    by (simp only: parse_announce_def assms(2) option.case c Option.bind.bind_lunit wri p prod.case
        if_True not_False_eq_True simp_thms len_neq)
  then show ?thesis by (cases "track e q (cl_socket client) ar iv w") simp_all
qed

lemma strncmp0_match: "NUL \<notin> set s \<Longrightarrow> length s = n \<Longrightarrow> strncmp0 (s @ p) (lit s) n = Some True"
  by (induction s arbitrary: n) (auto simp: lit_def)

lemma parseSocket_announce:
  assumes "query_reads Q conn ar" "bs = ''GET /announce'' @ Q @ CHR '' '' # t" "length bs < 1023"
    and "os_recv e (cl_socket client) (polls w) = Some bs" "os_peer e (cl_socket client) (Suc (polls w)) = Some conn"
  shows "parseSocket e q client iv w =
    map_option (\<lambda>w'. (True, log_event (Flushed (cl_socket client)) w'))
      (track e q (cl_socket client) ar iv (w\<lparr>polls := Suc (polls w)\<rparr>))"
proof -
  let ?w = "w\<lparr>polls := Suc (polls w)\<rparr>"
  obtain r0 rest where rest: "drop (length bs) (uninit (os_stack e) 1024) = r0 # rest"
    using assms(3) by (cases "drop (length bs) (uninit (os_stack e) 1024)") auto
  have put: "mem_put (uninit (os_stack e) 1024) 0 bs = Some (bs @ r0 # rest)"
    using assms(3) rest by (simp add: mem_put_def)
  have wri: "wri (bs @ r0 # rest) (int (length bs)) NUL = Some (bs @ NUL # rest)"
    by (simp add: wri_def wr_append)
  have b: "bs @ NUL # rest = ''GET /announce'' @ Q @ CHR '' '' # t @ NUL # rest" by (simp add: assms(2))
  have get: "strncmp0 (bs @ NUL # rest) (lit ''GET /'') 5 = Some True"
    using strncmp0_match [of "''GET /''" 5 "''announce'' @ Q @ CHR '' '' # t @ NUL # rest"] by (simp add: b)
  have ann: "strncmp0 (drop 5 (bs @ NUL # rest)) (lit ''announce'') 8 = Some True"
    using strncmp0_match [of "''announce''" 8 "Q @ CHR '' '' # t @ NUL # rest"] by (simp add: b)
  have d13: "drop 13 (bs @ NUL # rest) = Q @ CHR '' '' # t @ NUL # rest" by (simp add: b)
  have peer: "os_peer e (cl_socket client) (polls ?w) = Some conn" using assms(5) by simp
  have req: "parse_request e q client iv (bs @ NUL # rest) ?w = map_option (Pair True) (track e q (cl_socket client) ar iv ?w)"
    unfolding parse_request_def get Option.bind.bind_lunit if_True ann d13
    by (rule parse_announce_reads [OF assms(1) peer])
  have peek: "recv_peek e (cl_socket client) (uninit (os_stack e) 1024) w = Some (int (length bs), bs @ r0 # rest, ?w)"
    using assms(4) put by (simp add: recv_peek_def)
  have size: "(int (length bs) = 0 \<or> int (length bs) = 1023) = False" using assms(3) by (simp add: assms(2))
  show ?thesis
    unfolding parseSocket_def peek Option.bind.bind_lunit prod.case size if_False wri req
    by (cases "track e q (cl_socket client) ar iv ?w") simp_all
qed

section \<open>Properties\<close>

text \<open>
  C6: A client that asks in the normal form gets what it asked for: when the bytes waiting on the
  socket are an announce with its parameters in the usual order, encoded as the protocol says, and
  anything after the blank, then \<open>parseSocket\<close> runs \<open>track\<close> on exactly the values the client
  encoded (the numbers cut to \<open>int\<close>, \<open>numwant\<close> replaced by 50 outside 1 to 50), discards the input
  and reports the client as dealt with.
\<close>

theorem announce_roundtrip:
  assumes "length h = 20" "length pid = 20" "port < 2 ^ 64" "left < 2 ^ 64" "numwant < 2 ^ 64"
    and bs: "bs = ''GET /announce'' @ query_text h pid port left compact no_peer_id ev numwant @ CHR '' '' # t"
    and "length bs < 1023" "os_recv e (cl_socket client) (polls w) = Some bs" "os_peer e (cl_socket client) (Suc (polls w)) = Some (v6, ip)" "length ip \<le> 45"
  shows "parseSocket e q client iv w =
    map_option (\<lambda>w'. (True, log_event (Flushed (cl_socket client)) w'))
      (track e q (cl_socket client) (expected_announce h pid port left compact no_peer_id ev numwant v6 ip) iv
        (w\<lparr>polls := Suc (polls w)\<rparr>))"
  by (rule parseSocket_announce [OF query_text_reads [OF assms(1-5,10)] bs assms(7-9)])


text \<open>
  \<open>recv\<close> is not checked for -1: when it fails (a client that resets its connection), the
  terminator is written to \<open>buf[-1]\<close>, in front of the array.
\<close>

theorem parseSocket_recv_error_undefined:
  assumes "os_recv e (cl_socket client) (polls w) = None"
  shows "parseSocket e q client iv w = None"
  using assms by (simp add: parseSocket_def recv_peek_def wri_def)

text \<open>
  A request that is not dealt with yet has had no effect: nothing was sent or recorded, its
  input is still waiting, and the client has rounds left. A client is dropped at the latest in its
  round number \<open>MAX_RECV_ITER\<close>.
\<close>

theorem parseSocket_unfinished_harmless:
  assumes "sqlite_api q opened tabs view" "pton_lengths e" "peer_texts e" "int_range iv"
    and "os_recv e (cl_socket client) (polls w) = Some bs" "length bs \<le> 1023"
    and "parseSocket e q client iv w = Some (False, w')"
  shows "w' = w\<lparr>polls := Suc (polls w)\<rparr> \<and> cl_recv_iter client < MAX_RECV_ITER"
  using sqlite_api.parseSocket_spec [OF assms(1-6)] assms(7) by fastforce


text \<open>
  A number parameter is cut to 32 bits. A client with \<open>left=4294967296\<close> is recorded with
  nothing left, and a seed count then counts it.
\<close>

theorem left_wraps_to_seed:
  assumes "k < 2 ^ 32" "\<not> isdigit c"
  shows "read_number (Some (dec_nat (k * 2 ^ 32) @ c # p)) = Some 0"
proof -
  have "to_int (int (k * 2 ^ 32)) = 0"
    by (simp add: to_int_def signed_take_bit_eq_take_bit_shift take_bit_eq_mod)
  moreover have "k * 2 ^ 32 < 2 ^ 64" using assms(1) by simp
  ultimately show ?thesis using strtoul_dec_nat [OF _ assms(2)] by (simp add: read_number_def)
qed

text \<open>
  The search for a parameter does not look for its beginning: in a request that has
  \<open>no_peer_id=\<close> before \<open>peer_id=\<close>, the value of the former is taken for the peer id, which has the
  wrong length, and the request is never answered with peers.
\<close>

theorem peer_id_found_in_no_peer_id:
  assumes "CHR ''='' \<notin> set a" "NUL \<notin> set a"
  shows "textAfter (Some (a @ ''no_peer_id=1&peer_id='' @ r @ [NUL])) (lit ''peer_id='') =
    Some (Some (''1&peer_id='' @ r @ [NUL]))"
  using textAfter_cut [of "a @ ''no_peer_id''" "''peer_id''" "''1&peer_id='' @ r @ [NUL]"] assms
  by (simp add: ends_with_def)

definition comm_os :: "string \<Rightarrow> os" where
  "comm_os bs = swarm_os\<lparr>os_recv := (\<lambda>_ _. Some bs), os_peer := (\<lambda>_ _. Some (False, ''1.2.3.4''))\<rparr>"

definition new_client :: client where
  "new_client = \<lparr>cl_thread = 0, cl_socket = 5, cl_recv_iter = 0\<rparr>"

lemma comm_facts:
  "pton_lengths (comm_os bs)" "peer_texts (comm_os bs)" "os_recv (comm_os bs) fd n = Some bs" "int_range 300"
  "os_peer (comm_os bs) fd n = Some (False, ''1.2.3.4'')"
  using swarm_facts(1) by (simp_all add: comm_os_def peer_texts_def pton_lengths_def int_range_def)

theorem announce_roundtrip_witness:
  "\<exists>w1. parseSocket (comm_os (''GET /announce'' @ query_text swarm_hash swarm_hash 6881 12 True False STARTED 30 @
        '' HTTP/1.1'')) mem_sqlite new_client 300 (sample_world swarm_db) =
     map_option (\<lambda>w'. (True, log_event (Flushed 5) w'))
      (track (comm_os (''GET /announce'' @ query_text swarm_hash swarm_hash 6881 12 True False STARTED 30 @
          '' HTTP/1.1'')) mem_sqlite 5
        (expected_announce swarm_hash swarm_hash 6881 12 True False STARTED 30 False ''1.2.3.4'') 300 w1)"
proof -
  let ?bs = "''GET /announce'' @ query_text swarm_hash swarm_hash 6881 12 True False STARTED 30 @ '' HTTP/1.1''"
  have len: "length swarm_hash = 20" by (rule swarm_facts)
  have "length ?bs < 1023"
    using length_url_encode(2) [of swarm_hash] dec_nat_length_le [of 6881 4] dec_nat_length_le [of 12 2]
      dec_nat_length_le [of 30 2] len by (simp add: query_text_def flag_text_def)
  note fits = this
  have s: "cl_socket new_client = 5" by (simp add: new_client_def)
  show ?thesis
    using announce_roundtrip [where bs = ?bs and e = "comm_os ?bs" and client = new_client and w = "sample_world swarm_db"
        and h = swarm_hash and pid = swarm_hash and port = 6881 and left = 12 and compact = True and no_peer_id = False
        and ev = STARTED and numwant = 30 and t = "''HTTP/1.1''"
        and q = mem_sqlite and iv = 300, OF len len _ _ _ _ fits comm_facts(3,5)]
    by (intro exI) (simp add: s)
qed


theorem parseSocket_recv_error_undefined_witness:
  "parseSocket swarm_os mem_sqlite new_client 300 (sample_world swarm_db) = None"
  by (rule parseSocket_recv_error_undefined) (simp add: swarm_os_def sample_os_def)

lemma incomplete_request:
  "parseSocket (comm_os ''GET /announce?'') q new_client iv w = Some (False, w\<lparr>polls := Suc (polls w)\<rparr>)"
proof -
  let ?e = "comm_os ''GET /announce?''" and ?bs = "''GET /announce?''"
  obtain r0 rest where rest: "drop (length ?bs) (uninit (os_stack ?e) 1024) = r0 # rest"
    by (cases "drop (length ?bs) (uninit (os_stack ?e) 1024)") auto
  have put: "mem_put (uninit (os_stack ?e) 1024) 0 ?bs = Some (?bs @ r0 # rest)"
    using rest by (simp add: mem_put_def)
  have wri: "wri (?bs @ r0 # rest) (int (length ?bs)) NUL = Some (?bs @ NUL # rest)"
    by (simp only: wri_def nat_int of_nat_less_0_iff if_False wr_append)
  have get: "strncmp0 (?bs @ NUL # rest) (lit ''GET /'') 5 = Some True"
    using strncmp0_match [of "''GET /''" 5 "''announce?'' @ NUL # rest"] by simp
  have ann: "strncmp0 (drop 5 (?bs @ NUL # rest)) (lit ''announce'') 8 = Some True"
    using strncmp0_match [of "''announce''" 8 "''?'' @ NUL # rest"] by simp
  have d13: "drop 13 (?bs @ NUL # rest) = CHR ''?'' # NUL # rest" by simp
  have pa: "parse_announce ?e q new_client iv (CHR ''?'' # NUL # rest) w1 = Some (False, w1)" for w1
    by (simp add: parse_announce_def comm_facts charIndex_def give_up_def new_client_def)
  have peek: "recv_peek ?e (cl_socket new_client) (uninit (os_stack ?e) 1024) w =
      Some (int (length ?bs), ?bs @ r0 # rest, w\<lparr>polls := Suc (polls w)\<rparr>)"
    using put by (simp add: recv_peek_def comm_facts)
  have size: "(int (length ?bs) = 0 \<or> int (length ?bs) = 1023) = False" by simp
  show ?thesis
    unfolding parseSocket_def peek Option.bind.bind_lunit prod.case size if_False wri parse_request_def get ann d13 pa if_True
    by (simp add: new_client_def)
qed

theorem parseSocket_unfinished_harmless_witness:
  "\<exists>w'. parseSocket (comm_os ''GET /announce?'') mem_sqlite new_client 300 (sample_world swarm_db) = Some (False, w') \<and>
     w' = (sample_world swarm_db)\<lparr>polls := 1\<rparr> \<and> cl_recv_iter new_client < MAX_RECV_ITER"
proof -
  note r = incomplete_request [of mem_sqlite 300 "sample_world swarm_db"]
  have "length ''GET /announce?'' \<le> 1023" by simp
  from parseSocket_unfinished_harmless [OF mem.sqlite_api_axioms comm_facts(1,2,4,3) this r] r
  show ?thesis by (simp add: sample_world_def)
qed


theorem left_wraps_to_seed_witness:
  "read_number (Some (dec_nat 4294967296 @ ''&'')) = Some 0"
  using left_wraps_to_seed [of 1 "CHR ''&''" "[]"] by simp

theorem peer_id_found_in_no_peer_id_witness:
  "textAfter (Some (''?no_peer_id=1&peer_id='' @ ''x'' @ [NUL])) (lit ''peer_id='') =
    Some (Some (''1&peer_id='' @ ''x'' @ [NUL]))"
  using peer_id_found_in_no_peer_id [of "''?''" "''x''"] by simp

end
