(* ===== verification/Getpeers_Run.thy ===== *)
theory Getpeers_Run
  imports Getpeers_Spec Comm_Request
begin

text \<open>
  Whole runs of the getpeers tool: the request it sends, that the tracker's parser reads it as
  meant, and the run from the command line to the text printed.
\<close>

section \<open>The request\<close>

definition getpeers_query :: "string \<Rightarrow> string \<Rightarrow> string \<Rightarrow> string \<Rightarrow> string option \<Rightarrow> bool \<Rightarrow> string" where
  "getpeers_query h pid port numwant ev compact =
     ''?info_hash='' @ url_encode h @ ''&port='' @ port @ ''&numwant='' @ numwant @ ''&peer_id='' @ url_encode pid @
     (case ev of None \<Rightarrow> [] | Some x \<Rightarrow> ''&event='' @ x) @ ''&compact='' @ flag_text compact"

definition request_port :: "request \<Rightarrow> string" where
  "request_port r = (case rq_port r of Some p \<Rightarrow> p | None \<Rightarrow> ''6969'')"

definition request_numwant :: "request \<Rightarrow> string" where
  "request_numwant r = (case rq_numwant r of Some m \<Rightarrow> m | None \<Rightarrow> ''50'')"

lemma path_merged:
  assumes "cstr path = Some p" "cstr hash = Some (url_encode h)" "cstr (rq_peerid r) = Some (url_encode pid)"
    and "NUL \<notin> set (request_port r)" "NUL \<notin> set (request_numwant r)" "\<forall>ev. rq_event r = Some ev \<longrightarrow> NUL \<notin> set ev"
  shows "string_merge (Some heap) (path_parts r path hash) =
    Some (Some (lit (p @ getpeers_query h pid (request_port r) (request_numwant r) (rq_event r) (rq_compact r))))"
proof -
  have "map cstr (path_parts r path hash) = map Some [p, ''?info_hash='', url_encode h, ''&port='', request_port r,
      ''&numwant='', request_numwant r, ''&peer_id='', url_encode pid, if rq_event r \<noteq> None then ''&event='' else [],
      case rq_event r of Some ev \<Rightarrow> ev | None \<Rightarrow> [], ''&compact='', flag_text (rq_compact r)]"
    using assms
    by (simp add: path_parts_def cstr_lit request_port_def [symmetric] request_numwant_def [symmetric] flag_text_def split: option.split)
  from string_merge_eq [OF this, of heap] show ?thesis
    by (cases "rq_event r") (simp_all add: getpeers_query_def lit_def)
qed

text \<open>A tracker that is reached at its first address and answers with the chunks \<open>cs\<close> and \<open>d\<close>.\<close>

definition answers :: "net \<Rightarrow> string \<Rightarrow> string \<Rightarrow> family \<Rightarrow> int \<Rightarrow> nat \<Rightarrow> string list \<Rightarrow> string \<Rightarrow> bool" where
  "answers t host port hints sock calls cs d \<longleftrightarrow> heap_full t \<and> send_full t \<and> sock \<noteq> -1 \<and>
     (\<exists>a as. nt_getaddrinfo t host port hints = (0, a # as) \<and> nt_socket t a = sock \<and> nt_connect t sock a) \<and>
     receives t (Suc calls) (cs @ [d]) \<and> list_all (\<lambda>c. length c = RESPONSE_BUFFER_CHUNK) cs \<and> length d < RESPONSE_BUFFER_CHUNK"

lemma http_get_answers:
  assumes "answers t host port hints sock (lk_calls k) cs d" "length cs < n"
    and "url_host u = Some h" "cstr h = Some host" "url_port u = Some p" "cstr p = Some port" "url_path u = Some q" "cstr q = Some path"
  shows "\<exists>js k'. http_get n t u hints k =
      Some (if \<exists>v. concat cs @ d = ''HTTP/'' @ v then int (length (concat cs @ d)) else -1,
        Some (concat cs @ d @ NUL # js), k') \<and>
    lk_events k' = lk_events k @ [Sent sock (request_text host port path), Closed sock]"
proof -
  note a = assms(1) [unfolded answers_def]
  from a obtain x xs where x: "nt_getaddrinfo t host port hints = (0, x # xs)" "nt_socket t x = sock" "nt_connect t sock x" by blast
  note ex = http_exchange_chunks [of t h host p port q path k cs d n sock]
  show ?thesis
    using a ex assms(2-) x connect_loop_first [of t x sock xs "-1" 0 k]
    by (simp add: http_get_def del: connect_loop.simps)
qed

text \<open>The port of a URL, with its default.\<close>

definition port_or_80 :: "string option \<Rightarrow> string" where
  "port_or_80 port = (case port of Some p \<Rightarrow> p | None \<Rightarrow> ''80'')"

lemma fetch_peers_request:
  assumes "plain_url ''http'' credentials host port path" "answers t host (port_or_80 port) (rq_family r) sock (lk_calls k) cs d"
    and "length cs < n" "concat cs @ d = ''HTTP/'' @ v"
    and "cstr hash = Some (url_encode h)" "cstr (rq_peerid r) = Some (url_encode pid)"
    and "NUL \<notin> set (request_port r)" "NUL \<notin> set (request_numwant r)" "\<forall>ev. rq_event r = Some ev \<longrightarrow> NUL \<notin> set ev"
  shows "\<exists>js k'. fetch_peers n t r (lit (url_text ''http'' credentials host port path)) hash k =
      Some (Go (concat cs @ d @ NUL # js), k') \<and>
    lk_events k' = lk_events k @ [Sent sock (request_text host (port_or_80 port)
      (path @ getpeers_query h pid (request_port r) (request_numwant r) (rq_event r) (rq_compact r))), Closed sock]"
proof -
  obtain u b where u: "parse_url_destructive (lit (url_text ''http'' credentials host port path)) = Some (u, b)"
    "components_are (url_pointers b u) ''http'' credentials host port path"
    using url_components_found [OF assms(1)] by blast
  let ?u = "url_pointers b u"
  from u(2) obtain pp hp qp where c: "url_status ?u = 0" "url_protocol ?u = Some pp" "cstr pp = Some ''http''"
    "url_host ?u = Some hp" "cstr hp = Some host" "url_path ?u = Some qp" "cstr qp = Some path"
    "map_option cstr (url_port ?u) = map_option Some port"
    by (auto simp: components_are_def)
  define u2 where "u2 = (if url_port ?u = None then ?u\<lparr>url_port := Some (lit ''80'')\<rparr> else ?u)"
  have u2: "url_host u2 = Some hp" "url_path u2 = Some qp" "\<exists>p. url_port u2 = Some p \<and> cstr p = Some (port_or_80 port)"
    using c by (auto simp: u2_def port_or_80_def cstr_lit split: option.splits)
  then obtain p where p: "url_port u2 = Some p" "cstr p = Some (port_or_80 port)" by blast
  obtain heap where heap: "nt_heap t (lk_calls k) = Some heap" using assms(2) by (auto simp: answers_def heap_full_def)
  let ?path = "path @ getpeers_query h pid (request_port r) (request_numwant r) (rq_event r) (rq_compact r)"
  note m = path_merged [OF c(7) assms(5-9), of heap]
  have noNUL: "NUL \<notin> set path" using cstr_noNUL [OF c(7)] .
  have "NUL \<notin> set ?path"
    using noNUL assms(7-9) url_encode_noNUL by (auto simp: getpeers_query_def flag_text_def split: option.splits if_split_asm)
  then have q: "cstr (lit ?path) = Some ?path" by (rule cstr_lit)
  obtain js k' where g: "http_get n t (u2\<lparr>url_path := Some (lit ?path)\<rparr>) (rq_family r) k =
      Some (int (length (concat cs @ d)), Some (concat cs @ d @ NUL # js), k')"
    "lk_events k' = lk_events k @ [Sent sock (request_text host (port_or_80 port) ?path), Closed sock]"
    using http_get_answers [OF assms(2,3), of "u2\<lparr>url_path := Some (lit ?path)\<rparr>" hp p "lit ?path" ?path] u2(1) c(5) p q assms(4) by auto
  have s: "strcmp0 pp (lit ''http'') = Some True"
    using c(3) by (auto simp: cstr_eq_Some_iff lit_def)
  have "fetch_peers n t r (lit (url_text ''http'' credentials host port path)) hash k = Some (Go (concat cs @ d @ NUL # js), k')"
    unfolding fetch_peers_def u(1) Option.bind.bind_lunit prod.case Let_def
    using c(1-3) s u2(1,2) m heap g(1) by (simp add: u2_def [symmetric])
  with g(2) show ?thesis by blast
qed

section \<open>The tracker reads the request\<close>

definition event_option :: "bt_event \<Rightarrow> string option" where
  "event_option ev = (if ev = NONE then None else Some (event_text ev))"

lemma getpeers_query_parts:
  assumes S_def: "S = getpeers_query h pid (dec_nat port) (dec_nat numwant) (event_option ev) compact @ NUL # t"
  shows "\<exists>x1 x2 x3 x4 event. NUL \<notin> set x1 \<and> NUL \<notin> set x2 \<and>
    textAfter (Some S) (lit ''info_hash='') = Some (Some (url_encode h @ CHR ''&'' # x1 @ NUL # t)) \<and>
    textAfter (Some S) (lit ''peer_id='') = Some (Some (url_encode pid @ CHR ''&'' # x2 @ NUL # t)) \<and>
    textAfter (Some S) (lit ''port='') = Some (Some (dec_nat port @ CHR ''&'' # x3)) \<and>
    textAfter (Some S) (lit ''left='') = Some None \<and>
    textAfter (Some S) (lit ''event='') = Some event \<and> read_event event = Some ev \<and>
    textAfter (Some S) (lit ''numwant='') = Some (Some (dec_nat numwant @ CHR ''&'' # x4)) \<and>
    read_flag S ''compact=1'' = Some compact \<and> read_flag S ''no_peer_id=1'' = Some False"
proof -
  define last where "last = (if ev = NONE then [url_encode pid @ ''&compact'', flag_text compact]
    else [url_encode pid @ ''&event'', event_text ev @ ''&compact'', flag_text compact])"
  let ?as = "''?info_hash'' # (url_encode h @ ''&port'') # (dec_nat port @ ''&numwant'') # (dec_nat numwant @ ''&peer_id'') # last"
  have S: "S = eqs ?as t" by (simp add: S_def getpeers_query_def event_option_def last_def)
  have ok: "list_all segment ?as" by (simp add: segment_parts last_def)
  note after = textAfter_eqs [OF ok, of _ t] and flag = read_flag_eqs [OF ok, of _ t]
  define x2 where "x2 = (if ev = NONE then ''compact='' @ flag_text compact else ''event='' @ event_text ev @ ''&compact='' @ flag_text compact)"
  define x1 where "x1 = ''port='' @ dec_nat port @ ''&numwant='' @ dec_nat numwant @ ''&peer_id='' @ url_encode pid @ CHR ''&'' # x2"
  have "NUL \<notin> set x2" using segment_parts(6,7) by (auto simp: x2_def segment_def)
  moreover from this have "NUL \<notin> set x1" using ok url_encode_noNUL by (simp add: x1_def segment_def)
  moreover have "textAfter (Some S) (lit ''info_hash='') = Some (Some (url_encode h @ CHR ''&'' # x1 @ NUL # t))"
    unfolding S using after [of "''info_hash''"] by (simp add: segment_parts ends_with_def x1_def x2_def last_def)
  moreover have "textAfter (Some S) (lit ''peer_id='') = Some (Some (url_encode pid @ CHR ''&'' # x2 @ NUL # t))"
    unfolding S using after [of "''peer_id''"] by (simp add: segment_parts ends_with_def x2_def last_def)
  moreover have "\<exists>x3. textAfter (Some S) (lit ''port='') = Some (Some (dec_nat port @ CHR ''&'' # x3))"
    unfolding S using after [of "''port''"] by (simp add: segment_parts ends_with_def last_def)
  moreover have "textAfter (Some S) (lit ''left='') = Some None"
    unfolding S using after [of "''left''"] by (simp add: segment_parts ends_with_def last_def)
  moreover have "\<exists>event. textAfter (Some S) (lit ''event='') = Some event \<and> read_event event = Some ev"
  proof (cases "ev = NONE")
    case True
    then show ?thesis
      unfolding S using after [of "''event''"] by (simp add: segment_parts ends_with_def last_def read_event_def)
  next
    case False
    then show ?thesis
      unfolding S using after [of "''event''"] read_event_text [of ev]
      by (simp add: segment_parts ends_with_def last_def)
  qed
  moreover have "\<exists>x4. textAfter (Some S) (lit ''numwant='') = Some (Some (dec_nat numwant @ CHR ''&'' # x4))"
    unfolding S using after [of "''numwant''"] by (simp add: segment_parts ends_with_def last_def)
  moreover have "read_flag S ''compact=1'' = Some compact"
    unfolding S using flag [of "''compact''" "''1''"] by (simp add: segment_parts ends_with_def last_def) (simp add: flag_text_def)
  moreover have "read_flag S ''no_peer_id=1'' = Some False"
    unfolding S using flag [of "''no_peer_id''" "''1''"] by (simp add: segment_parts ends_with_def last_def)
  ultimately show ?thesis by blast
qed

lemma getpeers_query_reads:
  assumes "length h = 20" "length pid = 20" "port < 2 ^ 64" "numwant < 2 ^ 64" "length ip \<le> 45"
  shows "query_reads (getpeers_query h pid (dec_nat port) (dec_nat numwant) (event_option ev) compact) (v6, ip)
    (expected_announce h pid port 0 compact False ev numwant v6 ip)"
proof -
  let ?Q = "getpeers_query h pid (dec_nat port) (dec_nat numwant) (event_option ev) compact"
  have evt: "CHR '' '' \<notin> set (event_text ev) \<and> NUL \<notin> set (event_text ev)" by (cases ev) auto
  then have c: "CHR '' '' \<notin> set ?Q" "NUL \<notin> set ?Q"
    by (auto simp: getpeers_query_def event_option_def flag_text_def dest: url_encode_chars dec_nat_chars)
  have ip: "mem_put (replicate 46 NUL) 0 (ip @ [NUL]) = Some (ip @ replicate (46 - length ip) NUL)"
    using assms(5) Suc_diff_le [of "length ip" 45] by (simp add: mem_put_def)
  have "\<exists>hash peerid prt event nwant lft.
      textAfter (Some (?Q @ NUL # t)) (lit ''info_hash='') = Some (Some hash) \<and>
      textAfter (Some (?Q @ NUL # t)) (lit ''peer_id='') = Some (Some peerid) \<and>
      textAfter (Some (?Q @ NUL # t)) (lit ''port='') = Some (Some prt) \<and>
      textAfter (Some (?Q @ NUL # t)) (lit ''event='') = Some event \<and>
      textAfter (Some (?Q @ NUL # t)) (lit ''numwant='') = Some nwant \<and>
      textAfter (Some (?Q @ NUL # t)) (lit ''left='') = Some lft \<and>
      read_announce (?Q @ NUL # t) (v6, ip) hash peerid prt event nwant lft =
        Some (Some (expected_announce h pid port 0 compact False ev numwant v6 ip))" for t
  proof -
    obtain x1 x2 x3 x4 event where x: "NUL \<notin> set x1" "NUL \<notin> set x2"
      and p: "textAfter (Some (?Q @ NUL # t)) (lit ''info_hash='') = Some (Some (url_encode h @ CHR ''&'' # x1 @ NUL # t))"
      "textAfter (Some (?Q @ NUL # t)) (lit ''peer_id='') = Some (Some (url_encode pid @ CHR ''&'' # x2 @ NUL # t))"
      "textAfter (Some (?Q @ NUL # t)) (lit ''port='') = Some (Some (dec_nat port @ CHR ''&'' # x3))"
      "textAfter (Some (?Q @ NUL # t)) (lit ''left='') = Some None"
      "textAfter (Some (?Q @ NUL # t)) (lit ''event='') = Some event" "read_event event = Some ev"
      "textAfter (Some (?Q @ NUL # t)) (lit ''numwant='') = Some (Some (dec_nat numwant @ CHR ''&'' # x4))"
      and f: "read_flag (?Q @ NUL # t) ''compact=1'' = Some compact" "read_flag (?Q @ NUL # t) ''no_peer_id=1'' = Some False"
      using getpeers_query_parts [OF refl, of h pid port numwant ev compact t] by blast
    have "read_announce (?Q @ NUL # t) (v6, ip) (url_encode h @ CHR ''&'' # x1 @ NUL # t) (url_encode pid @ CHR ''&'' # x2 @ NUL # t)
        (dec_nat port @ CHR ''&'' # x3) event (Some (dec_nat numwant @ CHR ''&'' # x4)) None =
      Some (Some (expected_announce h pid port 0 compact False ev numwant v6 ip))"
      using encoded_parameter [OF assms(1) x(1)] encoded_parameter [OF assms(2) x(2)] f ip assms(3,4) p(6)
      by (simp add: read_announce_def max_len_defs cleared_announce_def strtoul_dec_nat to_int_id int_range_def
          read_number_def read_numwant_def expected_announce_def Let_def)
    with p show ?thesis by blast
  qed
  with c show ?thesis unfolding query_reads_def Let_def by blast
qed

section \<open>A run\<close>

definition random_id :: "(nat \<Rightarrow> nat) \<Rightarrow> string" where
  "random_id rnd = ''-TC0010-'' @ map (\<lambda>i. char_of (rnd i mod 128 + 33)) [0..<12]"

lemma length_random_id [simp]: "length (random_id rnd) = 20"
  by (simp add: random_id_def)

lemma random_peerid_eq:
  assumes "length peerid = 61"
  shows "random_peerid rnd peerid = Some (random_id rnd @ drop 20 peerid)"
proof -
  have "strncpy_bytes (lit ''-TC0010-'') 8 = Some ''-TC0010-''"
    using strncpy_bytes_exact [of "''-TC0010-''" "[NUL]"] by (simp add: lit_def eval_nat_numeral)
  then have "strncpy peerid (lit ''-TC0010-'') 8 = Some (''-TC0010-'' @ drop 8 peerid)"
    using assms by (simp add: strncpy_def mem_put_def eval_nat_numeral)
  then show ?thesis using assms by (simp add: random_peerid_def random_id_def mem_put_def)
qed

text \<open>\<open>hashEncodeURL\<close> on a buffer of 61 bytes that ends with a NUL.\<close>

lemma hashEncodeURL_61:
  assumes "length x = 60" "m = 60 \<or> m = 61"
  obtains b where "hashEncodeURL stk (x @ [NUL]) m = Some (0, b)" "cstr b = Some (url_encode (take 20 x))" "length b = 61"
proof -
  let ?u = "url_encode (take 20 x)"
  have u: "length ?u \<le> 60" using length_url_encode(2) [of "take 20 x"] assms(1) by simp
  have e: "hashEncodeURL stk (x @ [NUL]) m =
      Some (0, take (nat m) (?u @ replicate (nat m) NUL) @ drop (nat m) (x @ [NUL]))"
    using assms hashEncodeURL_eq [of "x @ [NUL]" m stk] by auto
  have "\<exists>r. take (nat m) (?u @ replicate (nat m) NUL) @ drop (nat m) (x @ [NUL]) = ?u @ NUL # r"
  proof (cases "nat m - length ?u")
    case 0
    with u assms have "nat m = 60" "length ?u = 60" by auto
    with assms(1) show ?thesis by simp
  next
    case (Suc j)
    with u assms show ?thesis by auto
  qed
  then have "cstr (take (nat m) (?u @ replicate (nat m) NUL) @ drop (nat m) (x @ [NUL])) = Some ?u"
    using url_encode_noNUL cstr_append by metis
  with that [OF e] u assms show thesis by auto
qed

lemma hex_encode_noNUL: "NUL \<notin> set (hex_encode s)"
  using hex.encoded_noNUL by (simp add: hex_encode_def)

lemma hex_encode_digits: "list_all isxdigit (hex_encode s)"
proof -
  have d: "list_all isxdigit hexdict" by code_simp
  have "isxdigit (hexdict ! i)" if "i < 16" for i
    using d that by (simp add: list_all_length)
  then show ?thesis by (simp add: hex_encode_def hex_enc_byte_def list_all_iff)
qed

lemma encode_hash_hex:
  assumes "length h = 20"
  obtains b where "encode_hash stk (hex_encode h @ replicate 21 NUL) = Some b" "cstr b = Some (url_encode h)"
proof -
  let ?x = "h @ NUL # drop 21 (hex_encode h) @ replicate 20 NUL"
  have "hex_decode (hex_encode h) = Some h" using hex.roundtrip by (simp add: hex_encode_def)
  from destructiveHexDecode_Some [OF hex_encode_noNUL this, of "replicate 20 NUL"] assms
  have "destructiveHexDecode (hex_encode h @ NUL # replicate 20 NUL) = Some (20, ?x @ [NUL])"
    by (simp add: replicate_append_same)
  moreover obtain b where "hashEncodeURL stk (?x @ [NUL]) 60 = Some (0, b)" "cstr b = Some (url_encode (take 20 ?x))"
    using assms by (rule_tac hashEncodeURL_61 [of ?x 60]) auto
  moreover have "replicate 21 NUL = NUL # replicate 20 NUL" by (simp add: eval_nat_numeral)
  ultimately show thesis using that [of b] assms by (simp add: encode_hash_def max_len_defs)
qed

text \<open>The command line \<^verbatim>\<open>-t <url> -h <hash>\<close>.\<close>

definition hash_request :: "string \<Rightarrow> string \<Rightarrow> request" where
  "hash_request url h = empty_request\<lparr>rq_tracker := Some (lit url), rq_hash := hex_encode h @ replicate 21 NUL\<rparr>"

lemma hash_args:
  assumes "length h = 20"
  shows "getpeers_args stk fn [''-t'', url, ''-h'', hex_encode h] empty_request = Some (Go (hash_request url h))"
proof -
  have "strncpy_bytes (lit (hex_encode h)) 41 = Some (hex_encode h @ [NUL])"
    using strncpy_bytes_short [OF hex_encode_noNUL, of h 41 "[]"] assms by (simp add: lit_def)
  then have c: "strncpy (replicate 61 NUL) (lit (hex_encode h)) 41 = Some (hex_encode h @ NUL # replicate 20 NUL)"
    using assms by (simp add: strncpy_def mem_put_def)
  have "replicate 21 NUL = NUL # replicate 20 NUL" by (simp add: eval_nat_numeral)
  with c show ?thesis
    using hex_encode_digits [of h] assms
    by (simp add: rd_lit getpeers_option_def empty_request_def hash_request_def max_len_defs)
qed

lemma fill_random:
  assumes "rq_peerid r = replicate 61 NUL"
  obtains b where "fill_peerid stk rnd r = Some (r\<lparr>rq_peerid := b\<rparr>)" "cstr b = Some (url_encode (random_id rnd))"
proof -
  let ?x = "random_id rnd @ replicate 40 NUL"
  have "random_peerid rnd (replicate 61 NUL) = Some (?x @ [NUL])"
    using random_peerid_eq [of "replicate 61 NUL" rnd] replicate_Suc [of 40 NUL] by (simp add: replicate_append_same del: replicate_Suc)
  moreover obtain b where "hashEncodeURL stk (?x @ [NUL]) 61 = Some (0, b)" "cstr b = Some (url_encode (take 20 ?x))"
    by (rule hashEncodeURL_61 [of ?x 61]) auto
  ultimately show thesis using that [of b] assms by (simp add: fill_peerid_def rd_def max_len_defs)
qed

lemma getpeers_run:
  assumes "plain_url ''http'' credentials host port path" "length h = 20"
    and "answers t host (port_or_80 port) AF_UNSPEC sock (lk_calls k) cs d" "length cs < n"
    and "concat cs @ d = head @ crlf @ crlf @ benc_text (BDict kvs) @ x" "head = ''HTTP/'' @ v" "head_ok head"
    and "fits m (BDict kvs)" "2 * m < n" "answer_ok kvs"
  shows "\<exists>settings k'. getpeers_main n stk rnd dk t [fn, ''-t'', url_text ''http'' credentials host port path, ''-h'', hex_encode h] k =
      Some (0, settings @ answer_text kvs, k') \<and>
    lk_events k' = lk_events k @ [Sent sock (request_text host (port_or_80 port)
      (path @ getpeers_query h (random_id rnd) ''6969'' ''50'' None False)), Closed sock]"
proof -
  let ?url = "url_text ''http'' credentials host port path"
  define r where "r = hash_request ?url h"
  obtain b where b: "fill_peerid stk rnd r = Some (r\<lparr>rq_peerid := b\<rparr>)" "cstr b = Some (url_encode (random_id rnd))"
    by (rule fill_random [of r]) (simp add: r_def hash_request_def empty_request_def max_len_defs)
  define r2 where "r2 = r\<lparr>rq_peerid := b\<rparr>"
  have r2: "rq_tracker r2 = Some (lit ?url)" "rq_hash r2 = hex_encode h @ replicate 21 NUL" "rq_infile r2 = None"
    "rq_family r2 = AF_UNSPEC" "rq_peerid r2 = b" "rq_event r2 = None" "rq_compact r2 = False" "rq_port r2 = None" "rq_numwant r2 = None"
    by (simp_all add: r2_def r_def hash_request_def empty_request_def)
  have h0: "rd (hex_encode h @ replicate 21 NUL) 0 = Some (hex_encode h ! 0)" "hex_encode h ! 0 \<noteq> NUL"
    using assms(2) hex_encode_noNUL [of h] length_hex_encode [of h]
    by (cases "hex_encode h"; force simp: rd_def simp del: length_hex_encode)+
  have g: "given r = Some True" "given r2 = Some True"
    using h0 r2(1,2) by (simp_all add: given_def r_def hash_request_def)
  obtain hash where hash: "encode_hash stk (rq_hash r2) = Some hash" "cstr hash = Some (url_encode h)"
    using encode_hash_hex [OF assms(2)] r2(2) by metis
  have "NUL \<notin> set ?url" using assms(1) by (simp add: plain_url_def)
  moreover have "cstr (hex_encode h @ replicate 21 NUL) = Some (hex_encode h)"
    using cstr_append [OF hex_encode_noNUL, of h "replicate 20 NUL"] by (simp add: eval_nat_numeral)
  ultimately obtain settings where st: "print_settings r2 (lit ?url) = Some settings"
    using b(2) by (simp add: print_settings_def r2 cstr_lit)
  have "\<exists>js k'. fetch_peers n t r2 (lit ?url) hash k = Some (Go (concat cs @ d @ NUL # js), k') \<and>
    lk_events k' = lk_events k @ [Sent sock (request_text host (port_or_80 port)
      (path @ getpeers_query h (random_id rnd) (request_port r2) (request_numwant r2) (rq_event r2) (rq_compact r2))), Closed sock]"
    by (rule fetch_peers_request [OF assms(1) _ assms(4)])
      (use assms(3,5,6) hash(2) b(2) r2 in \<open>simp_all add: request_port_def request_numwant_def\<close>)
  then obtain js k' where f: "fetch_peers n t r2 (lit ?url) hash k = Some (Go (concat cs @ d @ NUL # js), k')"
    "lk_events k' = lk_events k @ [Sent sock (request_text host (port_or_80 port)
      (path @ getpeers_query h (random_id rnd) ''6969'' ''50'' None False)), Closed sock]"
    by (auto simp: request_port_def request_numwant_def r2)
  have "concat cs @ d @ NUL # js = head @ crlf @ crlf @ benc_text (BDict kvs) @ x @ NUL # js"
    using assms(5) by (metis append_assoc)
  with print_response_at [OF assms(7-10)] have pr: "print_response n (concat cs @ d @ NUL # js) = Some (0, answer_text kvs)"
    by metis
  have "getpeers_main n stk rnd dk t [fn, ''-t'', ?url, ''-h'', hex_encode h] k = Some (0, settings @ answer_text kvs, k')"
    unfolding getpeers_main_def list.case hash_args [OF assms(2)] Option.bind.bind_lunit proceed_def progress.case
    using b(1) g r2 st hash(1) f(1) pr
    by (simp add: check_sources_def read_sources_def query_tracker_def proceed_def r_def [symmetric] r2_def [symmetric])
  with f(2) show ?thesis by blast
qed

section \<open>Properties\<close>

text \<open>C14: the request of getpeers reaches the tracker as meant: for a tracker URL with the path \<open>announce\<close>,
  exactly one request is sent, and a tracker that receives it runs \<open>track\<close> on the hash, identifier,
  port, number, event and notation that getpeers was given (with 0 bytes left, since getpeers does
  not send that parameter: the tracker counts the tool as a seed).\<close>

theorem getpeers_announce_understood:
  assumes "plain_url ''http'' credentials host port ''announce''" "length host + length (port_or_80 port) \<le> 500"
    and "answers t host (port_or_80 port) (rq_family r) sock (lk_calls k) cs d" "length cs < n" "concat cs @ d = ''HTTP/'' @ v"
    and "cstr hash = Some (url_encode h)" "cstr (rq_peerid r) = Some (url_encode pid)" "length h = 20" "length pid = 20"
    and "request_port r = dec_nat prt" "prt < 2 ^ 64" "request_numwant r = dec_nat numwant" "numwant < 2 ^ 64"
    and "rq_event r = event_option ev"
    and bs: "bs = request_text host (port_or_80 port)
      (''announce'' @ getpeers_query h pid (dec_nat prt) (dec_nat numwant) (event_option ev) (rq_compact r))"
    and "os_recv e (cl_socket client) (polls w) = Some bs" "os_peer e (cl_socket client) (Suc (polls w)) = Some (v6, ip)" "length ip \<le> 45"
  shows "(\<exists>res k'. fetch_peers n t r (lit (url_text ''http'' credentials host port ''announce'')) hash k = Some (Go res, k') \<and>
      lk_events k' = lk_events k @ [Sent sock bs, Closed sock]) \<and>
    parseSocket e q client iv w =
      map_option (\<lambda>w'. (True, log_event (Flushed (cl_socket client)) w'))
        (track e q (cl_socket client) (expected_announce h pid prt 0 (rq_compact r) False ev numwant v6 ip) iv
          (w\<lparr>polls := Suc (polls w)\<rparr>))"
proof
  have noNUL: "NUL \<notin> set (dec_nat m)" for m using dec_nat_chars by blast
  have evs: "\<forall>x. rq_event r = Some x \<longrightarrow> NUL \<notin> set x"
    using assms(14) by (cases ev) (auto simp: event_option_def)
  let ?Q = "getpeers_query h pid (dec_nat prt) (dec_nat numwant) (event_option ev) (rq_compact r)"
  show "\<exists>res k'. fetch_peers n t r (lit (url_text ''http'' credentials host port ''announce'')) hash k = Some (Go res, k') \<and>
      lk_events k' = lk_events k @ [Sent sock bs, Closed sock]"
    using fetch_peers_request [OF assms(1,3-7) _ _ evs] assms(10,12,14) noNUL bs by simp blast
  have Q: "length ?Q \<le> 250"
  proof -
    have "length (dec_nat prt) \<le> 20" "length (dec_nat numwant) \<le> 20"
      using dec_nat_length_le [of prt 20] dec_nat_length_le [of numwant 20] assms(11,13) by auto
    moreover have "length (event_text ev) \<le> 9" by (cases ev) auto
    ultimately show ?thesis
      using length_url_encode(2) [of h] length_url_encode(2) [of pid] assms(8,9)
      by (simp add: getpeers_query_def event_option_def flag_text_def)
  qed
  have "bs = ''GET /announce'' @ ?Q @ CHR '' '' # (''HTTP/1.1'' @ crlf @ ''Host: '' @ host @ '':'' @ port_or_80 port @ crlf @
       ''User-Agent: traccoon/netlib'' @ crlf @ ''Accept-Encoding: text/plain'' @ crlf @ ''Connection: close'' @ crlf @ crlf)"
    by (simp add: bs request_text_def)
  moreover have "length bs < 1023" using Q assms(2) by (simp add: bs request_text_def crlf_def)
  ultimately show "parseSocket e q client iv w =
      map_option (\<lambda>w'. (True, log_event (Flushed (cl_socket client)) w'))
        (track e q (cl_socket client) (expected_announce h pid prt 0 (rq_compact r) False ev numwant v6 ip) iv
          (w\<lparr>polls := Suc (polls w)\<rparr>))"
    by (rule parseSocket_announce [OF getpeers_query_reads [OF assms(8,9,11,13,18)] _ _ assms(16,17)])
qed

text \<open>C15: a whole run of getpeers: called with the URL of a tracker and a hash in hexadecimal, it sends
  exactly one announce for that hash, under a fresh identifier, closes the connection, prints
  the answer the tracker gives, and exits with 0.\<close>

theorem getpeers_main_runs:
  assumes "plain_url ''http'' credentials host port path" "length h = 20"
    and "answers t host (port_or_80 port) AF_UNSPEC sock (lk_calls k) cs d" "length cs < n"
    and "concat cs @ d = head @ crlf @ crlf @ benc_text (BDict kvs) @ x" "head = ''HTTP/'' @ v" "head_ok head"
    and "fits m (BDict kvs)" "2 * m < n" "answer_ok kvs"
  shows "\<exists>settings k'. getpeers_main n stk rnd dk t [fn, ''-t'', url_text ''http'' credentials host port path, ''-h'', hex_encode h] k =
      Some (0, settings @ answer_text kvs, k') \<and>
    lk_events k' = lk_events k @ [Sent sock (request_text host (port_or_80 port)
      (path @ getpeers_query h (random_id rnd) ''6969'' ''50'' None False)), Closed sock]"
  by (rule getpeers_run [OF assms])

section \<open>Witnesses\<close>

definition sample_kvs :: "(string \<times> benc) list" where
  "sample_kvs = [(''interval'', BInt 300), (''peers'', BStr [CHR 0x7F, NUL, NUL, CHR 0x01, CHR 0x1B, CHR 0x39])]"

definition sample_response :: string where
  "sample_response = ''HTTP/1.1 200 OK'' @ crlf @ crlf @ benc_text (BDict sample_kvs)"

lemma sample_answers: "answers (sample_net [sample_response]) host port f 3 (lk_calls sample_link) [] sample_response"
proof -
  have "length sample_response < RESPONSE_BUFFER_CHUNK" by code_simp
  with sample_net_facts [of "[sample_response]"] show ?thesis
    unfolding answers_def by (simp add: sample_link_def) (simp add: sample_net_def)
qed

lemma sample_url_facts: "plain_url ''http'' None ''tracker'' (Some ''6969'') ''announce''"
  "url_text ''http'' None ''tracker'' (Some ''6969'') ''announce'' = ''http://tracker:6969/announce''"
  by code_simp+

lemma sample_kvs_facts: "fits 49 (BDict sample_kvs)" "answer_ok sample_kvs" "head_ok ''HTTP/1.1 200 OK''"
proof -
  show "fits 49 (BDict sample_kvs)" "head_ok ''HTTP/1.1 200 OK''" by code_simp+
  show "answer_ok sample_kvs" by (simp add: answer_ok_def sample_kvs_def int_ok_def int_range_def)
qed

theorem print_response_refines_witness:
  "print_response 99 (lit sample_response) = Some (0, answer_text sample_kvs)"
  using print_response_refines [OF sample_kvs_facts(3,1) _ sample_kvs_facts(2), of 99 "[NUL]"]
  by (simp add: sample_response_def lit_def)

theorem getpeers_main_runs_witness:
  "\<exists>settings k'. getpeers_main 100 (\<lambda>_. NUL) (\<lambda>i. i) (sample_disk (BInt 0)) (sample_net [sample_response])
     [''getpeers'', ''-t'', ''http://tracker:6969/announce'', ''-h'', hex_encode (replicate 20 (CHR ''a''))] sample_link =
     Some (0, settings @ answer_text sample_kvs, k')"
proof -
  have "concat [] @ sample_response = ''HTTP/1.1 200 OK'' @ crlf @ crlf @ benc_text (BDict sample_kvs) @ []"
    by (simp add: sample_response_def)
  from getpeers_main_runs [OF sample_url_facts(1) _ sample_answers _ this _ sample_kvs_facts(3,1) _ sample_kvs_facts(2),
      of "replicate 20 (CHR ''a'')" 100 "''1.1 200 OK''"]
  show ?thesis unfolding sample_url_facts(2) by fastforce
qed

theorem getpeers_announce_understood_witness:
  "\<exists>bs. parseSocket (comm_os bs) mem_sqlite new_client 300 (sample_world swarm_db) =
     map_option (\<lambda>w'. (True, log_event (Flushed 5) w'))
       (track (comm_os bs) mem_sqlite 5 (expected_announce swarm_hash swarm_hash 6881 0 True False STARTED 30 False ''1.2.3.4'') 300
         ((sample_world swarm_db)\<lparr>polls := Suc (polls (sample_world swarm_db))\<rparr>))"
proof -
  define r where "r = empty_request\<lparr>rq_peerid := lit (url_encode swarm_hash), rq_port := Some (dec_nat 6881), rq_numwant := Some (dec_nat 30),
    rq_event := event_option STARTED, rq_compact := True\<rparr>"
  let ?u = "lit (url_encode swarm_hash)"
  have c: "cstr ?u = Some (url_encode swarm_hash)" "cstr (rq_peerid r) = Some (url_encode swarm_hash)"
    using url_encode_noNUL by (simp_all add: r_def cstr_lit)
  have q: "request_port r = dec_nat 6881" "request_numwant r = dec_nat 30" "rq_event r = event_option STARTED" "rq_compact r"
    by (simp_all add: r_def request_port_def request_numwant_def)
  have s: "concat [] @ sample_response = ''HTTP/'' @ drop 5 sample_response" by code_simp
  have l: "length ''tracker'' + length (port_or_80 (Some ''6969'')) \<le> 500" by (simp add: port_or_80_def)
  define bs where "bs = request_text ''tracker'' (port_or_80 (Some ''6969''))
    (''announce'' @ getpeers_query swarm_hash swarm_hash (dec_nat 6881) (dec_nat 30) (event_option STARTED) (rq_compact r))"
  have f: "cl_socket new_client = 5" by (simp add: new_client_def)
  show ?thesis
    using getpeers_announce_understood [where client = new_client and w = "sample_world swarm_db" and q = mem_sqlite and iv = 300
        and n = 1, OF sample_url_facts(1) l sample_answers _ s c swarm_facts(7) swarm_facts(7) q(1) _ q(2) _ q(3) bs_def comm_facts(3,5)]
    by (intro exI [of _ bs]) (simp add: f q(4))
qed

lemma swarm_answer_short:
  assumes "track swarm_os mem_sqlite 5 swarm_announce 300 (sample_world swarm_db) = Some w'"
  shows "length (received 5 w') < 1000"
proof -
  let ?w = "sample_world swarm_db" and ?ps = "peers (m_tabs swarm_db)"
  have iv: "int_range 300" by (simp add: int_range_def)
  have emp: "received 5 ?w = []" by (simp add: received_def sample_world_def)
  have one: "rs = [] \<or> rs = ?ps" if "mset rs \<subseteq># mset (filter P (peers (m_tabs (wdb ?w))))" for rs P
  proof -
    obtain p where p: "?ps = [p]" by (simp add: swarm_db_def)
    with that have "mset rs \<subseteq># {#p#}" by (auto simp: sample_world_def split: if_splits)
    with p show ?thesis by (cases rs) (auto dest: size_mset_mono simp: subset_mset.le_zero_eq)
  qed
  have hd: "length (http_head ''200 OK'' STANDARD_HEADER) < 500" and ref: "\<forall>msg\<in>set refusals. length msg < 500"
    and pc: "length (concat (peers_pieces swarm_os swarm_announce 300 [])) < 500"
      "length (concat (peers_pieces swarm_os swarm_announce 300 ?ps)) < 500"
    by code_simp+
  have oth: "others x y [] = []" "others x y ?ps = [] \<or> others x y ?ps = ?ps" for x y
    by (auto simp: others_def swarm_db_def)
  from track_sends [OF mem.sqlite_api_axioms swarm_facts(1,3) iv swarm_facts(2,4-6) swarm_hash_decodes swarm_facts(7) assms]
  consider msg where "msg \<in> set refusals" "received 5 w' = http_head ''200 OK'' STANDARD_HEADER @ msg"
    | rs where "rs = [] \<or> rs = ?ps" "received 5 w' = http_head ''200 OK'' STANDARD_HEADER @
          concat (peers_pieces swarm_os swarm_announce 300 (others (map tolower ''1.2.3.4'') ''p'' rs))"
    using one emp by (metis append_Nil)
  then show ?thesis
  proof cases
    case 1
    with hd ref show ?thesis by fastforce
  next
    case (2 rs)
    then have "others (map tolower ''1.2.3.4'') ''p'' rs = [] \<or> others (map tolower ''1.2.3.4'') ''p'' rs = ?ps"
      using oth by metis
    with 2(2) hd pc show ?thesis by auto
  qed
qed


end
