(* ===== verification/Torrentinfo.thy ===== *)
theory Torrentinfo
  imports Torrentfile
begin

text \<open>
  The torrentinfo tool (\<^verbatim>\<open>src/torrentinfo/torrentinfo.c\<close>): it prints the bencoded values of a torrent
  file, from its root or from the node that a path names. What it prints is part of the result. The
  files, the memory and the digest are those of \<^typ>\<open>disk\<close>; fuel is as in \<open>Benc\<close>, one unit for each
  node and each round of a loop over the entries of a node.
\<close>

definition MAX_PRINTABLE_STRING_LENGTH :: nat where "MAX_PRINTABLE_STRING_LENGTH = 15"

definition torrentinfo_usage :: "string \<Rightarrow> string" where
  "torrentinfo_usage fn =
     ''traccooon torrentinfo utility'' @ newline @ ''Usage:'' @ newline @ tab @ tab @
     fn @ '' [-<opts>] <torrentfile>'' @ tab @ ''- Display info about <torrentfile>'' @ newline @
     ''Options:'' @ newline @
     tab @ tab @ ''-h'' @ tab @ tab @ ''Show this help'' @ newline @
     tab @ tab @ ''-r'' @ tab @ tab @ ''Recurse into compound entities'' @ newline @
     tab @ tab @ ''-H'' @ tab @ tab @ ''Display hashes'' @ newline @
     tab @ tab @ ''-t'' @ tab @ tab @ ''Display type information'' @ newline @
     tab @ tab @ ''-v'' @ tab @ tab @ ''Display value/content'' @ newline @
     tab @ tab @ ''-k <node-path>'' @ tab @ ''Use <node-path> (eg '' @ [CHR 0x27] @ ''info.length'' @ [CHR 0x27] @
       '') as root'' @ newline"

section \<open>Printing a node\<close>

record display =
  dp_recurse :: bool
  dp_hash :: bool
  dp_type :: bool
  dp_values :: bool

text \<open>The depth is an \<open>unsigned\<close>, which \<open>tab\<close> takes as an \<open>int\<close>.\<close>

definition tabs :: "nat \<Rightarrow> string" where
  "tabs depth = concat (replicate (nat (to_int (int depth))) tab)"

definition deeper :: "nat \<Rightarrow> nat \<Rightarrow> nat" where
  "deeper depth n = (depth + n) mod 2 ^ 32"

text \<open>Whether \<open>isprint\<close> holds, in the locale that a program starts with.\<close>

definition isprint :: "char \<Rightarrow> bool" where
  "isprint c \<longleftrightarrow> (let n = of_char c :: nat in 32 \<le> n \<and> n < 127)"

text \<open>The digest of the node at \<open>p\<close>; \<^term>\<open>Some None\<close> if its length cannot be found.\<close>

definition print_hash :: "nat \<Rightarrow> disk \<Rightarrow> display \<Rightarrow> string \<Rightarrow> int \<Rightarrow> string option option" where
  "print_hash n d v b p =
     (if dp_hash v then do {
        len \<leftarrow> benc_entity_length n b p;
        if len < 0 then Some None
        else do {
          node \<leftarrow> bytes_at b p len;
          hash \<leftarrow> mem_get (dk_sha1 d node) SHA_DIGEST_LENGTH;
          Some (Some (hex_encode hash @ '' '')) } }
      else Some (Some []))"

text \<open>A loop \<open>for(i=0;offset(i)>0;i++)\<close>, from \<open>i\<close> on.\<close>

fun count_entries :: "nat \<Rightarrow> (nat \<Rightarrow> int \<Rightarrow> int option) \<Rightarrow> int \<Rightarrow> int option" where
  "count_entries 0 offset i = None"
| "count_entries (Suc n) offset i = do {
     off \<leftarrow> offset n i;
     if off > 0 then do { i \<leftarrow> int_add i 1; count_entries n offset i } else Some i }"

text \<open>The characters of a string from the \<open>i\<close>th on, \<open>k\<close> of them left.\<close>

fun print_string :: "nat \<Rightarrow> nat \<Rightarrow> string \<Rightarrow> int \<Rightarrow> nat \<Rightarrow> string option" where
  "print_string 0 i b p depth = Some []"
| "print_string (Suc k) i b p depth =
     (if i \<ge> MAX_PRINTABLE_STRING_LENGTH \<and> depth > 0 then Some ''[...]''
      else do {
        x \<leftarrow> rdi b (p + int i);
        if isprint x then map_option ((#) x) (print_string k (Suc i) b p depth) else Some ''[Non-printable]'' })"

definition print_int_node :: "display \<Rightarrow> string \<Rightarrow> int \<Rightarrow> (int \<times> string) option" where
  "print_int_node v b p = do {
     c \<leftarrow> benc_int_value b p (-1);
     Some (0, (if dp_type v then ''Integer '' else []) @ (if dp_values v then dec c else []) @ newline) }"

definition print_string_node :: "display \<Rightarrow> nat \<Rightarrow> string \<Rightarrow> int \<Rightarrow> (int \<times> string) option" where
  "print_string_node v depth b p = do {
     c \<leftarrow> benc_string_length b p;
     out \<leftarrow> (if dp_values v then do {
              off \<leftarrow> benc_string_data_offset b p;
              print_string (nat c) 0 b (p + off) depth }
            else Some []);
     Some (0, (if dp_type v then ''String['' @ dec c @ ''] '' else []) @ out @ newline) }"

definition container_head :: "display \<Rightarrow> string \<Rightarrow> int \<Rightarrow> string \<Rightarrow> string" where
  "container_head v kind i entries =
     (if dp_type v then kind @ '' '' else []) @
     (if dp_values v \<and> dp_type v then ''('' @ dec i @ '' '' @ entries @ '')'' else []) @ newline"

definition type_failed :: "string \<Rightarrow> int \<Rightarrow> (int \<times> string) option" where
  "type_failed b p = do {
     q \<leftarrow> ptr_at b p;
     node \<leftarrow> cstr q;
     Some (-1, ''Type detection failed @ '' @ node @ newline) }"

text \<open>The result of the function and what it prints. The entries \<open>c\<close>, \<open>c + 1\<close>, \dots, \<open>i - 1\<close> of a
  container are printed by \<open>dict_entries\<close> and \<open>list_entries\<close>; a dictionary drops the results.\<close>

function (sequential) handle_bencoded_node :: "nat \<Rightarrow> disk \<Rightarrow> display \<Rightarrow> string \<Rightarrow> nat \<Rightarrow> int \<Rightarrow> (int \<times> string) option"
  and dict_entries :: "nat \<Rightarrow> disk \<Rightarrow> display \<Rightarrow> string \<Rightarrow> nat \<Rightarrow> int \<Rightarrow> int \<Rightarrow> int \<Rightarrow> string option"
  and list_entries :: "nat \<Rightarrow> disk \<Rightarrow> display \<Rightarrow> string \<Rightarrow> nat \<Rightarrow> int \<Rightarrow> int \<Rightarrow> int \<Rightarrow> (int \<times> string) option" where
  "handle_bencoded_node 0 d v b depth p = None"
| "handle_bencoded_node (Suc n) d v b depth p = do {
     hash \<leftarrow> print_hash n d v b p;
     if hash = None then Some (-1, tabs depth @ ''Length calculation failed'' @ newline)
     else do {
       t \<leftarrow> benc_entity_type b p;
       res \<leftarrow> (case t of
          T_DICT \<Rightarrow> do {
            i \<leftarrow> count_entries n (\<lambda>m i. benc_dict_key_offset m b p i) 0;
            out \<leftarrow> (if dp_values v \<or> dp_recurse v then dict_entries n d v b depth p 0 i else Some []);
            Some (0, container_head v ''Dict'' i ''keys'' @ out) }
        | T_LIST \<Rightarrow> do {
            i \<leftarrow> count_entries n (\<lambda>m i. benc_list_item_offset m b p i) 0;
            res \<leftarrow> (if dp_recurse v then list_entries n d v b depth p 0 i else Some (0, []));
            Some (apsnd ((@) (container_head v ''List'' i ''entries'')) res) }
        | T_INT \<Rightarrow> print_int_node v b p
        | T_STRING \<Rightarrow> print_string_node v depth b p
        | T_FAIL \<Rightarrow> type_failed b p);
       Some (apsnd ((@) (tabs depth @ the hash)) res) } }"
| "dict_entries 0 d v b depth p c i = None"
| "dict_entries (Suc n) d v b depth p c i =
     (if c < i then do {
        key_offset \<leftarrow> benc_dict_key_offset n b p c;
        off \<leftarrow> (if dp_recurse v then Option.bind (benc_entity_length n b (p + key_offset)) (int_add key_offset)
               else Some key_offset);
        key \<leftarrow> handle_bencoded_node n d v b (deeper depth 1) (p + key_offset);
        item \<leftarrow> (if dp_recurse v then handle_bencoded_node n d v b (deeper depth 2) (p + off) else Some (0, []));
        more \<leftarrow> dict_entries n d v b depth p (c + 1) i;
        Some (snd key @ snd item @ more) }
      else Some [])"
| "list_entries 0 d v b depth p c i = None"
| "list_entries (Suc n) d v b depth p c i =
     (if c < i then do {
        off \<leftarrow> benc_list_item_offset n b p c;
        item \<leftarrow> handle_bencoded_node n d v b (deeper depth 1) (p + off);
        if fst item < 0
        then Some (-1, snd item @ ''Failed to handle node '' @ dec c @ '' with offset '' @ dec off @ newline)
        else do {
          res \<leftarrow> list_entries n d v b depth p (c + 1) i;
          Some (apsnd ((@) (snd item)) res) } }
      else Some (0, []))"
  by pat_completeness auto
termination
  by (relation "measure (\<lambda>x. case x of Inl (n, _) \<Rightarrow> n | Inr (Inl (n, _)) \<Rightarrow> n | Inr (Inr (n, _)) \<Rightarrow> n)") simp_all

section \<open>The node of a path\<close>

text \<open>The tokens that \<open>strtok (path, ".")\<close> gives, one after the other.\<close>

function path_tokens :: "string \<Rightarrow> string list" where
  "path_tokens path =
     (let path = dropWhile (\<lambda>c. c = CHR ''.'') path in
      if path = [] then [] else takeWhile (\<lambda>c. c \<noteq> CHR ''.'') path # path_tokens (dropWhile (\<lambda>c. c \<noteq> CHR ''.'') path))"
  by pat_completeness auto
termination
proof (relation "measure length")
  fix path x :: string
  assume x: "x = dropWhile (\<lambda>c. c = CHR ''.'') path" "x \<noteq> []"
  then have "hd x \<noteq> CHR ''.''" using hd_dropWhile [of "\<lambda>c. c = CHR ''.''" path] by blast
  then have "dropWhile (\<lambda>c. c \<noteq> CHR ''.'') x = dropWhile (\<lambda>c. c \<noteq> CHR ''.'') (tl x)" using x(2) by (cases x) auto
  then have "length (dropWhile (\<lambda>c. c \<noteq> CHR ''.'') x) < length x"
    using x(2) length_dropWhile_le [of "\<lambda>c. c \<noteq> CHR ''.''" "tl x"] by (cases x) auto
  also have "length x \<le> length path" unfolding x(1) by (rule length_dropWhile_le)
  finally show "(dropWhile (\<lambda>c. c \<noteq> CHR ''.'') x, path) \<in> measure length" by simp
qed simp

declare path_tokens.simps [simp del]

definition quoted :: "string \<Rightarrow> string" where
  "quoted s = [CHR 0x22] @ s @ [CHR 0x22]"

text \<open>One token: the offset of the node that it names, or the same node and a message. The offset is
  an \<open>unsigned\<close>.\<close>

definition follow_token :: "nat \<Rightarrow> string \<Rightarrow> int \<Rightarrow> string \<Rightarrow> (int \<times> string) option" where
  "follow_token n b rnode_offset token = do {
     t \<leftarrow> benc_entity_type b rnode_offset;
     (case t of
        T_LIST \<Rightarrow>
          if \<not> list_all isdigit token
          then Some (rnode_offset, ''Non-integral key supplied for list, skipping'' @ newline)
          else do {
            i \<leftarrow> strtoul (lit token);
            i \<leftarrow> benc_list_item_offset n b rnode_offset (to_int i);
            Some (if i < 0 then (rnode_offset, ''List has no item '' @ token @ '', skipping'' @ newline)
                  else ((rnode_offset + i) mod 2 ^ 32, [])) }
      | T_DICT \<Rightarrow> do {
          i \<leftarrow> benc_dict_value_offset n b rnode_offset (Some (lit token));
          Some (if i > 0 then ((rnode_offset + i) mod 2 ^ 32, [])
                else (rnode_offset, ''Dict has no key '' @ quoted token @ '', skipping'' @ newline)) }
      | _ \<Rightarrow> Some (rnode_offset, ''Could not resolve full root path, token '' @ quoted token @ '' skipped'' @ newline)) }"

fun follow_path :: "nat \<Rightarrow> string \<Rightarrow> int \<Rightarrow> string list \<Rightarrow> (int \<times> string) option" where
  "follow_path n b rnode_offset [] = Some (rnode_offset, [])"
| "follow_path n b rnode_offset (token # tokens) = do {
     (rnode_offset, out) \<leftarrow> follow_token n b rnode_offset token;
     (rnode_offset, more) \<leftarrow> follow_path n b rnode_offset tokens;
     Some (rnode_offset, out @ more) }"

section \<open>The program\<close>

text \<open>What the arguments say.\<close>

record info_flags =
  fl_infile :: "string option"
  fl_rnode :: "string option"
  fl_modifiers :: bool
  fl_display :: display

datatype info_state = Info info_flags | Ends int string

definition no_flags :: info_flags where
  "no_flags = \<lparr>fl_infile = None, fl_rnode = None, fl_modifiers = False,
     fl_display = \<lparr>dp_recurse = False, dp_hash = False, dp_type = False, dp_values = False\<rparr>\<rparr>"

definition modify :: "(display \<Rightarrow> display) \<Rightarrow> info_flags \<Rightarrow> info_flags" where
  "modify f fl = fl\<lparr>fl_modifiers := True, fl_display := f (fl_display fl)\<rparr>"

text \<open>The loop over the arguments; \<open>fn\<close> is the name of the program.\<close>

fun torrentinfo_args :: "string \<Rightarrow> string list \<Rightarrow> info_flags \<Rightarrow> info_state option" where
  "torrentinfo_args fn [] fl = Some (Info fl)"
| "torrentinfo_args fn (a # args) fl = do {
     x \<leftarrow> rd (lit a) 0;
     if x \<noteq> CHR ''-'' then torrentinfo_args fn args (fl\<lparr>fl_infile := Some a\<rparr>)
     else do {
       opt \<leftarrow> rd (lit a) 1;
       if opt = CHR ''r'' then torrentinfo_args fn args (fl\<lparr>fl_display := fl_display fl\<lparr>dp_recurse := True\<rparr>\<rparr>)
       else if opt = CHR ''H'' then torrentinfo_args fn args (modify (dp_hash_update (\<lambda>_. True)) fl)
       else if opt = CHR ''t'' then torrentinfo_args fn args (modify (dp_type_update (\<lambda>_. True)) fl)
       else if opt = CHR ''v'' then torrentinfo_args fn args (modify (dp_values_update (\<lambda>_. True)) fl)
       else if opt = CHR ''k'' then
         (case args of
            [] \<Rightarrow> Some (Ends 1 (''Root node flag needs additional parameters'' @ newline @ torrentinfo_usage fn))
          | path # args \<Rightarrow> torrentinfo_args fn args (fl\<lparr>fl_rnode := Some path\<rparr>))
       else if opt = CHR ''h'' then Some (Ends 0 (torrentinfo_usage fn))
       else Some (Ends 1 (''Unknown flag: '' @ a @ newline @ torrentinfo_usage fn)) } }"

text \<open>Without a modifier everything is displayed.\<close>

definition shown_parts :: "info_flags \<Rightarrow> display" where
  "shown_parts fl =
     (if fl_modifiers fl then fl_display fl
      else (fl_display fl)\<lparr>dp_hash := True, dp_type := True, dp_values := True\<rparr>)"

text \<open>The program from the file's content on.\<close>

definition show_buffer :: "nat \<Rightarrow> disk \<Rightarrow> info_flags \<Rightarrow> string \<Rightarrow> (int \<times> string) option" where
  "show_buffer n d fl buffer = do {
     (rnode_offset, skipped) \<leftarrow>
       (case fl_rnode fl of None \<Rightarrow> Some (0, []) | Some rnode \<Rightarrow> follow_path n buffer 0 (path_tokens rnode));
     (result, out) \<leftarrow> handle_bencoded_node n d (shown_parts fl) buffer 0 rnode_offset;
     Some (if result < 0 then (-1, skipped @ out @ ''Error while handling data'' @ newline)
           else (0, skipped @ out)) }"

text \<open>Without a file name the code gives a null pointer to \<open>fopen\<close>, which is undefined.\<close>

definition torrentinfo_main :: "nat \<Rightarrow> disk \<Rightarrow> string list \<Rightarrow> (int \<times> string) option" where
  "torrentinfo_main n d argv =
     (case argv of
        [] \<Rightarrow> None
      | fn # args \<Rightarrow> do {
          st \<leftarrow> torrentinfo_args fn args no_flags;
          (case st of
             Ends code out \<Rightarrow> Some (code, out)
           | Info fl \<Rightarrow>
               (case fl_infile fl of
                  None \<Rightarrow> None
                | Some infile \<Rightarrow> do {
                    f \<leftarrow> load_file d infile;
                    (case f of
                       No_file \<Rightarrow> Some (1, ''Could not open input file '' @ quoted infile @ '', exiting.'' @ newline @ torrentinfo_usage fn)
                     | No_memory \<Rightarrow> Some (1, ''Failed to allocate file buffer, aborting'' @ newline)
                     | Loaded buffer \<Rightarrow> show_buffer n d fl buffer) })) })"

end
