(* ===== verification/Torrentinfo_Spec.thy ===== *)
theory Torrentinfo_Spec
  imports Torrentinfo Torrentfile_Spec
begin

text \<open>
  What the torrentinfo tool prints, against a printer of bencoded values, and the node that a path
  names against the selection of a value in a value.
\<close>

section \<open>A printer of values\<close>

definition hash_text :: "disk \<Rightarrow> display \<Rightarrow> benc \<Rightarrow> string" where
  "hash_text d v x = (if dp_hash v then hex_encode (dk_sha1 d (benc_text x)) @ '' '' else [])"

text \<open>The characters of a string: below the root at most 15 of them, and none behind one that cannot be
  printed.\<close>

definition readable :: "nat \<Rightarrow> string \<Rightarrow> string" where
  "readable depth s =
     (let s' = (if 0 < depth then take MAX_PRINTABLE_STRING_LENGTH s else s) in
      if list_all isprint s' then s' @ (if length s' < length s then ''[...]'' else [])
      else takeWhile isprint s' @ ''[Non-printable]'')"

definition string_text :: "disk \<Rightarrow> display \<Rightarrow> nat \<Rightarrow> string \<Rightarrow> string" where
  "string_text d v depth s =
     concat (replicate depth tab) @ hash_text d v (BStr s) @
     (if dp_type v then ''String['' @ dec (int (length s)) @ ''] '' else []) @
     (if dp_values v then readable depth s else []) @ newline"

fun node_text :: "disk \<Rightarrow> display \<Rightarrow> nat \<Rightarrow> benc \<Rightarrow> string" where
  "node_text d v depth (BInt i) =
     concat (replicate depth tab) @ hash_text d v (BInt i) @
     (if dp_type v then ''Integer '' else []) @ (if dp_values v then dec (shown (BInt i)) else []) @ newline"
| "node_text d v depth (BStr s) = string_text d v depth s"
| "node_text d v depth (BList vs) =
     concat (replicate depth tab) @ hash_text d v (BList vs) @ container_head v ''List'' (int (length vs)) ''entries'' @
     (if dp_recurse v then concat (map (node_text d v (depth + 1)) vs) else [])"
| "node_text d v depth (BDict kvs) =
     concat (replicate depth tab) @ hash_text d v (BDict kvs) @ container_head v ''Dict'' (int (length kvs)) ''keys'' @
     (if dp_recurse v then concat (map (\<lambda>(k, x). string_text d v (depth + 1) k @ node_text d v (depth + 2) x) kvs)
      else if dp_values v then concat (map (\<lambda>(k, x). string_text d v (depth + 1) k) kvs) else [])"

text \<open>All numbers of a value are \<open>int\<close>s.\<close>

fun ints_ok :: "benc \<Rightarrow> bool" where
  "ints_ok (BInt i) = int_range i"
| "ints_ok (BStr s) = True"
| "ints_ok (BList vs) = list_all ints_ok vs"
| "ints_ok (BDict kvs) = list_all (\<lambda>(k, x). ints_ok x) kvs"

section \<open>The parts of a node\<close>

lemma tabs_id: "int depth < 2 ^ 31 \<Longrightarrow> tabs depth = concat (replicate depth tab)"
  by (simp add: tabs_def to_int_id int_range_def)

lemma deeper_add: "int (depth + n) < 2 ^ 31 \<Longrightarrow> deeper depth n = depth + n"
  by (simp add: deeper_def)

lemma print_hash_at:
  assumes "stands_at p b x" "fits n x" "\<forall>x. length (dk_sha1 d x) = SHA_DIGEST_LENGTH"
  shows "print_hash n d v b p = Some (Some (hash_text d v x))"
proof -
  have "mem_get (dk_sha1 d (benc_text x)) SHA_DIGEST_LENGTH = Some (dk_sha1 d (benc_text x))"
    using assms(3) by (simp add: mem_get_def)
  then show ?thesis
    using entity_at [OF assms(1,2)] bytes_at_stands [OF assms(1)] by (simp add: print_hash_def hash_text_def)
qed

lemma count_entries_upto:
  assumes "\<And>m i. k \<le> m \<Longrightarrow> i < l \<Longrightarrow> \<exists>off > 0. offset m (int i) = Some off"
    and "\<And>m. k \<le> m \<Longrightarrow> offset m (int l) = Some (-1)"
    and "i \<le> l" "k + (l - i) < n" "int l < 2 ^ 31"
  shows "count_entries n offset (int i) = Some (int l)"
  using assms(3,4)
proof (induction n arbitrary: i)
  case (Suc n)
  show ?case
  proof (cases "i < l")
    case False
    with Suc.prems assms(2) [of n] show ?thesis by simp
  next
    case True
    have "k \<le> n" using Suc.prems(2) by simp
    from assms(1) [OF this True] obtain off where "0 < off" "offset n (int i) = Some off" by blast
    moreover have "int_add (int i) 1 = Some (int (Suc i))" using True assms(5) by (simp add: int_add_def int_range_def)
    moreover have "count_entries n offset (int (Suc i)) = Some (int l)" using Suc.prems True by (intro Suc.IH) simp_all
    ultimately show ?thesis by simp
  qed
qed simp

lemma readable_Cons:
  "readable 0 (c # s) = (if isprint c then c # readable 0 s else ''[Non-printable]'')"
  by (simp add: readable_def)

lemma print_string_bytes:
  assumes "\<And>j. j < length s \<Longrightarrow> rdi b (p + int j) = Some (s ! j)" "i \<le> length s"
    and "0 < depth \<Longrightarrow> i \<le> MAX_PRINTABLE_STRING_LENGTH"
  shows "print_string (length s - i) i b p depth =
    Some (let t = (if 0 < depth then take (MAX_PRINTABLE_STRING_LENGTH - i) (drop i s) else drop i s) in
      if list_all isprint t then t @ (if length t < length s - i then ''[...]'' else [])
      else takeWhile isprint t @ ''[Non-printable]'')"
  using assms(2,3)
proof (induction "length s - i" arbitrary: i)
  case 0
  then show ?case by simp
next
  case (Suc k)
  then have i: "i < length s" and k: "length s - i = Suc k" "length s - Suc i = k" by simp_all
  show ?case
  proof (cases "MAX_PRINTABLE_STRING_LENGTH \<le> i \<and> 0 < depth")
    case True
    with Suc.prems i k show ?thesis by simp
  next
    case False
    then have "0 < depth \<Longrightarrow> Suc i \<le> MAX_PRINTABLE_STRING_LENGTH" by simp
    from Suc.hyps(1) [of "Suc i", unfolded k(2)] i this
    have IH: "print_string k (Suc i) b p depth =
      Some (let t = (if 0 < depth then take (MAX_PRINTABLE_STRING_LENGTH - Suc i) (drop (Suc i) s) else drop (Suc i) s) in
        if list_all isprint t then t @ (if length t < k then ''[...]'' else [])
        else takeWhile isprint t @ ''[Non-printable]'')" by simp
    have d: "drop i s = s ! i # drop (Suc i) s" using i by (simp add: Cons_nth_drop_Suc)
    have t: "take (MAX_PRINTABLE_STRING_LENGTH - i) (drop i s) =
        s ! i # take (MAX_PRINTABLE_STRING_LENGTH - Suc i) (drop (Suc i) s)" if "0 < depth"
    proof -
      have "MAX_PRINTABLE_STRING_LENGTH - i = Suc (MAX_PRINTABLE_STRING_LENGTH - Suc i)" using False that by simp
      then show ?thesis using d by simp
    qed
    show ?thesis
      using False IH assms(1) [OF i] t d k by (auto simp: Let_def)
  qed
qed

section \<open>A node\<close>

definition info_at :: "disk \<Rightarrow> display \<Rightarrow> string \<Rightarrow> benc \<Rightarrow> bool" where
  "info_at d v b x \<longleftrightarrow> (\<forall>n depth p. stands_at p b x \<longrightarrow> 2 * length (benc_text x) < n \<longrightarrow>
     int (depth + length (benc_text x)) < 2 ^ 31 \<longrightarrow>
     handle_bencoded_node n d v b depth p = Some (0, node_text d v depth x))"

lemma string_info:
  assumes "stands_at p b (BStr s)" "2 * length (benc_text (BStr s)) < n"
    and "int (depth + length (benc_text (BStr s))) < 2 ^ 31" "\<forall>x. length (dk_sha1 d x) = SHA_DIGEST_LENGTH"
  shows "handle_bencoded_node n d v b depth p = Some (0, string_text d v depth s)"
proof -
  obtain m where n: "n = Suc m" using assms(2) by (cases n) auto
  with assms(2,3) have f: "fits m (BStr s)" by (simp add: fits_def)
  have s: "int (length s) < 2 ^ 31" using fits_BStr [OF f] .
  obtain off data where parts: "benc_string_length b p = Some (int (length s))" "benc_string_data_offset b p = Some off"
    "ptr_at b (p + off) = Some data" "take (length s) data = s"
    using string_parts_at [OF assms(1) s] by auto
  have "rdi b (p + off + int j) = Some (s ! j)" if "j < length s" for j
  proof -
    have "length s \<le> length data" using parts(4) by (metis length_take min.cobounded1)
    with parts(3) that have "0 \<le> p + off" "nat (p + off) + j < length b" "b ! (nat (p + off) + j) = data ! j"
      by (auto simp: ptr_at_def split: if_splits)
    moreover have "data ! j = s ! j" using parts(4) that by (metis nth_take)
    ultimately show ?thesis by (simp add: rdi_def rd_def nat_add_distrib)
  qed
  from print_string_bytes [OF this, of 0 depth]
  have "print_string (length s) 0 b (p + off) depth = Some (readable depth s)" by (simp add: readable_def Let_def)
  then have "print_string_node v depth b p = Some (0, (if dp_type v then ''String['' @ dec (int (length s)) @ ''] '' else []) @
      (if dp_values v then readable depth s else []) @ newline)"
    using parts by (simp add: print_string_node_def)
  moreover have "tabs depth = concat (replicate depth tab)" using assms(3) by (intro tabs_id) simp
  ultimately show ?thesis
    using print_hash_at [OF assms(1) f assms(4), of v] type_at [OF assms(1) f] n by (simp add: string_text_def)
qed

lemma count_items:
  assumes "stands_at p b (BList vs)" "fits k (BList vs)" "k + length vs < n"
  shows "count_entries n (\<lambda>m i. benc_list_item_offset m b p i) 0 = Some (int (length vs))"
proof -
  have l: "int (length vs) < 2 ^ 31" using assms(2) length_le_texts [of vs] unfolding fits_def benc_text_container by simp
  have "count_entries n (\<lambda>m i. benc_list_item_offset m b p i) (int 0) = Some (int (length vs))"
  proof (rule count_entries_upto [where k = k])
    show "\<exists>off>0. benc_list_item_offset m b p (int i) = Some off" if "k \<le> m" "i < length vs" for m i
      using item_at [OF assms(1) fits_more [OF assms(2) that(1)], of i] that(2) by metis
    show "benc_list_item_offset m b p (int (length vs)) = Some (-1)" if "k \<le> m" for m
      using item_at [OF assms(1) fits_more [OF assms(2) that], of "length vs"] by (metis less_irrefl)
  qed (use assms(3) l in simp_all)
  then show ?thesis by simp
qed

lemma key_at:
  assumes "stands_at p b (BDict kvs)" "fits k (BDict kvs)" "k \<le> m" "i \<le> length kvs"
  obtains off where "benc_dict_key_offset m b p (int i) = Some off"
    "if i < length kvs
     then 0 < off \<and> stands_at (p + off) b (BStr (fst (kvs ! i))) \<and>
       stands_at (p + off + int (length (benc_text (BStr (fst (kvs ! i)))))) b (snd (kvs ! i)) \<and>
       off + int (length (benc_text (BStr (fst (kvs ! i))))) < 2 ^ 31
     else off = -1"
proof -
  have "4 * length kvs \<le> length (benc_text (BDict kvs))"
    using length_dict_entries [of kvs] unfolding benc_text_container by simp
  with assms(2,4) have "int_range (int i * 2)" by (simp add: fits_def int_range_def)
  from key_index_at [OF assms(1) fits_more [OF assms(2,3)] this]
  show thesis using that by (auto split: if_splits)
qed

lemma count_keys:
  assumes "stands_at p b (BDict kvs)" "fits k (BDict kvs)" "k + length kvs < n"
  shows "count_entries n (\<lambda>m i. benc_dict_key_offset m b p i) 0 = Some (int (length kvs))"
proof -
  have l: "int (length kvs) < 2 ^ 31" using assms(2) length_dict_entries [of kvs] unfolding fits_def benc_text_container by simp
  have "count_entries n (\<lambda>m i. benc_dict_key_offset m b p i) (int 0) = Some (int (length kvs))"
  proof (rule count_entries_upto [where k = k])
    show "\<exists>off>0. benc_dict_key_offset m b p (int i) = Some off" if "k \<le> m" "i < length kvs" for m i
      using key_at [OF assms(1,2) that(1), of i] that(2) by (metis less_imp_le)
    show "benc_dict_key_offset m b p (int (length kvs)) = Some (-1)" if "k \<le> m" for m
      using key_at [OF assms(1,2) that, of "length kvs"] by (metis less_irrefl order_refl)
  qed (use assms(3) l in simp_all)
  then show ?thesis by simp
qed

text \<open>A child leaves room for the entries before it.\<close>

lemma item_length:
  assumes "c < length vs"
  shows "length (benc_text (vs ! c)) + 2 * c + 2 \<le> length (benc_text (BList vs))"
proof -
  have "benc_texts vs = benc_texts (take c vs) @ benc_text (vs ! c) @ benc_texts (drop (Suc c) vs)"
    using id_take_nth_drop [OF assms] by (metis benc_texts_simps(2,3))
  with length_texts_2 [of "take c vs"] assms show ?thesis unfolding benc_text_container by simp
qed

lemma list_entries_at:
  assumes "stands_at p b (BList vs)" "\<forall>x\<in>set vs. info_at d v b x"
    and "int (depth + length (benc_text (BList vs))) < 2 ^ 31" "c \<le> length vs" "2 * length (benc_text (BList vs)) \<le> n + c"
  shows "list_entries n d v b depth p (int c) (int (length vs)) =
    Some (0, concat (map (node_text d v (depth + 1)) (drop c vs)))"
  using assms(4,5)
proof (induction n arbitrary: c)
  case 0
  have "2 * length vs + 2 \<le> length (benc_text (BList vs))" using length_texts_2 [of vs] unfolding benc_text_container by simp
  with 0 show ?case by simp
next
  case (Suc n)
  show ?case
  proof (cases "c < length vs")
    case False
    with Suc.prems show ?thesis by simp
  next
    case True
    note l = item_length [OF True]
    then have f: "fits n (BList vs)" using Suc.prems assms(3) by (simp add: fits_def)
    obtain off where off: "benc_list_item_offset n b p (int c) = Some off" "stands_at (p + off) b (vs ! c)"
      using item_at [OF assms(1) f, of c] True by metis
    have "info_at d v b (vs ! c)" using assms(2) True by simp
    then have "handle_bencoded_node n d v b (depth + 1) (p + off) = Some (0, node_text d v (depth + 1) (vs ! c))"
      unfolding info_at_def using off(2) l Suc.prems assms(3) by simp
    moreover have "deeper depth 1 = depth + 1" using l assms(3) by (intro deeper_add) simp
    moreover have "list_entries n d v b depth p (int (Suc c)) (int (length vs)) =
        Some (0, concat (map (node_text d v (depth + 1)) (drop (Suc c) vs)))"
      using Suc.prems True by (intro Suc.IH) simp_all
    ultimately show ?thesis
      using off(1) True by (simp add: Cons_nth_drop_Suc [symmetric] add.commute)
  qed
qed

lemma dict_entries_at:
  assumes "stands_at p b (BDict kvs)" "\<forall>(k, x)\<in>set kvs. info_at d v b x"
    and "int (depth + length (benc_text (BDict kvs))) < 2 ^ 31" "c \<le> length kvs" "2 * length (benc_text (BDict kvs)) \<le> n + c"
    and hash: "\<forall>x. length (dk_sha1 d x) = SHA_DIGEST_LENGTH"
  shows "dict_entries n d v b depth p (int c) (int (length kvs)) =
    Some (concat (map (\<lambda>(k, x). string_text d v (depth + 1) k @ (if dp_recurse v then node_text d v (depth + 2) x else []))
      (drop c kvs)))"
  using assms(4,5)
proof (induction n arbitrary: c)
  case 0
  have "4 * length kvs + 2 \<le> length (benc_text (BDict kvs))" using length_dict_entries [of kvs] unfolding benc_text_container by simp
  with 0 show ?case by simp
next
  case (Suc n)
  show ?case
  proof (cases "c < length kvs")
    case False
    with Suc.prems show ?thesis by simp
  next
    case True
    obtain k x where kx: "kvs ! c = (k, x)" by (cases "kvs ! c")
    note l = pair_length [OF True kx] length_benc_text [of "BStr k"] length_benc_text [of x]
    then have f: "fits n (BDict kvs)" using Suc.prems assms(3) by (simp add: fits_def)
    obtain off where off: "benc_dict_key_offset n b p (int c) = Some off" "0 < off" "stands_at (p + off) b (BStr k)"
      "stands_at (p + off + int (length (benc_text (BStr k)))) b x" "off + int (length (benc_text (BStr k))) < 2 ^ 31"
      using key_at [OF assms(1) f order_refl, of c] True kx by (metis fst_conv snd_conv less_imp_le)
    have fk: "fits n (BStr k)" "2 * length (benc_text (BStr k)) < n" using l Suc.prems assms(3) by (simp_all add: fits_def)
    have key: "handle_bencoded_node n d v b (depth + 1) (p + off) = Some (0, string_text d v (depth + 1) k)"
      using l assms(3) by (intro string_info [OF off(3) fk(2) _ hash]) simp
    have "info_at d v b x" using assms(2) True kx by (metis case_prodD nth_mem)
    then have item: "handle_bencoded_node n d v b (depth + 2) (p + (off + int (length (benc_text (BStr k))))) =
        Some (0, node_text d v (depth + 2) x)"
      unfolding info_at_def using off(4) l Suc.prems assms(3) by (simp add: add.assoc)
    have add: "int_add off (int (length (benc_text (BStr k)))) = Some (off + int (length (benc_text (BStr k))))"
      using off(2,5) by (simp add: int_add_def int_range_def)
    have deep: "deeper depth 1 = depth + 1" "deeper depth 2 = depth + 2" using l assms(3) by (intro deeper_add; simp)+
    have rest: "dict_entries n d v b depth p (int (Suc c)) (int (length kvs)) =
        Some (concat (map (\<lambda>(k, x). string_text d v (depth + 1) k @ (if dp_recurse v then node_text d v (depth + 2) x else []))
          (drop (Suc c) kvs)))"
      using Suc.prems True by (intro Suc.IH) simp_all
    have len: "benc_entity_length n b (p + off) = Some (int (length (benc_text (BStr k))))"
      using entity_at [OF off(3) fk(1)] by simp
    show ?thesis
      using off(1) True key item add deep rest len kx
      by (simp add: Cons_nth_drop_Suc [symmetric] add.commute del: benc_text.simps)
  qed
qed

lemma node_start:
  assumes "stands_at p b x" "2 * length (benc_text x) < Suc n" "int (depth + length (benc_text x)) < 2 ^ 31"
    and "\<forall>x. length (dk_sha1 d x) = SHA_DIGEST_LENGTH"
  shows "fits n x" "print_hash n d v b p = Some (Some (hash_text d v x))" "benc_entity_type b p = Some (benc_type x)"
    "tabs depth = concat (replicate depth tab)"
proof -
  show f: "fits n x" using assms(2,3) length_benc_text [of x] by (simp add: fits_def)
  show "print_hash n d v b p = Some (Some (hash_text d v x))" by (rule print_hash_at [OF assms(1) f assms(4)])
  show "benc_entity_type b p = Some (benc_type x)" by (rule type_at [OF assms(1) f])
  show "tabs depth = concat (replicate depth tab)" using assms(3) by (intro tabs_id) simp
qed

lemma info_all:
  assumes hash: "\<forall>x. length (dk_sha1 d x) = SHA_DIGEST_LENGTH" and "ints_ok x"
  shows "info_at d v b x"
  using assms(2)
proof (induction x)
  case (BStr s)
  then show ?case using string_info [OF _ _ _ hash] by (simp add: info_at_def del: benc_text.simps)
next
  case (BInt i)
  show ?case
    unfolding info_at_def
  proof (intro allI impI)
    fix n depth p
    assume a: "stands_at p b (BInt i)" "2 * length (benc_text (BInt i)) < n" "int (depth + length (benc_text (BInt i))) < 2 ^ 31"
    then obtain m where n: "n = Suc m" by (cases n) auto
    note start = node_start [OF a(1) a(2) [unfolded n] a(3) hash]
    have "benc_int_value b p (-1) = Some (shown (BInt i))"
      using BInt by (intro shown_at [OF a(1) start(1)]) (simp add: int_ok_def)
    with start n show "handle_bencoded_node n d v b depth p = Some (0, node_text d v depth (BInt i))"
      by (simp add: print_int_node_def)
  qed
next
  case (BList vs)
  then have vs: "\<forall>x\<in>set vs. info_at d v b x" by (simp add: list_all_iff)
  show ?case
    unfolding info_at_def
  proof (intro allI impI)
    fix n depth p
    assume a: "stands_at p b (BList vs)" "2 * length (benc_text (BList vs)) < n" "int (depth + length (benc_text (BList vs))) < 2 ^ 31"
    then obtain m where n: "n = Suc m" by (cases n) auto
    note start = node_start [OF a(1) a(2) [unfolded n] a(3) hash]
    have "2 * length vs + 2 \<le> length (benc_text (BList vs))" using length_texts_2 [of vs] unfolding benc_text_container by simp
    then have "fits (length (benc_text (BList vs))) (BList vs)" "length (benc_text (BList vs)) + length vs < m"
      using a n by (simp_all add: fits_def)
    note c = count_items [OF a(1) this]
    from list_entries_at [OF a(1) vs a(3), of 0 m] a(2) n
    have "list_entries m d v b depth p 0 (int (length vs)) = Some (0, concat (map (node_text d v (depth + 1)) vs))" by simp
    with start n c show "handle_bencoded_node n d v b depth p = Some (0, node_text d v depth (BList vs))"
      by simp
  qed
next
  case (BDict kvs)
  then have kvs: "\<forall>(k, x)\<in>set kvs. info_at d v b x" by (fastforce simp: list_all_iff)
  show ?case
    unfolding info_at_def
  proof (intro allI impI)
    fix n depth p
    assume a: "stands_at p b (BDict kvs)" "2 * length (benc_text (BDict kvs)) < n" "int (depth + length (benc_text (BDict kvs))) < 2 ^ 31"
    then obtain m where n: "n = Suc m" by (cases n) auto
    note start = node_start [OF a(1) a(2) [unfolded n] a(3) hash]
    have "4 * length kvs + 2 \<le> length (benc_text (BDict kvs))" using length_dict_entries [of kvs] unfolding benc_text_container by simp
    then have "fits (length (benc_text (BDict kvs))) (BDict kvs)" "length (benc_text (BDict kvs)) + length kvs < m"
      using a n by (simp_all add: fits_def)
    note c = count_keys [OF a(1) this]
    from dict_entries_at [OF a(1) kvs a(3) _ _ hash, of 0 m] a(2) n
    have "dict_entries m d v b depth p 0 (int (length kvs)) =
      Some (concat (map (\<lambda>(k, x). string_text d v (depth + 1) k @ (if dp_recurse v then node_text d v (depth + 2) x else [])) kvs))"
      by simp
    with start n c show "handle_bencoded_node n d v b depth p = Some (0, node_text d v depth (BDict kvs))"
      by (simp split: prod.splits)
  qed
qed

section \<open>The node of a path\<close>

definition number :: "string \<Rightarrow> nat" where
  "number = foldl (\<lambda>a c. 10 * a + digit_val c) 0"

text \<open>The entry of a value that a token names. A token that names none is reported and passed over.\<close>

fun select_entry :: "string \<Rightarrow> benc \<Rightarrow> benc \<times> string" where
  "select_entry t (BList vs) =
     (if \<not> list_all isdigit t then (BList vs, ''Non-integral key supplied for list, skipping'' @ newline)
      else if number t < length vs then (vs ! number t, [])
      else (BList vs, ''List has no item '' @ t @ '', skipping'' @ newline))"
| "select_entry t (BDict kvs) =
     (case map_of kvs t of
        Some x \<Rightarrow> (x, [])
      | None \<Rightarrow> (BDict kvs, ''Dict has no key '' @ quoted t @ '', skipping'' @ newline))"
| "select_entry t x = (x, ''Could not resolve full root path, token '' @ quoted t @ '' skipped'' @ newline)"

fun select :: "string list \<Rightarrow> benc \<Rightarrow> benc \<times> string" where
  "select [] x = (x, [])"
| "select (t # ts) x = apsnd ((@) (snd (select_entry t x))) (select ts (fst (select_entry t x)))"

text \<open>The tokens that the code reads as meant: a number is an \<open>int\<close>.\<close>

definition token_ok :: "string \<Rightarrow> bool" where
  "token_ok t \<longleftrightarrow> t \<noteq> [] \<and> NUL \<notin> set t \<and> (list_all isdigit t \<longrightarrow> number t < 2 ^ 31)"

lemma strtoul_number:
  assumes "token_ok t" "list_all isdigit t"
  shows "strtoul (lit t) = Some (int (number t))"
proof -
  have d: "\<forall>c\<in>set t. isdigit c" using assms(2) by (simp add: list_all_iff)
  from assms(1) obtain c cs where t: "t = c # cs" by (auto simp: token_ok_def neq_Nil_conv)
  with d isdigit_not [of c] have "skip_space (lit t) = lit t" by (simp add: lit_def)
  moreover have "read_digits (lit t) 0 = Some (number t)"
    unfolding lit_def by (subst read_digits_append [OF d]) (simp add: number_def)
  moreover have "number t < 2 ^ 64" using assms by (simp add: token_ok_def)
  ultimately show ?thesis using t d isdigit_not [of c] by (simp add: strtoul_def lit_def)
qed

lemma stands_in: "stands_at p b x \<Longrightarrow> 0 \<le> p \<and> p < int (length b)"
  using length_benc_text [of x] by (auto simp: stands_at_parts)

lemma follow_token_at:
  assumes "stands_at p b x" "fits n x" "length b < 2 ^ 32" "token_ok t"
  shows "\<exists>q. follow_token n b p t = Some (q, snd (select_entry t x)) \<and>
    stands_at q b (fst (select_entry t x)) \<and> fits n (fst (select_entry t x))"
proof (cases x)
  case (BList vs)
  note at = assms(1,2) [unfolded BList] and ty = type_at [OF assms(1,2)]
  show ?thesis
  proof (cases "list_all isdigit t")
    case False
    with ty BList at show ?thesis by (simp add: follow_token_def)
  next
    case True
    obtain off where off: "benc_list_item_offset n b p (int (number t)) = Some off"
      "if number t < length vs then 0 < off \<and> stands_at (p + off) b (vs ! number t) else off = -1"
      by (rule item_at [OF at])
    have "to_int (int (number t)) = int (number t)"
      using assms(4) True by (intro to_int_id) (simp add: token_ok_def int_range_def)
    note run = strtoul_number [OF assms(4) True] this off(1) ty
    show ?thesis
    proof (cases "number t < length vs")
      case False
      with run off(2) True BList at show ?thesis by (simp add: follow_token_def)
    next
      case True
      with off(2) have s: "stands_at (p + off) b (vs ! number t)" "0 < off" by simp_all
      with stands_in [OF s(1)] assms(3) have "(p + off) mod 2 ^ 32 = p + off" by simp
      with run s True \<open>list_all isdigit t\<close> BList fits_item [OF True at(2)] show ?thesis by (simp add: follow_token_def)
    qed
  qed
next
  case (BDict kvs)
  note ty = type_at [OF assms(1,2)]
  have "NUL \<notin> set t" using assms(4) by (simp add: token_ok_def)
  with assms(1,2) [unfolded BDict] show ?thesis
  proof (cases rule: lookup_at)
    case absent
    with ty BDict assms(1,2) show ?thesis by (simp add: follow_token_def)
  next
    case (found y off)
    with stands_in [OF found(4)] assms(3) have "(p + off) mod 2 ^ 32 = p + off" by simp
    with found ty BDict show ?thesis by (simp add: follow_token_def)
  qed
qed (use assms(1,2) type_at [OF assms(1,2)] in \<open>simp_all add: follow_token_def\<close>)

lemma follow_path_at:
  assumes "stands_at p b x" "fits n x" "length b < 2 ^ 32" "list_all token_ok ts"
  shows "\<exists>q. follow_path n b p ts = Some (q, snd (select ts x)) \<and> stands_at q b (fst (select ts x)) \<and> fits n (fst (select ts x))"
  using assms
proof (induction ts arbitrary: p x)
  case (Cons t ts)
  obtain q where q: "follow_token n b p t = Some (q, snd (select_entry t x))"
    "stands_at q b (fst (select_entry t x))" "fits n (fst (select_entry t x))"
    using follow_token_at [OF Cons.prems(1-3)] Cons.prems(4) by auto
  from Cons.IH [OF q(2,3) assms(3)] Cons.prems(4) q(1) show ?case by auto
qed simp

lemma select_entry_inside:
  assumes "fits k x" "ints_ok x"
  shows "fits k (fst (select_entry t x)) \<and> ints_ok (fst (select_entry t x))"
proof (cases x)
  case (BList vs)
  with assms fits_item [of "number t" vs k] show ?thesis by (simp add: list_all_length)
next
  case (BDict kvs)
  show ?thesis
  proof (cases "map_of kvs t")
    case (Some y)
    then have "(t, y) \<in> set kvs" by (rule map_of_SomeD)
    with assms BDict Some fits_value [OF Some, of k] show ?thesis by (auto simp: list_all_iff)
  qed (use assms BDict in simp)
qed (use assms in simp_all)

lemma select_inside: "fits k x \<Longrightarrow> ints_ok x \<Longrightarrow> fits k (fst (select ts x)) \<and> ints_ok (fst (select ts x))"
  by (induction ts arbitrary: x) (simp_all add: select_entry_inside)

section \<open>The program\<close>

lemma load_file_length:
  assumes "load_file d name = Some (Loaded buffer)" "\<forall>size data. dk_file d name = Some (size, data) \<longrightarrow> size < 2 ^ 31"
  shows "length buffer < 2 ^ 32"
  using assms by (auto simp: load_file_def wr_def elim!: bind_SomeE dest!: length_mem_put split: option.splits if_splits)

definition info_text :: "disk \<Rightarrow> info_flags \<Rightarrow> benc \<Rightarrow> string" where
  "info_text d fl x =
     (let (y, skipped) = select (case fl_rnode fl of None \<Rightarrow> [] | Some path \<Rightarrow> path_tokens path) x in
      skipped @ node_text d (shown_parts fl) 0 y)"

lemma show_buffer_at:
  assumes "stands_at 0 b x" "2 * length (benc_text x) < n" "length (benc_text x) < 2 ^ 31" "ints_ok x" "length b < 2 ^ 32"
    and "\<forall>x. length (dk_sha1 d x) = SHA_DIGEST_LENGTH" "\<forall>path. fl_rnode fl = Some path \<longrightarrow> list_all token_ok (path_tokens path)"
  shows "show_buffer n d fl b = Some (0, info_text d fl x)"
proof -
  define ts where "ts = (case fl_rnode fl of None \<Rightarrow> [] | Some path \<Rightarrow> path_tokens path)"
  obtain y skipped where sel: "select ts x = (y, skipped)" by (cases "select ts x")
  have "fits n x" "fits (length (benc_text x)) x" using assms(2,3) by (simp_all add: fits_def)
  note f = this
  have "list_all token_ok ts" using assms(7) by (simp add: ts_def split: option.splits)
  from follow_path_at [OF assms(1) f(1) assms(5) this] sel obtain q where
    q: "follow_path n b 0 ts = Some (q, skipped)" "stands_at q b y" by auto
  from select_inside [OF f(2) assms(4), of ts] sel have y: "length (benc_text y) \<le> length (benc_text x)" "ints_ok y"
    by (simp_all add: fits_def)
  from info_all [OF assms(6) y(2)] q(2) y(1) assms(2,3)
  have "handle_bencoded_node n d (shown_parts fl) b 0 q = Some (0, node_text d (shown_parts fl) 0 y)"
    unfolding info_at_def by simp
  with q(1) sel show ?thesis
    by (simp add: show_buffer_def info_text_def ts_def split: option.splits)
qed

lemma flags_only:
  assumes "list_all (\<lambda>a. a \<in> {''-r'', ''-H'', ''-t'', ''-v''}) args" "fl_infile fl = None"
  shows "\<exists>fl'. torrentinfo_args fn args fl = Some (Info fl') \<and> fl_infile fl' = None"
  using assms
proof (induction args arbitrary: fl)
  case (Cons a args)
  have "\<exists>fl1. torrentinfo_args fn (a # args) fl = torrentinfo_args fn args fl1 \<and> fl_infile fl1 = None"
    using Cons.prems by (auto simp: rd_def lit_def modify_def)
  then obtain fl1 where "torrentinfo_args fn (a # args) fl = torrentinfo_args fn args fl1" "fl_infile fl1 = None" by blast
  with Cons.IH [of fl1] Cons.prems(1) show ?case by simp
qed simp

section \<open>Properties\<close>

text \<open>C22: torrentinfo prints a well-formed file as the abstract printer does: the value at the root,
  or the one that the path names (a token that names nothing is reported and passed over), with its
  entries when \<^verbatim>\<open>-r\<close> is given, the digest, type and content of each as the flags say. The
  number shown is the one that \<open>benc_int_value\<close> gives.\<close>

theorem torrentinfo_prints:
  assumes "on_disk d name x" "torrentinfo_args fn args no_flags = Some (Info fl)" "fl_infile fl = Some name"
    and "2 * length (benc_text x) < n" "length (benc_text x) < 2 ^ 31" "ints_ok x"
    and "\<forall>size data. dk_file d name = Some (size, data) \<longrightarrow> size < 2 ^ 31"
    and "\<forall>x. length (dk_sha1 d x) = SHA_DIGEST_LENGTH" "\<forall>path. fl_rnode fl = Some path \<longrightarrow> list_all token_ok (path_tokens path)"
  shows "torrentinfo_main n d (fn # args) = Some (0, info_text d fl x)"
proof -
  obtain r where r: "load_file d name = Some (Loaded (benc_text x @ r))" "stands_at 0 (benc_text x @ r) x"
    by (rule load_on_disk [OF assms(1)])
  from show_buffer_at [OF r(2) assms(4-6) load_file_length [OF r(1) assms(7)] assms(8,9)] r(1) assms(2,3)
  show ?thesis by (simp add: torrentinfo_main_def)
qed

text \<open>the path of \<^verbatim>\<open>-k\<close>: following the tokens in the buffer ends where the text of the value
  stands that the tokens select in the bencoded value, with the same messages for the tokens that were
  passed over.\<close>

theorem follow_path_selects:
  assumes "stands_at p b x" "fits n x" "length b < 2 ^ 32" "list_all token_ok ts"
  shows "\<exists>q. follow_path n b p ts = Some (q, snd (select ts x)) \<and> stands_at q b (fst (select ts x))"
  using follow_path_at [OF assms] by blast

text \<open>torrentinfo without a file name does not show how it is used: with display flags only, or with
  no argument at all, the null pointer goes to \<open>fopen\<close>, which is undefined.\<close>

theorem torrentinfo_without_file_undefined:
  assumes "list_all (\<lambda>a. a \<in> {''-r'', ''-H'', ''-t'', ''-v''}) args"
  shows "torrentinfo_main n d (fn # args) = None"
  using flags_only [OF assms, of no_flags fn] by (auto simp: torrentinfo_main_def no_flags_def)

section \<open>Witnesses\<close>

definition sample_info :: benc where
  "sample_info = BDict [(''info'', BDict [(''files'', BList [BInt (-5), BStr ''a rather long file name'']), (''name'', BStr ''x'')])]"

lemma tokens_witness: "path_tokens ''info..files.1.'' = [''info'', ''files'', ''1'']"
  by (simp add: path_tokens.simps [of "''info..files.1.''"] path_tokens.simps [of "''..files.1.''"]
      path_tokens.simps [of "''.1.''"] path_tokens.simps [of "''.''"])

theorem torrentinfo_prints_witness:
  "torrentinfo_main 200 (sample_disk sample_info) [''torrentinfo'', ''-t'', ''-v'', ''x.torrent'', ''-k'', ''info..files.1.''] =
     Some (0, ''String[23] a rather long file name'' @ newline)"
proof -
  define fl where "fl = \<lparr>fl_infile = Some ''x.torrent'', fl_rnode = Some ''info..files.1.'', fl_modifiers = True,
     fl_display = \<lparr>dp_recurse = False, dp_hash = False, dp_type = True, dp_values = True\<rparr>\<rparr>"
  have a: "torrentinfo_args ''torrentinfo'' [''-t'', ''-v'', ''x.torrent'', ''-k'', ''info..files.1.''] no_flags = Some (Info fl)"
    unfolding fl_def by code_simp
  have l: "2 * length (benc_text sample_info) < 200" "ints_ok sample_info" by code_simp+
  have t: "list_all token_ok [''info'', ''files'', ''1'']" by (simp add: token_ok_def isdigit_def number_def digit_val_def)
  have "info_text (sample_disk sample_info) fl sample_info = ''String[23] a rather long file name'' @ newline"
    unfolding info_text_def fl_def info_flags.simps option.case tokens_witness by code_simp
  moreover have "torrentinfo_main 200 (sample_disk sample_info) [''torrentinfo'', ''-t'', ''-v'', ''x.torrent'', ''-k'', ''info..files.1.''] =
     Some (0, info_text (sample_disk sample_info) fl sample_info)"
  proof (rule torrentinfo_prints [OF sample_disk_facts(1) a _ l(1) _ l(2) _ sample_disk_facts(2)])
    show "length (benc_text sample_info) < 2 ^ 31" using l(1) by simp
    show "\<forall>size data. dk_file (sample_disk sample_info) ''x.torrent'' = Some (size, data) \<longrightarrow> size < 2 ^ 31"
      using l(1) by (simp add: sample_disk_def)
  qed (use t in \<open>simp_all add: fl_def tokens_witness\<close>)
  ultimately show ?thesis by simp
qed

theorem follow_path_selects_witness:
  "\<exists>q. follow_path 200 (benc_text sample_info) 0 [''info'', ''files'', ''0''] = Some (q, []) \<and>
     stands_at q (benc_text sample_info) (BInt (-5))"
proof -
  have "stands_at 0 (benc_text sample_info) sample_info" using stands_atI [of 0 "[]" sample_info "[]"] by simp
  moreover have "fits 200 sample_info" by code_simp
  moreover from this have "length (benc_text sample_info) < 2 ^ 32" by (simp add: fits_def)
  moreover have "list_all token_ok [''info'', ''files'', ''0'']"
    by (simp add: token_ok_def isdigit_def number_def digit_val_def)
  moreover have "select [''info'', ''files'', ''0''] sample_info = (BInt (-5), [])" by code_simp
  ultimately show ?thesis
    using follow_path_selects [of 0 "benc_text sample_info" sample_info 200 "[''info'', ''files'', ''0'']"] by simp
qed

theorem torrentinfo_without_file_undefined_witness: "torrentinfo_main 9 (sample_disk (BInt 7)) [''torrentinfo'', ''-r''] = None"
  by (rule torrentinfo_without_file_undefined) simp

end
