(* ===== verification/Test_Programs.thy ===== *)
theory Test_Programs
  imports Netlib_Spec Benc_Spec
begin

text \<open>
  The small programs that exercise the codecs, the URL parser and the bencode reader
  (\<^verbatim>\<open>src/test/hexenc.c\<close>, \<^verbatim>\<open>src/test/encfixup.c\<close>, \<^verbatim>\<open>src/test/urlparse_tests.c\<close>,
  \<^verbatim>\<open>src/benc/benctest.c\<close>): exit code and text printed; \<open>argv\<close> holds at least the program's name.
\<close>

definition usage_line :: "string \<Rightarrow> string \<Rightarrow> string" where
  "usage_line fn args = ''Usage: '' @ fn @ '' '' @ args @ newline"

text \<open>\<^verbatim>\<open>encfixup\<close>: percent-decode the argument.\<close>

definition encfixup_main :: "(nat \<Rightarrow> char) \<Rightarrow> string list \<Rightarrow> (int \<times> string) option" where
  "encfixup_main stk argv =
     (case argv of
        fn # hash # _ \<Rightarrow> do {
          hashbuf \<leftarrow> strncpy (uninit stk (MAX_URLENC_HASH_LEN + 1)) (lit hash) (MAX_URLENC_HASH_LEN + 1);
          input \<leftarrow> cstr hashbuf;
          (_, hashbuf) \<leftarrow> destructiveURLDecode hashbuf;
          output \<leftarrow> cstr hashbuf;
          Some (0, ''Input is '' @ input @ newline @ ''Output is '' @ output @ newline) }
      | [fn] \<Rightarrow> Some (1, usage_line fn ''<hash>'')
      | [] \<Rightarrow> None)"

text \<open>\<^verbatim>\<open>hexenc\<close>: hex-decode the argument and encode it again.\<close>

definition hexenc_main :: "(nat \<Rightarrow> char) \<Rightarrow> string list \<Rightarrow> (int \<times> string) option" where
  "hexenc_main stk argv =
     (case argv of
        fn # hash # _ \<Rightarrow> do {
          hashbuf \<leftarrow> strncpy (uninit stk (MAX_HEXENC_HASH_LEN + 1)) (lit hash) (MAX_HEXENC_HASH_LEN + 1);
          hashbuf \<leftarrow> wr hashbuf MAX_HEXENC_HASH_LEN NUL;
          input \<leftarrow> cstr hashbuf;
          (_, hashbuf) \<leftarrow> destructiveHexDecode hashbuf;
          hashbuf \<leftarrow> wr hashbuf MAX_HASH_LEN NUL;
          decoded \<leftarrow> cstr hashbuf;
          (_, hashbuf) \<leftarrow> hashEncodeHex stk hashbuf (int (MAX_HEXENC_HASH_LEN + 1));
          output \<leftarrow> cstr hashbuf;
          Some (0, ''Input is '' @ tab @ tab @ input @ newline @ ''Decoded hash is '' @ tab @ decoded @ newline @
            ''Output is '' @ tab @ tab @ output @ newline) }
      | [fn] \<Rightarrow> Some (1, usage_line fn ''<hexenc-hash>'')
      | [] \<Rightarrow> None)"

text \<open>\<^verbatim>\<open>urlparse_tests\<close>: print the components; a null pointer for \<open>%s\<close> is undefined.\<close>

definition component_line :: "string \<Rightarrow> cptr option \<Rightarrow> string option" where
  "component_line label component = map_option (\<lambda>s. label @ s @ newline) (Option.bind component cstr)"

definition urlparse_main :: "string list \<Rightarrow> (int \<times> string) option" where
  "urlparse_main argv =
     (case argv of
        fn # url # _ \<Rightarrow> do {
          (u, url) \<leftarrow> parse_url_destructive (lit url);
          let rv = url_pointers url u;
          protocol \<leftarrow> component_line (''Protocol'' @ tab) (url_protocol rv);
          credentials \<leftarrow> component_line (''Credentials'' @ tab) (url_credentials rv);
          host \<leftarrow> component_line (''Host'' @ tab @ tab) (url_host rv);
          port \<leftarrow> component_line (''Port'' @ tab @ tab) (url_port rv);
          path \<leftarrow> component_line (''Path'' @ tab @ tab) (url_path rv);
          Some (0, ''Status'' @ tab @ tab @ dec (url_status rv) @ newline @ protocol @ credentials @ host @ port @ path) }
      | _ \<Rightarrow> Some (-1, []))"

text \<open>\<^verbatim>\<open>benctest\<close>: the types of the items of a fixed list, up to the offset -1. \<open>benctest_round\<close> is the body
  of the loop; fuel is as in \<open>Benc\<close>.\<close>

definition inputstring :: cptr where
  "inputstring = lit ''li42e3:aaai1ee''"

fun type_name :: "benc_entity_type_t \<Rightarrow> string" where
  "type_name T_LIST = ''T_LIST''"
| "type_name T_DICT = ''T_DICT''"
| "type_name T_INT = ''T_INT''"
| "type_name T_STRING = ''T_STRING''"
| "type_name T_FAIL = ''T_FAIL''"

definition benctest_round :: "nat \<Rightarrow> int \<Rightarrow> (int \<times> string) option" where
  "benctest_round n item = do {
     off \<leftarrow> benc_list_item_offset n inputstring 0 item;
     t \<leftarrow> benc_entity_type inputstring off;
     Some (off, ''item '' @ dec item @ '' offset is '' @ dec off @ '', is '' @ type_name t @ newline) }"

fun benctest_loop :: "nat \<Rightarrow> int \<Rightarrow> string option" where
  "benctest_loop 0 item = None"
| "benctest_loop (Suc n) item = do {
     (off, out) \<leftarrow> benctest_round n item;
     item \<leftarrow> int_add item 1;
     if off \<noteq> -1 then map_option ((@) out) (benctest_loop n item) else Some out }"

definition benctest_main :: "nat \<Rightarrow> (int \<times> string) option" where
  "benctest_main n = do {
     t \<leftarrow> benc_entity_type inputstring 0;
     if t \<noteq> T_LIST then Some (0, ''Not a list.'' @ newline)
     else map_option (\<lambda>out. (0, ''Is a list!'' @ newline @ out)) (benctest_loop n 0) }"

section \<open>Properties\<close>

text \<open>What the C string in front of the first NUL of some bytes is.\<close>

lemma cstr_takeWhile: "cstr (s @ NUL # t) = Some (takeWhile (\<lambda>c. c \<noteq> NUL) s)"
  by (induction s) auto

text \<open>An escaped text of at most 60 characters is shown as it is decoded (up to a NUL in it); the array
  of a longer one is not terminated, and \<open>printf\<close> reads behind it.\<close>

theorem encfixup_decodes:
  assumes "NUL \<notin> set s" "length s \<le> 60" "url_decode s = Some d"
  shows "encfixup_main stk (fn # s # args) =
    Some (0, ''Input is '' @ s @ newline @ ''Output is '' @ takeWhile (\<lambda>c. c \<noteq> NUL) d @ newline)"
proof -
  have "61 - length s = Suc (60 - length s)" using assms(2) by simp
  then have "strncpy_bytes (s @ [NUL]) 61 = Some (s @ NUL # replicate (60 - length s) NUL)"
    using assms(1,2) by (simp add: strncpy_bytes_short)
  then have "strncpy (uninit stk 61) (s @ [NUL]) 61 = Some (s @ NUL # replicate (60 - length s) NUL)"
    using assms(2) by (simp add: strncpy_def mem_put_def)
  then have "strncpy (uninit stk (MAX_URLENC_HASH_LEN + 1)) (lit s) (MAX_URLENC_HASH_LEN + 1) =
      Some (s @ NUL # replicate (60 - length s) NUL)"
    by (simp add: max_len_defs lit_def)
  then show ?thesis
    using destructiveURLDecode_Some [OF assms(1,3)] assms(1)
    by (auto simp: encfixup_main_def cstr_takeWhile takeWhile_eq_all_conv)
qed

theorem encfixup_decodes_witness:
  "encfixup_main (\<lambda>_. NUL) [''encfixup'', ''a%2fb''] = Some (0, ''Input is a%2fb'' @ newline @ ''Output is a/b'' @ newline)"
proof -
  have "url_decode ''a%2fb'' = Some ''a/b''" by code_simp
  from encfixup_decodes [OF _ _ this] show ?thesis by simp
qed

theorem encfixup_long_undefined:
  assumes "NUL \<notin> set s" "61 \<le> length s"
  shows "encfixup_main stk (fn # s # args) = None"
proof -
  have n: "NUL \<notin> set (take 61 s)" using assms(1) by (meson in_set_takeD)
  have "take 61 s @ (drop 61 s @ [NUL]) = s @ [NUL]" by (metis append_assoc append_take_drop_id)
  with strncpy_bytes_exact [OF n, of "drop 61 s @ [NUL]"] assms(2)
  have "strncpy_bytes (s @ [NUL]) 61 = Some (take 61 s)" by simp
  then have "strncpy (uninit stk (MAX_URLENC_HASH_LEN + 1)) (lit s) (MAX_URLENC_HASH_LEN + 1) = Some (take 61 s)"
    using assms(2) by (simp add: strncpy_def max_len_defs lit_def mem_put_def)
  moreover have "cstr (take 61 s) = None"
    using n by (cases "cstr (take 61 s)") (auto dest!: cstr_SomeD)
  ultimately show ?thesis by (simp add: encfixup_main_def)
qed

theorem encfixup_long_undefined_witness: "encfixup_main (\<lambda>_. NUL) [''encfixup'', replicate 61 CHR ''a''] = None"
  by (rule encfixup_long_undefined) simp_all

text \<open>A hash of 40 hex digits comes out as it was put in.\<close>

theorem hexenc_keeps_hash:
  assumes "length h = 20"
  shows "\<exists>decoded. hexenc_main stk (fn # hex_encode h # args) =
    Some (0, ''Input is '' @ tab @ tab @ hex_encode h @ newline @ ''Decoded hash is '' @ tab @ decoded @ newline @
      ''Output is '' @ tab @ tab @ hex_encode h @ newline)"
proof -
  let ?x = "hex_encode h"
  have x: "NUL \<notin> set ?x" "length ?x = 40" "hex_decode ?x = Some h"
    using hex.encoded_noNUL hex.roundtrip assms by (simp_all add: hex_encode_def [symmetric])
  have "strncpy (uninit stk 41) (?x @ [NUL]) 41 = Some (?x @ [NUL])"
    using x by (simp add: strncpy_def strncpy_bytes_short mem_put_def)
  moreover have "wr (?x @ [NUL]) 40 NUL = Some (?x @ [NUL])" using wr_append [of ?x NUL "[]" NUL] x by simp
  moreover have "destructiveHexDecode (?x @ [NUL]) = Some (20, h @ NUL # drop 21 (?x @ [NUL]))"
    using destructiveHexDecode_Some [OF x(1,3), of "[]"] assms by simp
  moreover have "wr (h @ NUL # drop 21 (?x @ [NUL])) 20 NUL = Some (h @ NUL # drop 21 (?x @ [NUL]))"
    using wr_append [of h NUL _ NUL] assms by simp
  moreover have "hashEncodeHex stk (h @ NUL # drop 21 (?x @ [NUL])) 41 = Some (0, ?x @ [NUL])"
    using hashEncodeHex_eq [of "h @ NUL # drop 21 (?x @ [NUL])" 41 stk] assms x by simp
  moreover have "cstr (?x @ [NUL]) = Some ?x" by (rule cstr_append [OF x(1)])
  moreover have "cstr (h @ NUL # drop 21 (?x @ [NUL])) = Some (takeWhile (\<lambda>c. c \<noteq> NUL) h)" by (rule cstr_takeWhile)
  ultimately show ?thesis
    by (simp add: hexenc_main_def max_len_defs lit_def del: drop_append)
qed

theorem hexenc_keeps_hash_witness:
  "\<exists>decoded. hexenc_main (\<lambda>_. NUL) [''hexenc'', hex_encode (replicate 20 CHR ''k'')] =
    Some (0, ''Input is '' @ tab @ tab @ hex_encode (replicate 20 CHR ''k'') @ newline @ ''Decoded hash is '' @ tab @ decoded @ newline @
      ''Output is '' @ tab @ tab @ hex_encode (replicate 20 CHR ''k'') @ newline)"
  by (rule hexenc_keeps_hash) simp

text \<open>A full URL is taken apart; without credentials or without a port a null pointer is printed.\<close>

theorem urlparse_prints:
  assumes "plain_url protocol credentials host port path"
  shows "urlparse_main (fn # url_text protocol credentials host port path # args) =
    (case (credentials, port) of
       (Some c, Some p) \<Rightarrow> Some (0, ''Status'' @ tab @ tab @ dec 0 @ newline @ ''Protocol'' @ tab @ protocol @ newline @
         ''Credentials'' @ tab @ c @ newline @ ''Host'' @ tab @ tab @ host @ newline @ ''Port'' @ tab @ tab @ p @ newline @
         ''Path'' @ tab @ tab @ path @ newline)
     | _ \<Rightarrow> None)"
proof -
  obtain u b where p: "parse_url_destructive (lit (url_text protocol credentials host port path)) = Some (u, b)"
    "components_are (url_pointers b u) protocol credentials host port path"
    using url_components_found [OF assms] by blast
  then show ?thesis
    by (auto simp: urlparse_main_def component_line_def components_are_def split: option.splits)
qed

theorem urlparse_prints_witness:
  "urlparse_main [''urlparse'', ''http://tracker.org:6969/announce''] = None"
  using urlparse_prints [of "''http''" None "''tracker.org''" "Some ''6969''" "''announce''" "''urlparse''" "[]"]
  by (simp add: plain_url_def url_text_def)

text \<open>The loop of \<^verbatim>\<open>benctest\<close> shows the three items and then looks for the type of the item at the
  offset -1, in front of the string.\<close>

lemma benctest_round_off: "benctest_round n item = Some (off, out) \<Longrightarrow> off \<noteq> -1"
  by (auto simp: benctest_round_def benc_entity_type_def rdi_def elim!: bind_SomeE)

lemma benctest_loop_None: "benctest_loop n item = None"
proof (induction n arbitrary: item)
  case (Suc n)
  show ?case
  proof (cases "benctest_round n item")
    case (Some r)
    with benctest_round_off have "fst r \<noteq> -1" by (cases r) auto
    with Some Suc show ?thesis by (cases r) (simp add: bind_eq_None_conv)
  qed simp
qed simp

theorem benctest_reads_before_string:
  "benctest_round 20 0 = Some (1, ''item 0 offset is 1, is T_INT'' @ newline) \<and>
   benctest_round 20 1 = Some (5, ''item 1 offset is 5, is T_STRING'' @ newline) \<and>
   benctest_round 20 2 = Some (10, ''item 2 offset is 10, is T_INT'' @ newline) \<and>
   benc_list_item_offset 20 inputstring 0 3 = Some (-1) \<and> benc_entity_type inputstring (-1) = None \<and>
   benctest_main n = None"
proof (intro conjI)
  show "benctest_main n = None" by (simp add: benctest_main_def benctest_loop_None bind_eq_None_conv inputstring_def lit_def benc_entity_type_def rdi_def rd_def)
  show "benc_entity_type inputstring (-1) = None" by (simp add: benc_entity_type_def rdi_def)
qed code_simp+

end
