(* ===== verification/Sqlite_Conn.thy ===== *)
theory Sqlite_Conn
  imports Sqlite
begin

text \<open>
  Database connections: opening, configuring and closing them, and \<open>sqlite3_exec\<close>, as the main
  program, the workers and \<open>createEmptyDatabase\<close> use them. As in \<open>Sqlite\<close>, the calls are a
  parameter (the record \<open>sqlite_conn\<close>), the locale \<open>sqlite_connections\<close> states their documented
  behaviour, and \<open>file_conn\<close> is an executable provider of it.
\<close>

definition SQLITE_NOMEM :: int where [simp]: "SQLITE_NOMEM = 7"
definition SQLITE_OPEN_READWRITE :: int where [simp]: "SQLITE_OPEN_READWRITE = 2"
definition SQLITE_OPEN_CREATE :: int where [simp]: "SQLITE_OPEN_CREATE = 4"

text \<open>Result codes: the low byte of an extended code is its primary one.\<close>

definition result_code :: "int \<Rightarrow> bool" where
  "result_code rc \<longleftrightarrow> 0 \<le> rc \<and> (rc mod 256 \<le> 26 \<or> rc mod 256 = SQLITE_ROW \<or> rc mod 256 = SQLITE_DONE)"

text \<open>The statements that are run with \<open>sqlite3_exec\<close>.\<close>

datatype exec_stmt = EXEC_TORRENT_COUNT | CREATE_TORRENT_TABLE | CREATE_PEERS_TABLE

fun exec_text :: "exec_stmt \<Rightarrow> string" where
  "exec_text EXEC_TORRENT_COUNT = sql_text QUERY_TORRENT_COUNT"
| "exec_text CREATE_TORRENT_TABLE =
     ''CREATE TABLE torrents (id INTEGER PRIMARY KEY AUTOINCREMENT NOT NULL UNIQUE, hash TEXT NOT NULL UNIQUE, '' @
     ''downloaded INTEGER DEFAULT (0));''"
| "exec_text CREATE_PEERS_TABLE =
     ''CREATE TABLE peers (id INTEGER PRIMARY KEY AUTOINCREMENT NOT NULL UNIQUE, '' @
     ''torrent INTEGER NOT NULL REFERENCES torrents (id) ON DELETE CASCADE, peer_id TEXT, ip TEXT NOT NULL, '' @
     ''port INTEGER NOT NULL, protover INTEGER, [left] INTEGER DEFAULT (0), status INTEGER, '' @
     ''expires INTEGER NOT NULL DEFAULT (0));''"

text \<open>The tables of a database file, \<^term>\<open>None\<close> for one that does not exist.\<close>

record schema =
  torrents_table :: "torrent_row list option"
  peers_table :: "peer_row list option"

text \<open>The result: the new tables, and the text of the columns of the rows for the callback;
  \<^term>\<open>None\<close> is an error.\<close>

fun exec_sql :: "exec_stmt \<Rightarrow> schema \<Rightarrow> (schema \<times> string list list) option" where
  "exec_sql EXEC_TORRENT_COUNT S =
     (case torrents_table S of None \<Rightarrow> None | Some ts \<Rightarrow> Some (S, [[dec (int (length ts))]]))"
| "exec_sql CREATE_TORRENT_TABLE S =
     (if torrents_table S = None then Some (S\<lparr>torrents_table := Some []\<rparr>, []) else None)"
| "exec_sql CREATE_PEERS_TABLE S =
     (if peers_table S = None then Some (S\<lparr>peers_table := Some []\<rparr>, []) else None)"

lemma exec_create [simp]:
  "exec_sql CREATE_TORRENT_TABLE S = Some (S', rows) \<longleftrightarrow>
     torrents_table S = None \<and> S' = S\<lparr>torrents_table := Some []\<rparr> \<and> rows = []"
  "exec_sql CREATE_PEERS_TABLE S = Some (S', rows) \<longleftrightarrow>
     peers_table S = None \<and> S' = S\<lparr>peers_table := Some []\<rparr> \<and> rows = []"
  by auto

declare exec_sql.simps(2,3) [simp del]

text \<open>\<open>sc_exec\<close> gives the code, the error message if one is allocated, and the rows. The handle of
  the connection is part of the state.\<close>

record 'db sqlite_conn =
  sc_open :: "string \<Rightarrow> int \<Rightarrow> 'db \<Rightarrow> int \<times> 'db"
  sc_busy_timeout :: "int \<Rightarrow> 'db \<Rightarrow> int \<times> 'db"
  sc_exec :: "exec_stmt \<Rightarrow> 'db \<Rightarrow> int \<times> string option \<times> string list list \<times> 'db"
  sc_free :: "'db \<Rightarrow> 'db"
  sc_close :: "'db \<Rightarrow> int \<times> 'db"

definition sqlite3_open_v2 :: "'db sqlite_conn \<Rightarrow> string \<Rightarrow> int \<Rightarrow> 'db world \<Rightarrow> int \<times> 'db world" where
  "sqlite3_open_v2 c file flags w = (case sc_open c file flags (wdb w) of (rc, db) \<Rightarrow> (rc, w\<lparr>wdb := db\<rparr>))"

definition sqlite3_busy_timeout :: "'db sqlite_conn \<Rightarrow> int \<Rightarrow> 'db world \<Rightarrow> int \<times> 'db world" where
  "sqlite3_busy_timeout c ms w = (case sc_busy_timeout c ms (wdb w) of (rc, db) \<Rightarrow> (rc, w\<lparr>wdb := db\<rparr>))"

definition sqlite3_exec ::
    "'db sqlite_conn \<Rightarrow> exec_stmt \<Rightarrow> 'db world \<Rightarrow> int \<times> string option \<times> string list list \<times> 'db world" where
  "sqlite3_exec c s w = (case sc_exec c s (wdb w) of (rc, msg, rows, db) \<Rightarrow> (rc, msg, rows, w\<lparr>wdb := db\<rparr>))"

definition sqlite3_free :: "'db sqlite_conn \<Rightarrow> 'db world \<Rightarrow> 'db world" where
  "sqlite3_free c w = w\<lparr>wdb := sc_free c (wdb w)\<rparr>"

definition sqlite3_close :: "'db sqlite_conn \<Rightarrow> 'db world \<Rightarrow> int \<times> 'db world" where
  "sqlite3_close c w = (case sc_close c (wdb w) of (rc, db) \<Rightarrow> (rc, w\<lparr>wdb := db\<rparr>))"

text \<open>An opened handle has to be closed even if opening it failed, unless there was no memory for
  it; a message has to be freed.\<close>

locale sqlite_connections =
  fixes c :: "'db sqlite_conn" and handles :: "'db \<Rightarrow> nat" and msgs :: "'db \<Rightarrow> nat" and tables_of :: "'db \<Rightarrow> schema"
  assumes open_handles: "sc_open c file flags db = (rc, db') \<Longrightarrow>
        handles db' = (if rc = SQLITE_NOMEM then handles db else Suc (handles db)) \<and> msgs db' = msgs db"
    and open_tables: "sc_open c file flags db = (rc, db') \<Longrightarrow> tables_of db' = tables_of db"
    and timeout_same: "sc_busy_timeout c ms db = (rc, db') \<Longrightarrow>
        handles db' = handles db \<and> msgs db' = msgs db \<and> tables_of db' = tables_of db"
    and exec_ok: "sc_exec c s db = (SQLITE_OK, msg, rows, db') \<Longrightarrow>
        exec_sql s (tables_of db) = Some (tables_of db', rows) \<and> msg = None"
    and exec_failed: "sc_exec c s db = (rc, msg, rows, db') \<Longrightarrow> rc \<noteq> SQLITE_OK \<Longrightarrow> tables_of db' = tables_of db"
    and exec_code: "sc_exec c s db = (rc, msg, rows, db') \<Longrightarrow> result_code rc"
    and exec_msg: "sc_exec c s db = (rc, msg, rows, db') \<Longrightarrow>
        handles db' = handles db \<and> msgs db' = (if msg = None then msgs db else Suc (msgs db))"
    and free_msg: "handles (sc_free c db) = handles db \<and> msgs (sc_free c db) = msgs db - 1 \<and>
        tables_of (sc_free c db) = tables_of db"
    and close_handle: "sc_close c db = (rc, db') \<Longrightarrow>
        handles db' = (if rc = SQLITE_OK then handles db - 1 else handles db) \<and> msgs db' = msgs db \<and>
        tables_of db' = tables_of db"

section \<open>An executable provider\<close>

text \<open>\<open>f_fail n\<close> makes the \<open>n\<close>th call fail with a code.\<close>

record file_db =
  f_handles :: nat
  f_msgs :: nat
  f_schema :: schema
  f_fail :: "nat \<Rightarrow> int option"
  f_calls :: nat

definition f_code :: "file_db \<Rightarrow> int" where
  "f_code db = (case f_fail db (f_calls db) of None \<Rightarrow> SQLITE_OK | Some c \<Rightarrow> if c = SQLITE_OK \<or> \<not> result_code c then SQLITE_ERROR else c)"

definition f_exec :: "exec_stmt \<Rightarrow> file_db \<Rightarrow> int \<times> string option \<times> string list list \<times> file_db" where
  "f_exec s db =
     (let db' = db\<lparr>f_calls := Suc (f_calls db)\<rparr>; failed = db'\<lparr>f_msgs := Suc (f_msgs db)\<rparr>;
          msg = Some ''error''
      in if f_code db \<noteq> SQLITE_OK then (f_code db, msg, [], failed)
         else case exec_sql s (f_schema db) of
                None \<Rightarrow> (SQLITE_ERROR, msg, [], failed)
              | Some (S, rows) \<Rightarrow> (SQLITE_OK, None, rows, db'\<lparr>f_schema := S\<rparr>))"

definition file_conn :: "file_db sqlite_conn" where
  "file_conn = \<lparr>
     sc_open = (\<lambda>file flags db. (f_code db,
       db\<lparr>f_handles := (if f_code db = SQLITE_NOMEM then f_handles db else Suc (f_handles db)), f_calls := Suc (f_calls db)\<rparr>)),
     sc_busy_timeout = (\<lambda>ms db. (f_code db, db\<lparr>f_calls := Suc (f_calls db)\<rparr>)),
     sc_exec = f_exec,
     sc_free = (\<lambda>db. db\<lparr>f_msgs := f_msgs db - 1\<rparr>),
     sc_close = (\<lambda>db. (f_code db,
       db\<lparr>f_handles := (if f_code db = SQLITE_OK then f_handles db - 1 else f_handles db), f_calls := Suc (f_calls db)\<rparr>))\<rparr>"

lemma f_exec_cases:
  assumes "f_exec s db = (rc, msg, rows, db')"
  shows "result_code rc \<and> (rc = SQLITE_OK \<and> msg = None \<and> exec_sql s (f_schema db) = Some (f_schema db', rows) \<and>
      f_handles db' = f_handles db \<and> f_msgs db' = f_msgs db \<or>
    rc \<noteq> SQLITE_OK \<and> msg \<noteq> None \<and> f_schema db' = f_schema db \<and>
      f_handles db' = f_handles db \<and> f_msgs db' = Suc (f_msgs db))"
  using assms by (auto simp: f_exec_def Let_def f_code_def result_code_def split: if_splits option.splits)

interpretation on_file: sqlite_connections file_conn f_handles f_msgs f_schema
  by unfold_locales (auto simp: file_conn_def dest: f_exec_cases)

end
