(* ===== verification/Sqlite_Codes.thy ===== *)
theory Sqlite_Codes
  imports Sqlite_Conn
begin

text \<open>
  The codes and flags that \<^verbatim>\<open>src/sqlite3.h\<close> defines for the calls of the tracker: the result codes, the
  extended result codes, and the flags for opening a database.
\<close>

section \<open>Result codes\<close>

datatype result =
    R_OK | R_ERROR | R_INTERNAL | R_PERM | R_ABORT | R_BUSY | R_LOCKED | R_NOMEM | R_READONLY | R_INTERRUPT
  | R_IOERR | R_CORRUPT | R_NOTFOUND | R_FULL | R_CANTOPEN | R_PROTOCOL | R_EMPTY | R_SCHEMA | R_TOOBIG
  | R_CONSTRAINT | R_MISMATCH | R_MISUSE | R_NOLFS | R_AUTH | R_FORMAT | R_RANGE | R_NOTADB | R_ROW | R_DONE

definition results :: "result list" where
  "results = [R_OK, R_ERROR, R_INTERNAL, R_PERM, R_ABORT, R_BUSY, R_LOCKED, R_NOMEM, R_READONLY, R_INTERRUPT,
     R_IOERR, R_CORRUPT, R_NOTFOUND, R_FULL, R_CANTOPEN, R_PROTOCOL, R_EMPTY, R_SCHEMA, R_TOOBIG,
     R_CONSTRAINT, R_MISMATCH, R_MISUSE, R_NOLFS, R_AUTH, R_FORMAT, R_RANGE, R_NOTADB, R_ROW, R_DONE]"

fun code_of :: "result \<Rightarrow> int" where
  "code_of R_OK = 0"
| "code_of R_ERROR = 1"
| "code_of R_INTERNAL = 2"
| "code_of R_PERM = 3"
| "code_of R_ABORT = 4"
| "code_of R_BUSY = 5"
| "code_of R_LOCKED = 6"
| "code_of R_NOMEM = 7"
| "code_of R_READONLY = 8"
| "code_of R_INTERRUPT = 9"
| "code_of R_IOERR = 10"
| "code_of R_CORRUPT = 11"
| "code_of R_NOTFOUND = 12"
| "code_of R_FULL = 13"
| "code_of R_CANTOPEN = 14"
| "code_of R_PROTOCOL = 15"
| "code_of R_EMPTY = 16"
| "code_of R_SCHEMA = 17"
| "code_of R_TOOBIG = 18"
| "code_of R_CONSTRAINT = 19"
| "code_of R_MISMATCH = 20"
| "code_of R_MISUSE = 21"
| "code_of R_NOLFS = 22"
| "code_of R_AUTH = 23"
| "code_of R_FORMAT = 24"
| "code_of R_RANGE = 25"
| "code_of R_NOTADB = 26"
| "code_of R_ROW = 100"
| "code_of R_DONE = 101"

text \<open>What the header says of each code.\<close>

fun code_text :: "result \<Rightarrow> string" where
  "code_text R_OK = ''Successful result''"
| "code_text R_ERROR = ''SQL error or missing database''"
| "code_text R_INTERNAL = ''Internal logic error in SQLite''"
| "code_text R_PERM = ''Access permission denied''"
| "code_text R_ABORT = ''Callback routine requested an abort''"
| "code_text R_BUSY = ''The database file is locked''"
| "code_text R_LOCKED = ''A table in the database is locked''"
| "code_text R_NOMEM = ''A malloc() failed''"
| "code_text R_READONLY = ''Attempt to write a readonly database''"
| "code_text R_INTERRUPT = ''Operation terminated by sqlite3_interrupt()''"
| "code_text R_IOERR = ''Some kind of disk I/O error occurred''"
| "code_text R_CORRUPT = ''The database disk image is malformed''"
| "code_text R_NOTFOUND = ''Unknown opcode in sqlite3_file_control()''"
| "code_text R_FULL = ''Insertion failed because database is full''"
| "code_text R_CANTOPEN = ''Unable to open the database file''"
| "code_text R_PROTOCOL = ''Database lock protocol error''"
| "code_text R_EMPTY = ''Database is empty''"
| "code_text R_SCHEMA = ''The database schema changed''"
| "code_text R_TOOBIG = ''String or BLOB exceeds size limit''"
| "code_text R_CONSTRAINT = ''Abort due to constraint violation''"
| "code_text R_MISMATCH = ''Data type mismatch''"
| "code_text R_MISUSE = ''Library used incorrectly''"
| "code_text R_NOLFS = ''Uses OS features not supported on host''"
| "code_text R_AUTH = ''Authorization denied''"
| "code_text R_FORMAT = ''Auxiliary database format error''"
| "code_text R_RANGE = ''2nd parameter to sqlite3_bind out of range''"
| "code_text R_NOTADB = ''File opened that is not a database file''"
| "code_text R_ROW = ''sqlite3_step() has another row ready''"
| "code_text R_DONE = ''sqlite3_step() has finished executing''"

definition of_code :: "int \<Rightarrow> result option" where
  "of_code rc = find (\<lambda>r. code_of r = rc) results"

text \<open>The codes between the two marks of the header, without those that report success.\<close>

definition is_error :: "result \<Rightarrow> bool" where
  "is_error r \<longleftrightarrow> r \<noteq> R_OK \<and> r \<noteq> R_ROW \<and> r \<noteq> R_DONE"

lemma results_all: "r \<in> set results"
  by (cases r) (simp_all add: results_def)

lemma of_code_of: "of_code (code_of r) = Some r"
  by (cases r) (simp_all add: of_code_def results_def)

lemma code_of_inject [simp]: "code_of r = code_of r' \<longleftrightarrow> r = r'"
  using of_code_of by (metis option.inject)

lemma result_code_of: "result_code (code_of r)"
  by (cases r) (simp_all add: result_code_def)

lemma int_range_code: "int_range (code_of r)"
  by (cases r) (simp_all add: int_range_def)

lemma code_of_eqs [simp]: "code_of r = 0 \<longleftrightarrow> r = R_OK" "code_of r = 7 \<longleftrightarrow> r = R_NOMEM"
    "code_of r = 100 \<longleftrightarrow> r = R_ROW" "code_of r = 101 \<longleftrightarrow> r = R_DONE" "code_of r = 1 \<longleftrightarrow> r = R_ERROR" "code_of r = 5 \<longleftrightarrow> r = R_BUSY"
  by (cases r; simp)+

text \<open>The results in the order of their codes: the errors are those between the two marks.\<close>

instantiation result :: linorder
begin

definition less_eq_result :: "result \<Rightarrow> result \<Rightarrow> bool" where
  "less_eq_result r r' \<longleftrightarrow> code_of r \<le> code_of r'"

definition less_result :: "result \<Rightarrow> result \<Rightarrow> bool" where
  "less_result r r' \<longleftrightarrow> code_of r < code_of r'"

instance
  by standard (auto simp: less_eq_result_def less_result_def)

end

lemma is_error_between: "is_error r \<longleftrightarrow> R_OK < r \<and> r < R_ROW"
  by (cases r) (simp_all add: is_error_def less_result_def)

lemma results_sorted: "sorted results"
  by (simp add: results_def less_eq_result_def)

section \<open>Extended result codes\<close>

text \<open>The extended code \<open>(r, k)\<close> has the value \<open>r | (k << 8)\<close>.\<close>

definition extended_table :: "(string \<times> result \<times> nat) list" where
  "extended_table =
    [(''SQLITE_IOERR_READ'', R_IOERR, 1),
     (''SQLITE_IOERR_SHORT_READ'', R_IOERR, 2),
     (''SQLITE_IOERR_WRITE'', R_IOERR, 3),
     (''SQLITE_IOERR_FSYNC'', R_IOERR, 4),
     (''SQLITE_IOERR_DIR_FSYNC'', R_IOERR, 5),
     (''SQLITE_IOERR_TRUNCATE'', R_IOERR, 6),
     (''SQLITE_IOERR_FSTAT'', R_IOERR, 7),
     (''SQLITE_IOERR_UNLOCK'', R_IOERR, 8),
     (''SQLITE_IOERR_RDLOCK'', R_IOERR, 9),
     (''SQLITE_IOERR_DELETE'', R_IOERR, 10),
     (''SQLITE_IOERR_BLOCKED'', R_IOERR, 11),
     (''SQLITE_IOERR_NOMEM'', R_IOERR, 12),
     (''SQLITE_IOERR_ACCESS'', R_IOERR, 13),
     (''SQLITE_IOERR_CHECKRESERVEDLOCK'', R_IOERR, 14),
     (''SQLITE_IOERR_LOCK'', R_IOERR, 15),
     (''SQLITE_IOERR_CLOSE'', R_IOERR, 16),
     (''SQLITE_IOERR_DIR_CLOSE'', R_IOERR, 17),
     (''SQLITE_IOERR_SHMOPEN'', R_IOERR, 18),
     (''SQLITE_IOERR_SHMSIZE'', R_IOERR, 19),
     (''SQLITE_IOERR_SHMLOCK'', R_IOERR, 20),
     (''SQLITE_IOERR_SHMMAP'', R_IOERR, 21),
     (''SQLITE_IOERR_SEEK'', R_IOERR, 22),
     (''SQLITE_IOERR_DELETE_NOENT'', R_IOERR, 23),
     (''SQLITE_LOCKED_SHAREDCACHE'', R_LOCKED, 1),
     (''SQLITE_BUSY_RECOVERY'', R_BUSY, 1),
     (''SQLITE_CANTOPEN_NOTEMPDIR'', R_CANTOPEN, 1),
     (''SQLITE_CANTOPEN_ISDIR'', R_CANTOPEN, 2),
     (''SQLITE_CANTOPEN_FULLPATH'', R_CANTOPEN, 3),
     (''SQLITE_CORRUPT_VTAB'', R_CORRUPT, 1),
     (''SQLITE_READONLY_RECOVERY'', R_READONLY, 1),
     (''SQLITE_READONLY_CANTLOCK'', R_READONLY, 2),
     (''SQLITE_READONLY_ROLLBACK'', R_READONLY, 3),
     (''SQLITE_ABORT_ROLLBACK'', R_ABORT, 2),
     (''SQLITE_CONSTRAINT_CHECK'', R_CONSTRAINT, 1),
     (''SQLITE_CONSTRAINT_COMMITHOOK'', R_CONSTRAINT, 2),
     (''SQLITE_CONSTRAINT_FOREIGNKEY'', R_CONSTRAINT, 3),
     (''SQLITE_CONSTRAINT_FUNCTION'', R_CONSTRAINT, 4),
     (''SQLITE_CONSTRAINT_NOTNULL'', R_CONSTRAINT, 5),
     (''SQLITE_CONSTRAINT_PRIMARYKEY'', R_CONSTRAINT, 6),
     (''SQLITE_CONSTRAINT_TRIGGER'', R_CONSTRAINT, 7),
     (''SQLITE_CONSTRAINT_UNIQUE'', R_CONSTRAINT, 8),
     (''SQLITE_CONSTRAINT_VTAB'', R_CONSTRAINT, 9)]"

definition extended_code :: "result \<Rightarrow> nat \<Rightarrow> int" where
  "extended_code r k = or (code_of r) (push_bit 8 (int k))"

text \<open>An extended code is the primary one plus a multiple of 256, so that its low byte is the primary
  code; it is never the code of a result.\<close>

lemma extended_code_add: "extended_code r k = code_of r + 256 * int k"
proof -
  have r: "0 \<le> code_of r" "code_of r < 2 ^ 8" by (cases r; simp)+
  have "or (code_of r) (push_bit 8 (int k)) = code_of r + push_bit 8 (int k)"
  proof (rule disjunctive_add [symmetric])
    fix n
    have "\<not> bit (code_of r) n" if "8 \<le> n"
      using r that by (metis bit_take_bit_iff linorder_not_le take_bit_int_eq_self_iff)
    then show "\<not> bit (code_of r) n \<or> \<not> bit (push_bit 8 (int k)) n"
      by (auto simp: bit_push_bit_iff)
  qed
  then show ?thesis by (simp add: extended_code_def push_bit_eq_mult)
qed

theorem extended_codes_sound:
  "(name, r, k) \<in> set extended_table \<Longrightarrow>
   result_code (extended_code r k) \<and> extended_code r k mod 256 = code_of r \<and> of_code (extended_code r k) = None"
proof -
  assume "(name, r, k) \<in> set extended_table"
  then have "list_all (\<lambda>(name, r, k). 0 < k \<and> is_error r) extended_table \<Longrightarrow> 0 < k \<and> is_error r"
    by (auto simp: list_all_iff)
  moreover have "list_all (\<lambda>(name, r, k). 0 < k \<and> is_error r) extended_table" by code_simp
  ultimately have k: "0 < k" "is_error r" by auto
  have c: "0 \<le> code_of r" "code_of r \<le> 101" by (cases r; simp)+
  then have "extended_code r k mod 256 = code_of r" by (simp add: extended_code_add)
  moreover have "of_code (extended_code r k) = None"
  proof -
    have "code_of r' \<noteq> extended_code r k" for r' using c k(1) by (cases r') (simp_all add: extended_code_add)
    then show ?thesis by (simp add: of_code_def find_None_iff)
  qed
  moreover have "result_code (extended_code r k)"
    using result_code_of [of r] c by (simp add: result_code_def extended_code_add)
  ultimately show ?thesis by simp
qed

theorem extended_codes_distinct: "distinct (map (\<lambda>(name, r, k). extended_code r k) extended_table)"
  by (simp add: extended_table_def extended_code_add)

section \<open>Flags\<close>

datatype open_flag =
    OPEN_READONLY | OPEN_READWRITE | OPEN_CREATE | OPEN_DELETEONCLOSE | OPEN_EXCLUSIVE | OPEN_AUTOPROXY | OPEN_URI
  | OPEN_MEMORY | OPEN_MAIN_DB | OPEN_TEMP_DB | OPEN_TRANSIENT_DB | OPEN_MAIN_JOURNAL | OPEN_TEMP_JOURNAL
  | OPEN_SUBJOURNAL | OPEN_MASTER_JOURNAL | OPEN_NOMUTEX | OPEN_FULLMUTEX | OPEN_SHAREDCACHE | OPEN_PRIVATECACHE | OPEN_WAL

fun flag_value :: "open_flag \<Rightarrow> int" where
  "flag_value OPEN_READONLY = 0x00000001"
| "flag_value OPEN_READWRITE = 0x00000002"
| "flag_value OPEN_CREATE = 0x00000004"
| "flag_value OPEN_DELETEONCLOSE = 0x00000008"
| "flag_value OPEN_EXCLUSIVE = 0x00000010"
| "flag_value OPEN_AUTOPROXY = 0x00000020"
| "flag_value OPEN_URI = 0x00000040"
| "flag_value OPEN_MEMORY = 0x00000080"
| "flag_value OPEN_MAIN_DB = 0x00000100"
| "flag_value OPEN_TEMP_DB = 0x00000200"
| "flag_value OPEN_TRANSIENT_DB = 0x00000400"
| "flag_value OPEN_MAIN_JOURNAL = 0x00000800"
| "flag_value OPEN_TEMP_JOURNAL = 0x00001000"
| "flag_value OPEN_SUBJOURNAL = 0x00002000"
| "flag_value OPEN_MASTER_JOURNAL = 0x00004000"
| "flag_value OPEN_NOMUTEX = 0x00008000"
| "flag_value OPEN_FULLMUTEX = 0x00010000"
| "flag_value OPEN_SHAREDCACHE = 0x00020000"
| "flag_value OPEN_PRIVATECACHE = 0x00040000"
| "flag_value OPEN_WAL = 0x00080000"

definition has_flag :: "int \<Rightarrow> open_flag \<Rightarrow> bool" where
  "has_flag flags f \<longleftrightarrow> and flags (flag_value f) \<noteq> 0"

text \<open>How \<open>sqlite3_open_v2\<close> opens a file; other combinations of the first three flags are undefined.\<close>

datatype open_mode = Read_only | Read_write | Create

definition mode_of :: "int \<Rightarrow> open_mode option" where
  "mode_of flags =
     (case (has_flag flags OPEN_READONLY, has_flag flags OPEN_READWRITE, has_flag flags OPEN_CREATE) of
        (True, False, False) \<Rightarrow> Some Read_only
      | (False, True, False) \<Rightarrow> Some Read_write
      | (False, True, True) \<Rightarrow> Some Create
      | _ \<Rightarrow> None)"

text \<open>The flags of the tracker: those of a worker, and those of the main program and of
  \<open>createEmptyDatabase\<close>.\<close>

lemma tracker_modes:
  "mode_of SQLITE_OPEN_READWRITE = Some Read_write"
  "mode_of (SQLITE_OPEN_READWRITE + SQLITE_OPEN_CREATE) = Some Create"
  by (simp_all add: mode_of_def has_flag_def)

end
