(* ===== verification/Sqlite_Lib.thy ===== *)
theory Sqlite_Lib
  imports Sqlite_Codes
begin

text \<open>
  A reference library: the calls that the tracker makes, for one database file and one connection, as
  the comments of \<^verbatim>\<open>src/sqlite3.h\<close> describe them. It keeps what the contract speaks of: whether the
  file exists, its tables, the open handles, statements and messages, the busy timeout, the last error, the
  number of changed rows. \<open>lb_fault n\<close> is an error that the \<open>n\<close>th call meets, \<open>lb_lock n\<close> for how many
  milliseconds another process holds the lock that it needs, \<open>lb_order n\<close> the random order of its rows.
  The library satisfies both interfaces that the tracker relies on.
\<close>

record lib =
  lb_exists :: bool
  lb_schema :: schema
  lb_seq :: int
  lb_readonly :: bool
  lb_handles :: nat
  lb_stmts :: nat
  lb_msgs :: nat
  lb_timeout :: int
  lb_errcode :: int
  lb_changes :: nat
  lb_calls :: nat
  lb_fault :: "nat \<Rightarrow> result option"
  lb_lock :: "nat \<Rightarrow> int"
  lb_order :: "nat \<Rightarrow> peer_row list \<Rightarrow> peer_row list"

text \<open>A statement: what it does, whether it has been stepped since it was reset, the code of that step.\<close>

record lib_stmt =
  ls_view :: stmt_view
  ls_running :: bool
  ls_code :: int

section \<open>Codes\<close>

definition lib_meets :: "lib \<Rightarrow> int" where
  "lib_meets db = (case lb_fault db (lb_calls db) of Some r \<Rightarrow> if is_error r then code_of r else SQLITE_OK | None \<Rightarrow> SQLITE_OK)"

text \<open>The code of the most recent call that failed, and its text.\<close>

definition lib_return :: "int \<Rightarrow> lib \<Rightarrow> lib" where
  "lib_return rc db = db\<lparr>lb_calls := Suc (lb_calls db),
     lb_errcode := (if rc \<in> {SQLITE_OK, SQLITE_ROW, SQLITE_DONE} then lb_errcode db else rc)\<rparr>"

definition lib_errcode :: "lib \<Rightarrow> int" where
  "lib_errcode db = lb_errcode db"

definition lib_errstr :: "int \<Rightarrow> string" where
  "lib_errstr rc = (case of_code rc of Some r \<Rightarrow> code_text r | None \<Rightarrow> ''unknown error'')"

definition lib_errmsg :: "lib \<Rightarrow> string" where
  "lib_errmsg db = lib_errstr (lib_errcode db)"

section \<open>Connections\<close>

text \<open>Opening: a handle is given back even on failure, unless there is no memory for it.\<close>

definition lib_open :: "string \<Rightarrow> int \<Rightarrow> lib \<Rightarrow> int \<times> lib" where
  "lib_open filename flags db =
     (let rc = (if lib_meets db \<noteq> SQLITE_OK then lib_meets db
                else case mode_of flags of
                  Some Create \<Rightarrow> SQLITE_OK
                | Some _ \<Rightarrow> if lb_exists db then SQLITE_OK else code_of R_CANTOPEN
                | None \<Rightarrow> code_of R_MISUSE)
      in (rc, (lib_return rc db)\<lparr>
            lb_handles := (if rc = SQLITE_NOMEM then lb_handles db else Suc (lb_handles db)),
            lb_exists := (lb_exists db \<or> rc = SQLITE_OK),
            lb_readonly := (if rc = SQLITE_OK then mode_of flags = Some Read_only else lb_readonly db)\<rparr>))"

text \<open>Closing leaves the connection open while it has statements that are not finalized.\<close>

definition lib_close :: "lib \<Rightarrow> int \<times> lib" where
  "lib_close db =
     (let rc = (if 0 < lb_stmts db then SQLITE_BUSY else SQLITE_OK)
      in (rc, (lib_return rc db)\<lparr>lb_handles := (if rc = SQLITE_OK then lb_handles db - 1 else lb_handles db)\<rparr>))"

text \<open>The time a call sleeps for a lock; without a positive argument it does not wait.\<close>

definition lib_busy_timeout :: "int \<Rightarrow> lib \<Rightarrow> int \<times> lib" where
  "lib_busy_timeout ms db = (SQLITE_OK, (lib_return SQLITE_OK db)\<lparr>lb_timeout := max 0 ms\<rparr>)"

definition lib_locked :: "lib \<Rightarrow> bool" where
  "lib_locked db \<longleftrightarrow> lb_timeout db < lb_lock db (lb_calls db)"

section \<open>Running a text\<close>

text \<open>The rows for the callback, up to the first for which it returns another value than 0.\<close>

fun deliver_rows :: "(string list \<Rightarrow> int) \<Rightarrow> string list list \<Rightarrow> string list list \<times> bool" where
  "deliver_rows callback [] = ([], False)"
| "deliver_rows callback (r # rs) = (if callback r \<noteq> 0 then ([r], True) else apfst ((#) r) (deliver_rows callback rs))"

definition creates :: "exec_stmt \<Rightarrow> bool" where
  "creates s \<longleftrightarrow> s \<noteq> EXEC_TORRENT_COUNT"

text \<open>An error stops the statement; its message has to be freed by the caller.\<close>

definition lib_exec :: "(string list \<Rightarrow> int) \<Rightarrow> exec_stmt \<Rightarrow> lib \<Rightarrow> int \<times> string option \<times> string list list \<times> lib" where
  "lib_exec callback s db =
     (let fail = (\<lambda>rc rows. (rc, Some (lib_errstr rc), rows, (lib_return rc db)\<lparr>lb_msgs := Suc (lb_msgs db)\<rparr>)) in
      if lib_locked db then fail SQLITE_BUSY []
      else if lib_meets db \<noteq> SQLITE_OK then fail (lib_meets db) []
      else if lb_readonly db \<and> creates s then fail (code_of R_READONLY) []
      else case exec_sql s (lb_schema db) of
             None \<Rightarrow> fail SQLITE_ERROR []
           | Some (S, rows) \<Rightarrow>
               (case deliver_rows callback rows of (delivered, aborted) \<Rightarrow>
                  if aborted then fail (code_of R_ABORT) delivered
                  else (SQLITE_OK, None, delivered, (lib_return SQLITE_OK db)\<lparr>lb_schema := S\<rparr>)))"

definition lib_free :: "lib \<Rightarrow> lib" where
  "lib_free db = db\<lparr>lb_msgs := lb_msgs db - 1\<rparr>"

section \<open>Statements\<close>

text \<open>The text that \<open>sqlite3_prepare_v2\<close> reads, and the statement that it is.\<close>

definition source_text :: "string \<Rightarrow> int \<Rightarrow> string" where
  "source_text zSql nByte = ctext (if nByte < 0 then zSql else take (nat nByte) zSql)"

definition statements :: "sql list" where
  "statements = [QUERY_TORRENT_COUNT, QUERY_TORRENT_ID, QUERY_TORRENT_PEERS, ADD_TORRENT_PEER, QUERY_PEER_BY_ID,
     UPDATE_PEER_DATA, QUERY_PRUNE_PEERS, INCREASE_COMPLETION_COUNT, GET_COMPLETION_COUNT, GET_SEED_COUNT, GET_PEERS_COUNT]"

definition compile :: "string \<Rightarrow> sql option" where
  "compile src = find (\<lambda>s. sql_text s = src) statements"

text \<open>The table that a statement needs, and whether it changes it.\<close>

definition on_torrents :: "sql \<Rightarrow> bool" where
  "on_torrents s \<longleftrightarrow> s \<in> {QUERY_TORRENT_COUNT, QUERY_TORRENT_ID, INCREASE_COMPLETION_COUNT, GET_COMPLETION_COUNT}"

definition writes :: "sql \<Rightarrow> bool" where
  "writes s \<longleftrightarrow> s \<in> {ADD_TORRENT_PEER, UPDATE_PEER_DATA, QUERY_PRUNE_PEERS, INCREASE_COMPLETION_COUNT}"

definition has_table :: "sql \<Rightarrow> schema \<Rightarrow> bool" where
  "has_table s S \<longleftrightarrow> (if on_torrents s then torrents_table S \<noteq> None else peers_table S \<noteq> None)"

definition lib_tables :: "lib \<Rightarrow> tables" where
  "lib_tables db =
     \<lparr>torrents = (case torrents_table (lb_schema db) of None \<Rightarrow> [] | Some ts \<Rightarrow> ts),
      peers = (case peers_table (lb_schema db) of None \<Rightarrow> [] | Some ps \<Rightarrow> ps), peers_seq = lb_seq db\<rparr>"

definition lib_store :: "tables \<Rightarrow> lib \<Rightarrow> lib" where
  "lib_store T db = db\<lparr>lb_seq := peers_seq T,
     lb_schema := \<lparr>torrents_table = map_option (\<lambda>_. torrents T) (torrents_table (lb_schema db)),
       peers_table = map_option (\<lambda>_. peers T) (peers_table (lb_schema db))\<rparr>\<rparr>"

definition lib_prepare :: "lib \<Rightarrow> sql \<Rightarrow> int \<times> lib_stmt \<times> lib" where
  "lib_prepare db s =
     (let rc = (if lib_meets db \<noteq> SQLITE_OK then lib_meets db
                else if has_table s (lb_schema db) then SQLITE_OK else SQLITE_ERROR)
      in (rc, \<lparr>ls_view = fresh_stmt s, ls_running = False, ls_code = SQLITE_OK\<rparr>,
          (lib_return rc db)\<lparr>lb_stmts := (if rc = SQLITE_OK then Suc (lb_stmts db) else lb_stmts db)\<rparr>))"

text \<open>Binding: parameters are numbered from 1, and a statement that was stepped has to be reset first.\<close>

definition parameters :: "sql \<Rightarrow> nat" where
  "parameters s = length (filter (\<lambda>c. c = CHR ''?'') (sql_text s))"

definition lib_bind :: "lib_stmt \<Rightarrow> nat \<Rightarrow> sqlval \<Rightarrow> int \<times> lib_stmt" where
  "lib_bind st i v =
     (if ls_running st then (code_of R_MISUSE, st)
      else if i = 0 \<or> parameters (sv_sql (ls_view st)) < i then (code_of R_RANGE, st)
      else (SQLITE_OK, st\<lparr>ls_view := (ls_view st)\<lparr>sv_args := (sv_args (ls_view st))(i := v)\<rparr>\<rparr>))"

text \<open>Back to the beginning; the values bound stay.\<close>

definition lib_reset :: "lib_stmt \<Rightarrow> lib_stmt" where
  "lib_reset st = st\<lparr>ls_running := False, ls_view := (ls_view st)\<lparr>sv_todo := None, sv_row := None\<rparr>\<rparr>"

definition lib_reset_code :: "lib_stmt \<Rightarrow> int" where
  "lib_reset_code st = (if \<not> ls_running st \<or> ls_code st \<in> {SQLITE_ROW, SQLITE_DONE} then SQLITE_OK else ls_code st)"

text \<open>The rows that a statement changes.\<close>

fun changed_rows :: "sql \<Rightarrow> sqlargs \<Rightarrow> tables \<Rightarrow> nat" where
  "changed_rows ADD_TORRENT_PEER a T = 1"
| "changed_rows UPDATE_PEER_DATA a T = length (filter (\<lambda>p. SInt (p_id p) = a 4) (peers T))"
| "changed_rows QUERY_PRUNE_PEERS a T = length (filter (\<lambda>p. int_less_val (p_expires p) (a 1)) (peers T))"
| "changed_rows INCREASE_COMPLETION_COUNT a T = length (filter (\<lambda>t. SInt (t_id t) = a 1) (torrents T))"
| "changed_rows _ a T = 0"

text \<open>The first step of a statement, behind a reset if need be: it runs.\<close>

definition lib_run :: "lib_stmt \<Rightarrow> lib \<Rightarrow> int \<times> lib_stmt \<times> lib" where
  "lib_run st db =
     (let v = ls_view (lib_reset st) in
      case run_sql (permuting (lb_order db (lb_calls db))) (sv_sql v) (sv_args v) (lib_tables db) of
        None \<Rightarrow> (code_of R_CONSTRAINT, st, db)
      | Some (T, rows) \<Rightarrow>
          (case deliver v rows of (rc, v) \<Rightarrow>
             (rc, st\<lparr>ls_view := v\<rparr>,
              (lib_store T db)\<lparr>lb_changes := (if writes (sv_sql v) then changed_rows (sv_sql v) (sv_args v) (lib_tables db)
                                             else lb_changes db)\<rparr>)))"

definition lib_step :: "lib_stmt \<Rightarrow> lib \<Rightarrow> int \<times> lib_stmt \<times> lib" where
  "lib_step st db =
     (let v = ls_view st;
          (rc, st, db) =
            (if lib_locked db then (SQLITE_BUSY, st, db)
             else if lib_meets db \<noteq> SQLITE_OK then (lib_meets db, st, db)
             else if sv_todo v \<noteq> None \<and> sv_row v \<noteq> None
             then (case deliver v (the (sv_todo v)) of (rc, v) \<Rightarrow> (rc, st\<lparr>ls_view := v\<rparr>, db))
             else if \<not> has_table (sv_sql v) (lb_schema db) then (SQLITE_ERROR, st, db)
             else if lb_readonly db \<and> writes (sv_sql v) then (code_of R_READONLY, st, db)
             else lib_run st db)
      in (rc, st\<lparr>ls_running := True, ls_code := rc\<rparr>, lib_return rc db))"

text \<open>Columns are numbered from 0; a column is converted to the type asked for.\<close>

definition lib_column :: "lib_stmt \<Rightarrow> nat \<Rightarrow> sqlval" where
  "lib_column st k = (case sv_row (ls_view st) of Some row \<Rightarrow> if k < length row then row ! k else SNull | None \<Rightarrow> SNull)"

fun val_type :: "sqlval \<Rightarrow> int" where
  "val_type (SInt _) = 1"
| "val_type (SText _) = 3"
| "val_type SNull = 5"

definition lib_column_type :: "lib_stmt \<Rightarrow> nat \<Rightarrow> int" where
  "lib_column_type st k = val_type (lib_column st k)"

definition lib_data_count :: "lib_stmt \<Rightarrow> nat" where
  "lib_data_count st = (case sv_row (ls_view st) of Some row \<Rightarrow> length row | None \<Rightarrow> 0)"

fun column_count :: "sql \<Rightarrow> nat" where
  "column_count QUERY_TORRENT_PEERS = 4"
| "column_count ADD_TORRENT_PEER = 0"
| "column_count UPDATE_PEER_DATA = 0"
| "column_count QUERY_PRUNE_PEERS = 0"
| "column_count INCREASE_COMPLETION_COUNT = 0"
| "column_count _ = 1"

definition lib_finalize :: "lib_stmt \<Rightarrow> lib \<Rightarrow> int \<times> lib" where
  "lib_finalize st db = (lib_reset_code st, db\<lparr>lb_stmts := lb_stmts db - 1\<rparr>)"

section \<open>The interfaces\<close>

definition lib_sqlite :: "(lib, lib_stmt) sqlite" where
  "lib_sqlite = \<lparr>
     sq_prepare = lib_prepare,
     sq_bind_int = (\<lambda>st i v. lib_bind st i (SInt v)),
     sq_bind_text = (\<lambda>st i s. lib_bind st i (SText s)),
     sq_step = lib_step,
     sq_column_int = (\<lambda>st k. val_int (lib_column st k)),
     sq_column_text = (\<lambda>st k. val_text (lib_column st k)),
     sq_finalize = (\<lambda>st db. snd (lib_finalize st db))\<rparr>"

definition lib_conn :: "lib sqlite_conn" where
  "lib_conn = \<lparr>
     sc_open = lib_open,
     sc_busy_timeout = lib_busy_timeout,
     sc_exec = lib_exec (\<lambda>_. 0),
     sc_free = lib_free,
     sc_close = lib_close\<rparr>"

section \<open>The contract\<close>

lemma lib_meets_cases: "lib_meets db = 0 \<or> (\<exists>r. lib_meets db = code_of r \<and> is_error r)"
  by (simp add: lib_meets_def split: option.splits)

lemma lib_return_simps [simp]:
  "lib_tables (lib_return rc db) = lib_tables db" "lb_stmts (lib_return rc db) = lb_stmts db"
  "lb_schema (lib_return rc db) = lb_schema db" "lb_handles (lib_return rc db) = lb_handles db"
  "lb_msgs (lib_return rc db) = lb_msgs db" "lb_exists (lib_return rc db) = lb_exists db"
  "lb_timeout (lib_return rc db) = lb_timeout db" "lb_readonly (lib_return rc db) = lb_readonly db"
  by (simp_all add: lib_return_def lib_tables_def)

lemma lib_tables_stmts [simp]: "lib_tables (db\<lparr>lb_stmts := n\<rparr>) = lib_tables db"
  by (simp add: lib_tables_def)

lemma run_sql_other:
  assumes "run_sql order s a T = Some (T', rows)"
  shows "on_torrents s \<Longrightarrow> peers T' = peers T \<and> peers_seq T' = peers_seq T" "\<not> on_torrents s \<Longrightarrow> torrents T' = torrents T"
  using assms by (cases s; auto simp: on_torrents_def split: sqlval.splits)+

lemma lib_store_tables:
  assumes "run_sql order s a (lib_tables db) = Some (T, rows)" "has_table s (lb_schema db)"
  shows "lib_tables (lib_store T db) = T"
  using run_sql_other [OF assms(1)] assms(2)
  by (cases T; cases "on_torrents s") (auto simp: lib_store_def lib_tables_def has_table_def split: option.splits)

lemma lib_run_facts:
  assumes "lib_run st db = (rc, st', db')" "has_table (sv_sql (ls_view st)) (lb_schema db)"
  shows "lb_stmts db' = lb_stmts db" "rc \<noteq> 0" "int_range rc"
    "rc \<noteq> 100 \<Longrightarrow> rc \<noteq> 101 \<Longrightarrow> lib_tables db' = lib_tables db"
    "rc = 100 \<or> rc = 101 \<Longrightarrow> \<exists>order rows. (\<forall>ps. mset (order ps) = mset ps) \<and>
      run_sql order (sv_sql (ls_view st)) (sv_args (ls_view st)) (lib_tables db) = Some (lib_tables db', rows) \<and>
      (rc = SQLITE_DONE \<longleftrightarrow> rows = []) \<and>
      sv_row (ls_view st') = (if rows = [] then None else Some (hd rows)) \<and> sv_todo (ls_view st') = Some (tl rows)"
proof -
  let ?v = "ls_view (lib_reset st)"
  have v: "sv_sql ?v = sv_sql (ls_view st)" "sv_args ?v = sv_args (ls_view st)" by (simp_all add: lib_reset_def)
  let ?run = "run_sql (permuting (lb_order db (lb_calls db))) (sv_sql (ls_view st)) (sv_args (ls_view st)) (lib_tables db)"
  show "lb_stmts db' = lb_stmts db" "rc \<noteq> 0" "int_range rc"
    "rc \<noteq> 100 \<Longrightarrow> rc \<noteq> 101 \<Longrightarrow> lib_tables db' = lib_tables db"
    using assms(1)
    by (auto simp: lib_run_def Let_def v lib_store_def int_range_def dest!: deliver_facts split: option.splits prod.splits)
  assume "rc = 100 \<or> rc = 101"
  with assms(1) obtain T rows where r: "?run = Some (T, rows)" "deliver ?v rows = (rc, ls_view st')" "lib_tables db' = lib_tables (lib_store T db)"
    by (auto simp: lib_run_def Let_def v lib_tables_def split: option.splits prod.splits)
  with lib_store_tables [OF r(1) assms(2)] deliver_facts [OF r(2)] mset_permuting
  show "\<exists>order rows. (\<forall>ps. mset (order ps) = mset ps) \<and>
      run_sql order (sv_sql (ls_view st)) (sv_args (ls_view st)) (lib_tables db) = Some (lib_tables db', rows) \<and>
      (rc = SQLITE_DONE \<longleftrightarrow> rows = []) \<and>
      sv_row (ls_view st') = (if rows = [] then None else Some (hd rows)) \<and> sv_todo (ls_view st') = Some (tl rows)"
    by metis
qed

text \<open>A step meets an error and changes nothing, goes on to the next row, or runs the statement.\<close>

lemma lib_step_cases:
  assumes "lib_step st db = (rc, st', db')"
  obtains (fails) "rc \<noteq> 0" "rc \<noteq> 100" "rc \<noteq> 101" "int_range rc" "lib_tables db' = lib_tables db" "lb_stmts db' = lb_stmts db"
  | (next_row) rows where "sv_todo (ls_view st) = Some rows" "sv_row (ls_view st) \<noteq> None" "deliver (ls_view st) rows = (rc, ls_view st')"
      "lib_tables db' = lib_tables db" "lb_stmts db' = lb_stmts db"
  | (runs) st1 db1 where "sv_todo (ls_view st) = None \<or> sv_row (ls_view st) = None" "has_table (sv_sql (ls_view st)) (lb_schema db)"
      "lib_run st db = (rc, st1, db1)" "ls_view st' = ls_view st1" "lib_tables db' = lib_tables db1" "lb_stmts db' = lb_stmts db1"
proof (cases "lib_locked db \<or> lib_meets db \<noteq> SQLITE_OK")
  case True
  have "\<exists>r. lib_meets db = code_of r \<and> is_error r" if "lib_meets db \<noteq> 0"
    using lib_meets_cases [of db] that by simp
  with True assms fails int_range_code show thesis
    by (auto simp: lib_step_def Let_def is_error_def int_range_def split: if_splits)
next
  case False
  note f = this
  show thesis
  proof (cases "sv_todo (ls_view st) \<noteq> None \<and> sv_row (ls_view st) \<noteq> None")
    case True
    with f assms next_row show thesis by (auto simp: lib_step_def Let_def split: prod.splits)
  next
    case False
    show thesis
    proof (cases "has_table (sv_sql (ls_view st)) (lb_schema db) \<and> \<not> (lb_readonly db \<and> writes (sv_sql (ls_view st)))")
      case True
      with f False assms runs show thesis by (auto simp: lib_step_def Let_def split: prod.splits)
    next
      case no: False
      with f False assms fails show thesis by (auto simp: lib_step_def Let_def int_range_def split: if_splits)
    qed
  qed
qed

interpretation lib: sqlite_api lib_sqlite lb_stmts lib_tables ls_view
proof
  fix st db rc st' db'
  assume "sq_step lib_sqlite st db = (rc, st', db')"
  then have step: "lib_step st db = (rc, st', db')" by (simp add: lib_sqlite_def)
  show "lb_stmts db' = lb_stmts db"
    using step by (cases rule: lib_step_cases) (auto dest: lib_run_facts)
  show "rc \<noteq> SQLITE_OK"
    using step by (cases rule: lib_step_cases) (auto dest: lib_run_facts deliver_facts)
  show "int_range rc"
    using step by (cases rule: lib_step_cases) (auto dest: lib_run_facts deliver_facts simp: int_range_def)
  show "lib_tables db' = lib_tables db" if "rc \<noteq> SQLITE_ROW" "rc \<noteq> SQLITE_DONE"
    using step that by (cases rule: lib_step_cases) (auto dest: lib_run_facts deliver_facts)
  show "\<exists>order rows. (\<forall>ps. mset (order ps) = mset ps) \<and>
      run_sql order (sv_sql (ls_view st)) (sv_args (ls_view st)) (lib_tables db) = Some (lib_tables db', rows) \<and>
      (rc = SQLITE_DONE \<longleftrightarrow> rows = []) \<and>
      sv_row (ls_view st') = (if rows = [] then None else Some (hd rows)) \<and> sv_todo (ls_view st') = Some (tl rows)"
    if "rc = SQLITE_ROW \<or> rc = SQLITE_DONE" "sv_todo (ls_view st) = None"
    using step
  proof (cases rule: lib_step_cases)
    case (runs st1 db1)
    with lib_run_facts(5) [OF runs(3,2)] that show ?thesis by simp
  qed (use that in auto)
  show "lib_tables db' = lib_tables db \<and> (rc = SQLITE_DONE \<longleftrightarrow> rows = []) \<and>
      sv_row (ls_view st') = (if rows = [] then None else Some (hd rows)) \<and> sv_todo (ls_view st') = Some (tl rows)"
    if "rc = SQLITE_ROW \<or> rc = SQLITE_DONE" "sv_todo (ls_view st) = Some rows" "sv_row (ls_view st) \<noteq> None" for rows
    using step
  proof (cases rule: lib_step_cases)
    case (next_row rows')
    with that deliver_facts [OF next_row(3)] show ?thesis by simp
  next
    case (runs st1 db1)
    with that show ?thesis by simp
  qed (use that in simp)
next
  fix db s rc st db'
  assume "sq_prepare lib_sqlite db s = (rc, st, db')"
  then have p: "lib_prepare db s = (rc, st, db')" by (simp add: lib_sqlite_def)
  then show "lb_stmts db' = (if rc = SQLITE_OK then Suc (lb_stmts db) else lb_stmts db)" "lib_tables db' = lib_tables db"
    by (auto simp: lib_prepare_def Let_def)
next
  fix db s st db'
  assume "sq_prepare lib_sqlite db s = (SQLITE_OK, st, db')"
  then show "ls_view st = fresh_stmt s" by (auto simp: lib_sqlite_def lib_prepare_def Let_def)
qed (auto simp: lib_sqlite_def lib_bind_def lib_column_def lib_finalize_def split: if_splits)

lemma lib_exec_cases:
  assumes "lib_exec (\<lambda>_. 0) s db = (rc, msg, rows, db')"
  shows "result_code rc \<and> lb_handles db' = lb_handles db \<and>
    (rc = 0 \<and> msg = None \<and> exec_sql s (lb_schema db) = Some (lb_schema db', rows) \<and> lb_msgs db' = lb_msgs db \<or>
     rc \<noteq> 0 \<and> msg \<noteq> None \<and> lb_schema db' = lb_schema db \<and> lb_msgs db' = Suc (lb_msgs db))"
proof -
  have d: "deliver_rows (\<lambda>_. 0) rs = (rs, False)" for rs by (induction rs) simp_all
  have "result_code 0" by (simp add: result_code_def)
  with lib_meets_cases [of db] result_code_of have "result_code (lib_meets db)" by metis
  with assms d show ?thesis
    by (auto simp: lib_exec_def Let_def result_code_def split: if_splits option.splits)
qed

interpretation lib_file: sqlite_connections lib_conn lb_handles lb_msgs lb_schema
  by unfold_locales
    (auto simp: lib_conn_def lib_open_def Let_def lib_busy_timeout_def lib_free_def lib_close_def
      dest: lib_exec_cases split: if_splits)

end
