(* ===== verification/Database_Create.thy ===== *)
theory Database_Create
  imports Sqlite_Conn Traccoon
begin

text \<open>
  \<open>createEmptyDatabase\<close> of \<^verbatim>\<open>src/db.c\<close>: what the option \<^verbatim>\<open>-c\<close> of the tracker runs.
\<close>

text \<open>One table: the statement is run, and its error message freed; the result is whether it failed.\<close>

definition create_table :: "'db sqlite_conn \<Rightarrow> exec_stmt \<Rightarrow> 'db world \<Rightarrow> bool \<times> 'db world" where
  "create_table c s w =
     (case sqlite3_exec c s w of (error, errmsg, rows, w) \<Rightarrow>
        if error \<noteq> SQLITE_OK
        then (True, if errmsg \<noteq> None then sqlite3_free c w else w)
        else (False, if errmsg \<noteq> None then sqlite3_free c w else w))"

definition createEmptyDatabase :: "'db sqlite_conn \<Rightarrow> string \<Rightarrow> 'db world \<Rightarrow> int \<times> 'db world" where
  "createEmptyDatabase c filename w =
     (case sqlite3_open_v2 c filename (SQLITE_OPEN_READWRITE + SQLITE_OPEN_CREATE) w of (error, w) \<Rightarrow>
        if error = SQLITE_OK then
          (case create_table c CREATE_TORRENT_TABLE w of (failed, w) \<Rightarrow>
             if failed then (DB_ERROR, w)
             else case create_table c CREATE_PEERS_TABLE w of (failed, w) \<Rightarrow>
               if failed then (DB_ERROR, w)
               else case sqlite3_close c w of (error, w) \<Rightarrow>
                 (if error = SQLITE_OK then 0 else DB_ERROR, w))
        else (DB_ERROR, w))"

section \<open>Its behaviour\<close>

definition empty_schema :: schema where
  "empty_schema = \<lparr>torrents_table = Some [], peers_table = Some []\<rparr>"

context sqlite_connections
begin

lemma create_table_spec:
  assumes "create_table c s w = (failed, w')"
  shows "handles (wdb w') = handles (wdb w) \<and> msgs (wdb w') = msgs (wdb w) \<and> events w' = events w \<and>
    (if failed then tables_of (wdb w') = tables_of (wdb w)
     else \<exists>rows. exec_sql s (tables_of (wdb w)) = Some (tables_of (wdb w'), rows))"
proof -
  obtain rc msg rows db' where x: "sc_exec c s (wdb w) = (rc, msg, rows, db')" by (metis prod_cases4)
  show ?thesis
  proof (cases "rc = SQLITE_OK")
    case True
    with x exec_ok [of s "wdb w" msg rows db'] exec_msg [OF x] assms show ?thesis
      by (auto simp: create_table_def sqlite3_exec_def)
  next
    case False
    with x exec_failed [OF x] exec_msg [OF x] free_msg [of db'] assms show ?thesis
      by (auto simp: create_table_def sqlite3_exec_def sqlite3_free_def split: if_splits)
  qed
qed

lemma createEmptyDatabase_spec:
  assumes "createEmptyDatabase c filename w = (r, w')"
  shows "(r = 0 \<or> r = DB_ERROR) \<and> msgs (wdb w') = msgs (wdb w) \<and>
    (r = 0 \<longrightarrow> torrents_table (tables_of (wdb w)) = None \<and> peers_table (tables_of (wdb w)) = None \<and>
       tables_of (wdb w') = empty_schema \<and> handles (wdb w') = handles (wdb w)) \<and>
    (torrents_table (tables_of (wdb w)) \<noteq> None \<longrightarrow> r = DB_ERROR \<and> tables_of (wdb w') = tables_of (wdb w)) \<and>
    (torrents_table (tables_of (wdb w)) = None \<longrightarrow> peers_table (tables_of (wdb w')) \<noteq> peers_table (tables_of (wdb w)) \<longrightarrow>
       torrents_table (tables_of (wdb w')) = Some [])"
proof -
  obtain rc db1 where o: "sc_open c filename 6 (wdb w) = (rc, db1)" by fastforce
  note O = open_handles [OF o] open_tables [OF o]
  show ?thesis
  proof (cases "rc = SQLITE_OK")
    case False
    with o O assms show ?thesis by (auto simp: createEmptyDatabase_def sqlite3_open_v2_def)
  next
    case True
    obtain f1 w1 where t: "create_table c CREATE_TORRENT_TABLE (w\<lparr>wdb := db1\<rparr>) = (f1, w1)" by fastforce
    obtain f2 w2 where p: "create_table c CREATE_PEERS_TABLE w1 = (f2, w2)" by fastforce
    obtain rc3 db3 where cl: "sc_close c (wdb w2) = (rc3, db3)" by fastforce
    from True o t p cl assms show ?thesis
      using O create_table_spec [OF t] create_table_spec [OF p] close_handle [OF cl]
      by (auto simp: createEmptyDatabase_def sqlite3_open_v2_def sqlite3_close_def empty_schema_def split: if_splits)
  qed
qed

end

section \<open>Properties\<close>

text \<open>C37: \<open>createEmptyDatabase\<close> returns 0 only when it created both tables, empty, in a file that had
  neither, and closed its handle; an existing torrents table is never touched. No error message
  leaks on any path.\<close>

theorem createEmptyDatabase_creates:
  assumes "sqlite_connections c handles msgs tables_of" "createEmptyDatabase c filename w = (r, w')"
  shows "(r = 0 \<or> r = DB_ERROR) \<and> msgs (wdb w') = msgs (wdb w) \<and>
    (r = 0 \<longrightarrow> torrents_table (tables_of (wdb w)) = None \<and> peers_table (tables_of (wdb w)) = None \<and>
       tables_of (wdb w') = empty_schema \<and> handles (wdb w') = handles (wdb w)) \<and>
    (torrents_table (tables_of (wdb w)) \<noteq> None \<longrightarrow> r = DB_ERROR \<and> tables_of (wdb w') = tables_of (wdb w))"
  using sqlite_connections.createEmptyDatabase_spec [OF assms] by blast

text \<open>every failure before the end leaves the connection open: for a file with a torrents table,
  where the first statement must fail, a handle that was opened stays open when the function
  returns.\<close>

theorem createEmptyDatabase_leaks:
  assumes "sqlite_connections c handles msgs tables_of" "torrents_table (tables_of (wdb w)) = Some ts"
    and "sc_open c filename (SQLITE_OPEN_READWRITE + SQLITE_OPEN_CREATE) (wdb w) = (rc, db)" "rc \<noteq> SQLITE_NOMEM"
    and "createEmptyDatabase c filename w = (r, w')"
  shows "r = DB_ERROR \<and> handles (wdb w') = Suc (handles (wdb w))"
proof (cases "rc = SQLITE_OK")
  case False
  with sqlite_connections.open_handles [OF assms(1,3)] assms show ?thesis
    by (auto simp: createEmptyDatabase_def sqlite3_open_v2_def)
next
  case True
  obtain f1 w1 where t: "create_table c CREATE_TORRENT_TABLE (w\<lparr>wdb := db\<rparr>) = (f1, w1)" by fastforce
  have f1 using sqlite_connections.create_table_spec [OF assms(1) t] sqlite_connections.open_tables [OF assms(1,3)] assms(2)
    by (auto split: if_splits)
  with True t assms sqlite_connections.open_handles [OF assms(1,3)] sqlite_connections.create_table_spec [OF assms(1) t]
  show ?thesis by (auto simp: createEmptyDatabase_def sqlite3_open_v2_def)
qed

section \<open>Witnesses\<close>

definition fresh_file :: "schema \<Rightarrow> file_db world" where
  "fresh_file S = \<lparr>wdb = \<lparr>f_handles = 0, f_msgs = 0, f_schema = S, f_fail = (\<lambda>_. None), f_calls = 0\<rparr>,
     events = [], ticks = 0, polls = 0\<rparr>"

theorem createEmptyDatabase_creates_witness:
  "\<exists>w'. createEmptyDatabase file_conn ''x'' (fresh_file \<lparr>torrents_table = None, peers_table = None\<rparr>) = (0, w') \<and>
     f_schema (wdb w') = empty_schema \<and> f_handles (wdb w') = 0"
proof -
  let ?w = "fresh_file \<lparr>torrents_table = None, peers_table = None\<rparr>"
  obtain r w' where r: "createEmptyDatabase file_conn ''x'' ?w = (r, w')" by fastforce
  have "fst (createEmptyDatabase file_conn ''x'' ?w) = 0" by code_simp
  with r have "r = 0" by simp
  with createEmptyDatabase_creates [OF on_file.sqlite_connections_axioms r] r show ?thesis by (simp add: fresh_file_def)
qed

theorem createEmptyDatabase_leaks_witness:
  "\<exists>w'. createEmptyDatabase file_conn ''x'' (fresh_file empty_schema) = (DB_ERROR, w') \<and> f_handles (wdb w') = 1"
proof -
  obtain r w' where r: "createEmptyDatabase file_conn ''x'' (fresh_file empty_schema) = (r, w')" by fastforce
  obtain rc db where o: "sc_open file_conn ''x'' (SQLITE_OPEN_READWRITE + SQLITE_OPEN_CREATE) (wdb (fresh_file empty_schema)) = (rc, db)"
    by fastforce
  have "rc \<noteq> SQLITE_NOMEM" using o by (auto simp: file_conn_def f_code_def fresh_file_def)
  with createEmptyDatabase_leaks [OF on_file.sqlite_connections_axioms _ o _ r] r show ?thesis
    by (simp add: fresh_file_def empty_schema_def)
qed

end
