(* ===== verification/Sqlite_Lib_Spec.thy ===== *)
theory Sqlite_Lib_Spec
  imports Sqlite_Lib Database_Spec Database_Create
begin

text \<open>
  The database layer of the tracker on the reference library: what its functions return for each thing
  that the library can answer, and that the library lets them clean up.
\<close>

text \<open>The tracker gives \<open>sqlite3_prepare_v2\<close> the text of a statement and its length: it is that statement.\<close>

lemma compile_text: "compile (source_text (lit (sql_text s)) (int (length (sql_text s)))) = Some s"
proof -
  have "s \<in> set statements" by (cases s) (simp_all add: statements_def)
  moreover have "list_all (\<lambda>s. compile (sql_text s) = Some s \<and> NUL \<notin> set (sql_text s)) statements" by code_simp
  ultimately have "compile (sql_text s) = Some s" "NUL \<notin> set (sql_text s)" by (auto simp: list_all_iff)
  moreover from this have "source_text (lit (sql_text s)) (int (length (sql_text s))) = sql_text s"
    by (auto simp: source_text_def lit_def ctext_def takeWhile_eq_all_conv)
  ultimately show ?thesis by simp
qed

section \<open>Properties\<close>



text \<open>On a library without failures \<open>createEmptyDatabase\<close> does create the file with its two tables, and
  closes it; run on the file again it fails, and leaves the second handle open.\<close>

definition no_failures :: "lib \<Rightarrow> bool" where
  "no_failures db \<longleftrightarrow> (\<forall>n. lb_fault db n = None \<and> lb_lock db n = 0) \<and> 0 \<le> lb_timeout db"

theorem createEmptyDatabase_on_library:
  assumes "no_failures (wdb w)" "lb_schema (wdb w) = \<lparr>torrents_table = None, peers_table = None\<rparr>" "lb_stmts (wdb w) = 0"
  shows "\<exists>w1 w2. createEmptyDatabase lib_conn f w = (0, w1) \<and> lb_exists (wdb w1) \<and> lb_schema (wdb w1) = empty_schema \<and>
    lb_handles (wdb w1) = lb_handles (wdb w) \<and>
    createEmptyDatabase lib_conn f w1 = (DB_ERROR, w2) \<and> lb_handles (wdb w2) = Suc (lb_handles (wdb w))"
proof -
  have m: "lib_meets db = 0" "\<not> lib_locked db" if "lb_fault db = lb_fault (wdb w)" "lb_lock db = lb_lock (wdb w)" "lb_timeout db = lb_timeout (wdb w)" for db
    using assms(1) that by (simp_all add: no_failures_def lib_meets_def lib_locked_def)
  have "mode_of 6 = Some Create" using tracker_modes(2) by simp
  with m assms(2,3) show ?thesis
    by (simp add: createEmptyDatabase_def create_table_def sqlite3_open_v2_def sqlite3_exec_def sqlite3_close_def sqlite3_free_def
        lib_conn_def lib_open_def lib_exec_def lib_close_def lib_free_def Let_def lib_return_def creates_def empty_schema_def exec_sql.simps)
qed

text \<open>a database file that is missing: a worker, which opens it for reading and writing, is
  refused. The main program also gives the flag that creates it, so the check that its comment asks for
  cannot fail: an empty file is created, and only the first query finds that there is no table.\<close>

theorem missing_database:
  assumes "no_failures (wdb w)" "\<not> lb_exists (wdb w)" "torrents_table (lb_schema (wdb w)) = None"
  shows "fst (sqlite3_open_v2 lib_conn f SQLITE_OPEN_READWRITE w) = code_of R_CANTOPEN \<and>
    (\<exists>w1 msg w2. sqlite3_open_v2 lib_conn f (SQLITE_OPEN_READWRITE + SQLITE_OPEN_CREATE) w = (SQLITE_OK, w1) \<and> lb_exists (wdb w1) \<and>
      sqlite3_exec lib_conn EXEC_TORRENT_COUNT w1 = (SQLITE_ERROR, Some msg, [], w2))"
proof -
  have m: "lib_meets db = 0" "\<not> lib_locked db" if "lb_fault db = lb_fault (wdb w)" "lb_lock db = lb_lock (wdb w)" "lb_timeout db = lb_timeout (wdb w)" for db
    using assms(1) that by (simp_all add: no_failures_def lib_meets_def lib_locked_def)
  have "mode_of 6 = Some Create" "mode_of 2 = Some Read_write" using tracker_modes by simp_all
  with m assms(2,3) show ?thesis
    by (simp add: sqlite3_open_v2_def sqlite3_exec_def lib_conn_def lib_open_def lib_exec_def Let_def lib_return_def)
qed

section \<open>Witnesses\<close>

definition sample_lib :: "schema \<Rightarrow> (nat \<Rightarrow> result option) \<Rightarrow> lib" where
  "sample_lib S fault = \<lparr>lb_exists = (torrents_table S \<noteq> None), lb_schema = S, lb_seq = 1, lb_readonly = False, lb_handles = 1,
     lb_stmts = 0, lb_msgs = 0, lb_timeout = 500, lb_errcode = 0, lb_changes = 0, lb_calls = 0, lb_fault = fault,
     lb_lock = (\<lambda>_. 0), lb_order = (\<lambda>_ ps. ps)\<rparr>"

definition one_torrent :: schema where
  "one_torrent = \<lparr>torrents_table = Some [\<lparr>t_id = 7, t_hash = ''h'', t_downloaded = 0\<rparr>], peers_table = Some []\<rparr>"



theorem createEmptyDatabase_on_library_witness:
  "\<exists>w1. createEmptyDatabase lib_conn ''x'' (sample_world (sample_lib \<lparr>torrents_table = None, peers_table = None\<rparr> Map.empty)) = (0, w1) \<and>
     lb_schema (wdb w1) = empty_schema"
  using createEmptyDatabase_on_library [of "sample_world (sample_lib \<lparr>torrents_table = None, peers_table = None\<rparr> Map.empty)" "''x''"]
  by (simp add: sample_world_def sample_lib_def no_failures_def) blast

theorem missing_database_witness:
  "\<exists>w1. sqlite3_open_v2 lib_conn ''x'' (SQLITE_OPEN_READWRITE + SQLITE_OPEN_CREATE)
     (sample_world (sample_lib \<lparr>torrents_table = None, peers_table = None\<rparr> Map.empty)) = (SQLITE_OK, w1) \<and> lb_exists (wdb w1)"
  using missing_database [of "sample_world (sample_lib \<lparr>torrents_table = None, peers_table = None\<rparr> Map.empty)" "''x''"]
  by (simp add: sample_world_def sample_lib_def no_failures_def) blast

end
