(* ===== verification/Sqlite_Busy.thy ===== *)
theory Sqlite_Busy
  imports Sqlite_Lib
begin

text \<open>
  Waiting for a lock, and the calls that ask about a statement, after the comments of \<^verbatim>\<open>src/sqlite3.h\<close>. The tracker sets
  a busy timeout on every connection; the library of \<open>Sqlite_Lib\<close> compares it with the time for which the lock is held.
  Here is the loop around the busy handler that stands behind this comparison.
\<close>

section \<open>Busy handlers\<close>

text \<open>A handler gets the number of times that it has been called for this lock. It gives its result and how many milliseconds
  it has slept. The lock is released \<open>lock\<close> milliseconds after the first attempt. Each attempt takes one unit of fuel;
  the result is whether one succeeded.\<close>

type_synonym busy_handler = "nat \<Rightarrow> int \<times> int"

fun busy_loop :: "nat \<Rightarrow> busy_handler option \<Rightarrow> int \<Rightarrow> int \<Rightarrow> nat \<Rightarrow> bool option" where
  "busy_loop 0 handler lock elapsed calls = None"
| "busy_loop (Suc n) handler lock elapsed calls =
     (if lock \<le> elapsed then Some True
      else case handler of
        None \<Rightarrow> Some False
      | Some h \<Rightarrow>
          (case h calls of (r, slept) \<Rightarrow>
             if r = 0 then Some False else busy_loop n handler lock (elapsed + slept) (Suc calls)))"

text \<open>The handler of \<open>sqlite3_busy_timeout\<close>; how long its \<open>k\<close>th sleep is, \<open>nap k\<close>, is up to the library.\<close>

definition slept :: "(nat \<Rightarrow> int) \<Rightarrow> nat \<Rightarrow> int" where
  "slept nap k = sum nap {..<k}"

definition timeout_handler :: "int \<Rightarrow> (nat \<Rightarrow> int) \<Rightarrow> busy_handler option" where
  "timeout_handler ms nap =
     (if ms \<le> 0 then None else Some (\<lambda>k. if slept nap k \<ge> ms then (0, 0) else (1, nap k)))"

section \<open>Questions about a statement\<close>

definition lib_sql :: "lib_stmt \<Rightarrow> string" where
  "lib_sql st = sql_text (sv_sql (ls_view st))"

definition lib_stmt_readonly :: "lib_stmt \<Rightarrow> bool" where
  "lib_stmt_readonly st \<longleftrightarrow> \<not> writes (sv_sql (ls_view st))"

definition lib_bind_parameter_count :: "lib_stmt \<Rightarrow> nat" where
  "lib_bind_parameter_count st = parameters (sv_sql (ls_view st))"

definition lib_clear_bindings :: "lib_stmt \<Rightarrow> int \<times> lib_stmt" where
  "lib_clear_bindings st = (SQLITE_OK, st\<lparr>ls_view := (ls_view st)\<lparr>sv_args := (\<lambda>_. SNull)\<rparr>\<rparr>)"

section \<open>Properties\<close>

lemma slept_Suc: "slept nap (Suc k) = slept nap k + nap k"
  by (simp add: slept_def)

lemma slept_less:
  assumes "\<forall>k. 0 < nap k" "i < j"
  shows "slept nap i < slept nap j"
  using assms(2)
proof (induction j)
  case (Suc j)
  have "slept nap j < slept nap (Suc j)" using assms(1) by (simp add: slept_Suc)
  with Suc show ?case by (cases "i = j") auto
qed simp

lemma busy_loop_timeout:
  assumes "\<forall>k. 0 < nap k" "slept nap k \<le> T" "0 < ms" "\<exists>j. slept nap j = T \<and> ms \<le> T \<and> (\<forall>i < j. slept nap i < ms)"
    and "nat (ms - slept nap k) + 1 < n"
  shows "busy_loop n (timeout_handler ms nap) lock (slept nap k) k = Some (lock \<le> T)"
  using assms(2,5)
proof (induction n arbitrary: k)
  case (Suc n)
  note mono = slept_less [OF assms(1)]
  obtain j where j: "slept nap j = T" "ms \<le> T" "\<forall>i < j. slept nap i < ms" using assms(4) by blast
  have kj: "k \<le> j" using mono [of j k] Suc.prems(1) j(1) by (meson leI less_le_not_le)
  show ?case
  proof (cases "k = j")
    case True
    with j assms(3) show ?thesis by (simp add: timeout_handler_def)
  next
    case False
    with kj have lt: "slept nap k < ms" "k < j" using j(3) by auto
    have "slept nap (Suc k) \<le> T" using mono [of "Suc k" j] lt(2) j(1) by (cases "Suc k = j") auto
    moreover have "nat (ms - slept nap (Suc k)) + 1 < n"
      using Suc.prems(2) lt(1) assms(1) [rule_format, of k] by (simp add: slept_Suc)
    ultimately have "busy_loop n (timeout_handler ms nap) lock (slept nap (Suc k)) (Suc k) = Some (lock \<le> T)" by (rule Suc.IH)
    then show ?thesis using lt(1) assms(3) Suc.prems(1) by (auto simp: timeout_handler_def slept_Suc)
  qed
qed simp

text \<open>After a timeout of \<open>ms\<close> was set, an access waits for any lock that is released within \<open>ms\<close> milliseconds, and gives up
  after the first sleep at whose end at least that time has passed. Fuel of two more than the timeout is enough.\<close>

theorem busy_timeout_waits:
  assumes "\<forall>k. 0 < nap k" "0 < ms" "slept nap j = T" "ms \<le> T" "\<forall>i < j. slept nap i < ms" "nat ms + 1 < n"
  shows "busy_loop n (timeout_handler ms nap) lock 0 0 = Some (lock \<le> T)"
proof -
  have "0 \<le> T" using assms(2,4) by simp
  then show ?thesis
    using busy_loop_timeout [OF assms(1), of 0 T ms n lock] assms(2-) by (auto simp: slept_def)
qed

theorem no_timeout_no_wait: "ms \<le> 0 \<Longrightarrow> busy_loop (Suc n) (timeout_handler ms nap) lock 0 0 = Some (lock \<le> 0)"
  by (simp add: timeout_handler_def)

text \<open>So a call of the library finds the database locked exactly when the loop of its handler gives up, for sleeps that
  add up to the timeout.\<close>

theorem lib_locked_busy:
  assumes "snd (lib_busy_timeout ms db0) = db" "\<forall>k. 0 < nap k" "0 < ms \<longrightarrow> slept nap j = ms" "nat ms + 1 < n"
  shows "busy_loop n (timeout_handler ms nap) (lb_lock db (lb_calls db)) 0 0 = Some (\<not> lib_locked db)"
proof (cases "0 < ms")
  case True
  with assms slept_less [OF assms(2), of _ j] have "busy_loop n (timeout_handler ms nap) (lb_lock db (lb_calls db)) 0 0 = Some (lb_lock db (lb_calls db) \<le> ms)"
    by (intro busy_loop_timeout [where k = 0, unfolded slept_def, simplified] exI [of _ j]) (auto simp: slept_def)
  with assms(1) True show ?thesis by (auto simp: lib_locked_def lib_busy_timeout_def lib_return_def)
next
  case False
  with assms(1,4) show ?thesis
    by (cases n) (auto simp: timeout_handler_def lib_locked_def lib_busy_timeout_def lib_return_def)
qed

text \<open>The query statements are read-only, and a read-only statement changes no table.\<close>

theorem readonly_step_keeps_tables:
  assumes "lib_stmt_readonly st" "lib_step st db = (rc, st', db')"
  shows "lib_tables db' = lib_tables db"
  using assms(2)
proof (cases rule: lib_step_cases)
  case (runs st1 db1)
  have "lib_tables db1 = lib_tables db"
  proof (cases "rc = SQLITE_ROW \<or> rc = SQLITE_DONE")
    case True
    with lib_run_facts(5) [OF runs(3,2)] obtain order rows where
      "run_sql order (sv_sql (ls_view st)) (sv_args (ls_view st)) (lib_tables db) = Some (lib_tables db1, rows)" by auto
    with assms(1) show ?thesis by (cases "sv_sql (ls_view st)") (auto simp: lib_stmt_readonly_def writes_def)
  next
    case False
    with lib_run_facts(4) [OF runs(3,2)] show ?thesis by simp
  qed
  with runs show ?thesis by simp
qed simp_all

section \<open>Witnesses\<close>

theorem busy_timeout_waits_witness:
  "busy_loop 503 (timeout_handler 500 (\<lambda>_. 250)) 300 0 0 = Some True \<and> busy_loop 503 (timeout_handler 500 (\<lambda>_. 250)) 501 0 0 = Some False"
proof -
  have n: "slept (\<lambda>_. 250) j = 250 * int j" for j by (simp add: slept_def)
  then have "slept (\<lambda>_. 250) 2 = 500" "\<forall>i < 2. slept (\<lambda>_. 250) i < 500" by auto
  from busy_timeout_waits [OF _ _ this(1) _ this(2), of 503] show ?thesis by simp
qed


end
