(* ===== verification/Thread.thy ===== *)
theory Thread
  imports Comm Sqlite_Conn
begin

text \<open>
  The worker threads (\<^verbatim>\<open>src/thread.c\<close>) and the state that all threads share
  (\<^verbatim>\<open>src/traccoon.h\<close>): the accept queue, the record of the laziest worker, the shutdown flag.

  A thread runs between the accesses of the others. \<open>machine\<close> says what happens around it: \<open>mc_others n\<close> is what the
  other threads did to the shared state before its \<open>n\<close>th look at it, \<open>mc_realloc n\<close> whether
  memory can be had at the \<open>n\<close>th instant, \<open>mc_ready n\<close> the sockets that \<open>select\<close> then reports, \<open>mc_shutdown n\<close>
  the flag of the worker. One look at a queue slot with the copying that follows is one access; that this is
  right, although the code makes three, is shown in \<open>Handover_Code\<close>.
\<close>

section \<open>Shared state\<close>

record shared =
  sh_queue :: "client list"
  lazy_thread :: int
  lazy_active :: int
  killserver :: bool

record worker =
  wk_tid :: int
  wk_db :: string
  wk_queuesize :: int
  wk_announceInterval :: int

record machine =
  mc_others :: "nat \<Rightarrow> shared \<Rightarrow> shared"
  mc_realloc :: "nat \<Rightarrow> bool"
  mc_ready :: "nat \<Rightarrow> int \<Rightarrow> bool"
  mc_shutdown :: "nat \<Rightarrow> bool"

text \<open>The state of a worker: its client buffer (an empty list for a null pointer), its count of active
  clients, and what it acts on.\<close>

record 'db thread =
  th_clients :: "client list"
  th_active :: int
  th_shared :: shared
  th_world :: "'db world"
  th_clock :: nat

text \<open>\<open>Aborted\<close> is an early return of the null pointer, \<open>Done\<close> anything else.\<close>

datatype 's outcome = Done 's | Aborted 's

definition INT_MAX :: int where "INT_MAX = 2147483647"

text \<open>Sockets that fit a \<open>fd_set\<close>; with any other, \<open>FD_SET\<close> leaves the set.\<close>

definition FD_SETSIZE :: int where "FD_SETSIZE = 1024"

definition sync :: "machine \<Rightarrow> 'db thread \<Rightarrow> 'db thread" where
  "sync m s = s\<lparr>th_shared := mc_others m (th_clock s) (th_shared s), th_clock := Suc (th_clock s)\<rparr>"

definition tick :: "'db thread \<Rightarrow> 'db thread" where
  "tick s = s\<lparr>th_clock := Suc (th_clock s)\<rparr>"

definition slot :: "client list \<Rightarrow> nat \<Rightarrow> client option" where
  "slot q i = (if i < length q then Some (q ! i) else None)"

section \<open>One round of a worker\<close>

fun count_active :: "client list \<Rightarrow> nat" where
  "count_active [] = 0"
| "count_active (c # cs) = (if cl_socket c \<noteq> 0 then Suc (count_active cs) else count_active cs)"

text \<open>The slots assigned to a worker, among the next \<open>n\<close> from \<open>i\<close>.\<close>

fun count_queued :: "client list \<Rightarrow> int \<Rightarrow> nat \<Rightarrow> nat \<Rightarrow> nat option" where
  "count_queued q tid i 0 = Some 0"
| "count_queued q tid i (Suc n) = do {
     c \<leftarrow> slot q i;
     k \<leftarrow> count_queued q tid (Suc i) n;
     Some (if cl_thread c = tid then Suc k else k) }"

text \<open>A slot of a new buffer segment; only its socket is initialised.\<close>

definition fresh_slot :: client where
  "fresh_slot = \<lparr>cl_thread = 0, cl_socket = 0, cl_recv_iter = 0\<rparr>"

definition expand_buffer :: "machine \<Rightarrow> worker \<Rightarrow> 'db thread \<Rightarrow> 'db thread outcome option" where
  "expand_buffer m wk s = do {
     let s = (sync m s)\<lparr>th_active := int (count_active (th_clients s))\<rparr>;
     queued \<leftarrow> count_queued (sh_queue (th_shared s)) (wk_tid wk) 0 (nat (wk_queuesize wk));
     let i = int queued - (int (length (th_clients s)) - th_active s);
     if i > 0
     then Some (if mc_realloc m (th_clock s)
                then Done (tick (s\<lparr>th_clients := th_clients s @ replicate (nat i) fresh_slot\<rparr>))
                else Aborted (tick s))
     else Some (Done s) }"

text \<open>The loop \<open>for(;c<clients_size;c++)\<close> for a free slot.\<close>

fun find_free :: "client list \<Rightarrow> nat \<Rightarrow> nat \<Rightarrow> nat" where
  "find_free cs c 0 = c"
| "find_free cs c (Suc n) = (if cl_socket (cs ! c) = 0 then c else find_free cs (Suc c) n)"

definition take_slot :: "client \<Rightarrow> client" where
  "take_slot q = q\<lparr>cl_recv_iter := 0\<rparr>"

definition release_slot :: "client \<Rightarrow> client" where
  "release_slot q = q\<lparr>cl_thread := 0, cl_socket := 0\<rparr>"

text \<open>One turn of the copying loop, for queue slot \<open>i\<close>; \<open>c\<close> is where the search for a free
  slot of the buffer goes on.\<close>

definition copy_slot :: "machine \<Rightarrow> worker \<Rightarrow> nat \<Rightarrow> nat \<Rightarrow> 'db thread \<Rightarrow> (nat \<times> 'db thread) outcome option" where
  "copy_slot m wk i c s = do {
     let s = sync m s;
     q \<leftarrow> slot (sh_queue (th_shared s)) i;
     if cl_thread q = wk_tid wk then do {
       let c = find_free (th_clients s) c (length (th_clients s) - c);
       if c = length (th_clients s) \<and> \<not> mc_realloc m (th_clock s) then Some (Aborted (c, tick s))
       else do {
         let cs = (if c = length (th_clients s) then th_clients s @ [take_slot q] else (th_clients s)[c := take_slot q]);
         Some (Done (c, (tick s)\<lparr>th_clients := cs, th_active := th_active s + 1,
           th_shared := (th_shared s)\<lparr>sh_queue := (sh_queue (th_shared s))[i := release_slot q]\<rparr>\<rparr>)) } }
     else Some (Done (c, s)) }"

fun copy_slots :: "machine \<Rightarrow> worker \<Rightarrow> nat \<Rightarrow> nat \<Rightarrow> nat \<Rightarrow> 'db thread \<Rightarrow> 'db thread outcome option" where
  "copy_slots m wk i c 0 s = Some (Done s)"
| "copy_slots m wk i c (Suc n) s = do {
     r \<leftarrow> copy_slot m wk i c s;
     (case r of
        Done (c, s) \<Rightarrow> copy_slots m wk (Suc i) c n s
      | Aborted (c, s) \<Rightarrow> Some (Aborted s)) }"

text \<open>The load balancing record.\<close>

definition balance :: "machine \<Rightarrow> worker \<Rightarrow> 'db thread \<Rightarrow> 'db thread" where
  "balance m wk s =
     (let s = sync m s; sh = th_shared s
      in if lazy_thread sh = wk_tid wk \<or> lazy_active sh > th_active s
         then s\<lparr>th_shared := sh\<lparr>lazy_thread := wk_tid wk, lazy_active := th_active s\<rparr>\<rparr> else s)"

text \<open>The loop that builds the set for \<open>select\<close>: its clients are counted one round older, and the
  greatest descriptor is found. \<^term>\<open>None\<close>: a descriptor that \<open>FD_SET\<close> may not be used with.\<close>

fun select_set :: "int \<Rightarrow> client list \<Rightarrow> (int \<times> client list) option" where
  "select_set fdmax [] = Some (fdmax, [])"
| "select_set fdmax (c # cs) =
     (if cl_socket c \<noteq> 0 then
        (if 0 \<le> cl_socket c \<and> cl_socket c < FD_SETSIZE then do {
           iter \<leftarrow> int_add (cl_recv_iter c) 1;
           (fdmax, cs) \<leftarrow> select_set (max fdmax (cl_socket c)) cs;
           Some (fdmax, c\<lparr>cl_recv_iter := iter\<rparr> # cs) }
         else None)
      else do {
        (fdmax, cs) \<leftarrow> select_set fdmax cs;
        Some (fdmax, c # cs) })"

text \<open>One client of the loop after \<open>select\<close>.\<close>

definition serve_client ::
    "os \<Rightarrow> ('db, 'stmt) sqlite \<Rightarrow> int \<Rightarrow> (int \<Rightarrow> bool) \<Rightarrow> client \<Rightarrow> 'db world \<Rightarrow> (client \<times> 'db world) option" where
  "serve_client e q announceInterval ready c w =
     (if cl_socket c \<noteq> 0 then do {
        (handled, w) \<leftarrow> (if ready (cl_socket c) then parseSocket e q c announceInterval w else Some (False, w));
        (handled, w) \<leftarrow>
          (if \<not> handled \<and> cl_recv_iter c > MAX_RECV_ITER then do {
             (_, w) \<leftarrow> sendHttpHeaders e (cl_socket c) (lit ''408 Timed Out'')
               (lit (''X-Failure-Reason: Youre doing it wrong'' @ crlf)) w;
             Some (True, w) }
           else Some (handled, w));
        Some (if handled then (c\<lparr>cl_socket := 0\<rparr>, log_event (Closed (cl_socket c)) w) else (c, w)) }
      else Some (c, w))"

fun serve_clients ::
    "os \<Rightarrow> ('db, 'stmt) sqlite \<Rightarrow> int \<Rightarrow> (int \<Rightarrow> bool) \<Rightarrow> client list \<Rightarrow> 'db world \<Rightarrow>
     (client list \<times> 'db world) option" where
  "serve_clients e q announceInterval ready [] w = Some ([], w)"
| "serve_clients e q announceInterval ready (c # cs) w = do {
     (c, w) \<leftarrow> serve_client e q announceInterval ready c w;
     (cs, w) \<leftarrow> serve_clients e q announceInterval ready cs w;
     Some (c # cs, w) }"

definition serve ::
    "os \<Rightarrow> ('db, 'stmt) sqlite \<Rightarrow> machine \<Rightarrow> worker \<Rightarrow> 'db thread \<Rightarrow> 'db thread option" where
  "serve e q m wk s = do {
     (fdmax, cs) \<leftarrow> select_set 0 (th_clients s);
     if fdmax > 0 then do {
       (cs', w) \<leftarrow> serve_clients e q (wk_announceInterval wk) (mc_ready m (th_clock s)) cs (th_world s);
       let closed = int (count_active cs) - int (count_active cs');
       Some (tick (s\<lparr>th_clients := cs', th_active := th_active s - closed, th_world := w\<rparr>)) }
     else Some (s\<lparr>th_clients := cs\<rparr>) }"

definition worker_round ::
    "os \<Rightarrow> ('db, 'stmt) sqlite \<Rightarrow> machine \<Rightarrow> worker \<Rightarrow> 'db thread \<Rightarrow> 'db thread outcome option" where
  "worker_round e q m wk s = do {
     r \<leftarrow> expand_buffer m wk s;
     (case r of
        Aborted s \<Rightarrow> Some (Aborted s)
      | Done s \<Rightarrow> do {
          r \<leftarrow> copy_slots m wk 0 0 (nat (wk_queuesize wk)) s;
          (case r of
             Aborted s \<Rightarrow> Some (Aborted s)
           | Done s \<Rightarrow> map_option Done (serve e q m wk (balance m wk s))) }) }"

text \<open>\<open>while(!tp->shutdown)\<close>: the fuel bounds the rounds.\<close>

fun worker_loop ::
    "nat \<Rightarrow> os \<Rightarrow> ('db, 'stmt) sqlite \<Rightarrow> machine \<Rightarrow> worker \<Rightarrow> 'db thread \<Rightarrow> 'db thread outcome option" where
  "worker_loop 0 e q m wk s = None"
| "worker_loop (Suc n) e q m wk s =
     (if mc_shutdown m (th_clock s) then Some (Done (tick s))
      else do {
        r \<leftarrow> worker_round e q m wk (tick s);
        (case r of Aborted s \<Rightarrow> Some (Aborted s) | Done s \<Rightarrow> worker_loop n e q m wk s) })"

section \<open>Shutting down\<close>

text \<open>Waiting until another worker has become the laziest, or the server is killed.\<close>

fun wait_unassigned :: "nat \<Rightarrow> machine \<Rightarrow> worker \<Rightarrow> 'db thread \<Rightarrow> 'db thread option" where
  "wait_unassigned 0 m wk s = None"
| "wait_unassigned (Suc n) m wk s =
     (let s = sync m s in
      if lazy_thread (th_shared s) = wk_tid wk \<and> \<not> killserver (th_shared s) then wait_unassigned n m wk s
      else Some s)"

definition leave_balancing :: "nat \<Rightarrow> machine \<Rightarrow> worker \<Rightarrow> 'db thread \<Rightarrow> 'db thread option" where
  "leave_balancing n m wk s =
     (let s = sync m s in
      if lazy_thread (th_shared s) = wk_tid wk
      then wait_unassigned n m wk (s\<lparr>th_shared := (th_shared s)\<lparr>lazy_active := INT_MAX\<rparr>\<rparr>)
      else Some s)"

fun close_clients :: "client list \<Rightarrow> 'db world \<Rightarrow> 'db world" where
  "close_clients [] w = w"
| "close_clients (c # cs) w = close_clients cs (if cl_socket c \<noteq> 0 then log_event (Closed (cl_socket c)) w else w)"

text \<open>The worker's slots of the queue are closed, or given to the laziest worker.\<close>

fun give_back :: "machine \<Rightarrow> worker \<Rightarrow> nat \<Rightarrow> nat \<Rightarrow> 'db thread \<Rightarrow> 'db thread option" where
  "give_back m wk i 0 s = Some s"
| "give_back m wk i (Suc n) s = do {
     let s = sync m s;
     q \<leftarrow> slot (sh_queue (th_shared s)) i;
     let sh = th_shared s;
     give_back m wk (Suc i) n
       (if cl_thread q = wk_tid wk then
          if killserver sh
          then s\<lparr>th_world := log_event (Closed (cl_socket q)) (th_world s),
                 th_shared := sh\<lparr>sh_queue := (sh_queue sh)[i := release_slot q]\<rparr>\<rparr>
          else s\<lparr>th_shared := sh\<lparr>sh_queue := (sh_queue sh)[i := q\<lparr>cl_thread := lazy_thread sh\<rparr>]\<rparr>\<rparr>
        else s) }"

definition worker_cleanup ::
    "nat \<Rightarrow> 'db sqlite_conn \<Rightarrow> machine \<Rightarrow> worker \<Rightarrow> 'db thread \<Rightarrow> 'db thread option" where
  "worker_cleanup n c m wk s = do {
     s \<leftarrow> leave_balancing n m wk s;
     s \<leftarrow> give_back m wk 0 (nat (wk_queuesize wk))
            (s\<lparr>th_clients := [], th_world := close_clients (th_clients s) (th_world s)\<rparr>);
     Some (s\<lparr>th_world := snd (sqlite3_close c (th_world s))\<rparr>) }"

text \<open>The whole thread, from \<open>pthread_create\<close> to its return. \<open>Aborted\<close> is the null result; the
  failure to set the timeout is only reported.\<close>

definition workerthread ::
    "nat \<Rightarrow> os \<Rightarrow> ('db, 'stmt) sqlite \<Rightarrow> 'db sqlite_conn \<Rightarrow> machine \<Rightarrow> worker \<Rightarrow> shared \<Rightarrow> 'db world \<Rightarrow>
     'db thread outcome option" where
  "workerthread n e q c m wk sh w =
     (case sqlite3_open_v2 c (wk_db wk) SQLITE_OPEN_READWRITE w of (rc, w) \<Rightarrow>
        if rc \<noteq> SQLITE_OK then Some (Aborted \<lparr>th_clients = [], th_active = 0, th_shared = sh, th_world = w, th_clock = 0\<rparr>)
        else do {
          let w = snd (sqlite3_busy_timeout c 500 w);
          r \<leftarrow> worker_loop n e q m wk \<lparr>th_clients = [], th_active = 0, th_shared = sh, th_world = w, th_clock = 0\<rparr>;
          (case r of
             Aborted s \<Rightarrow> Some (Aborted s)
           | Done s \<Rightarrow> map_option Done (worker_cleanup n c m wk s)) })"

end
