(* ===== verification/Server.thy ===== *)
theory Server
  imports Thread Database_Create
begin

text \<open>
  The main thread (\<^verbatim>\<open>src/traccoon.c\<close>) and the callbacks (\<^verbatim>\<open>src/callbacks.c\<close>): options, start of
  the workers, the server socket, the accept loop with its pruning, and the shutdown. \<open>system\<close> holds
  the calls that only the main thread makes. The accept loop and the wait for a free slot run as
  long as the server does, so they take fuel. Use of a value that was never written (a thread handle,
  a pointer) is undefined and therefore \<^term>\<open>None\<close>.
\<close>

section \<open>Callbacks\<close>

definition CB_TORRENT_COUNT :: int where "CB_TORRENT_COUNT = 9001"

text \<open>What the callbacks print, and their result; a null column is \<^term>\<open>None\<close>, which \<open>printf\<close>
  may not be given.\<close>

definition statusMessageCallback :: "int \<Rightarrow> string option list \<Rightarrow> (string \<times> int) option" where
  "statusMessageCallback param argv =
     (if param = CB_TORRENT_COUNT
      then (case argv of
              Some n # _ \<Rightarrow> Some (''Tracking '' @ n @ '' torrents'' @ [CHR 0x0A], 0)
            | _ \<Rightarrow> None)
      else Some ([], 0))"

fun dumpDataCallback :: "string option list \<Rightarrow> string list \<Rightarrow> (string \<times> int) option" where
  "dumpDataCallback [] column = Some ([], 0)"
| "dumpDataCallback (Some v # argv) (c # column) =
     map_option (\<lambda>(out, r). (c @ '' - '' @ v @ [CHR 0x0A] @ out, r)) (dumpDataCallback argv column)"
| "dumpDataCallback _ _ = None"

definition sigint_handler :: "int \<Rightarrow> shared \<Rightarrow> 'db world \<Rightarrow> shared \<times> 'db world" where
  "sigint_handler servsock sh w = (sh\<lparr>killserver := True\<rparr>, log_event (Closed servsock) w)"

section \<open>Options\<close>

record config =
  cf_workerthreads :: int
  cf_db :: string
  cf_bindhost :: "string option"
  cf_port :: string
  cf_queuesize :: int
  cf_ipv4 :: "bool option"
  cf_announceInterval :: int

definition default_config :: config where
  "default_config = \<lparr>cf_workerthreads = 10, cf_db = ''tracker.db3'', cf_bindhost = None, cf_port = ''6969'',
     cf_queuesize = 20, cf_ipv4 = None, cf_announceInterval = 300\<rparr>"

definition usage :: "string \<Rightarrow> string \<times> int" where
  "usage name = (''Hot diggidy, you forgot to specify some options!'' @ newline @
     name @ '' -f <dbfile>'' @ tab @ tab @ ''Set sqlite3 database file to use for storage (Default: tracker.db3)'' @ newline @
     name @ '' -c <dbfile>'' @ tab @ tab @ ''Initialize new database in <dbfile> and exit'' @ newline @
     name @ '' -w <num>'' @ tab @ tab @ ''Number of worker threads for handling connections (Default: 10)'' @ newline @
     name @ '' -b <host|addr>'' @ tab @ ''Host to bind server on (Default: 0.0.0.0)'' @ newline @
     name @ '' -i (4|6)'' @ tab @ tab @ ''Force IPv4/6 (Default: any)'' @ newline @
     name @ '' -p <num>'' @ tab @ tab @ ''Use Port (Default: 6969)'' @ newline @
     name @ '' -q <num>'' @ tab @ tab @ ''Accept queue size (Default: 20)'' @ newline @
     name @ '' -a <num>'' @ tab @ tab @ ''Set announce interval (seconds) (Default: 300)'' @ newline, 1)"

text \<open>The result of the loop over the options: the configuration, or the file of \<^verbatim>\<open>-c\<close>, which
  ends the program.\<close>

datatype options = Run config | Create string

definition number_of :: "string \<Rightarrow> int option" where
  "number_of s = map_option to_int (strtoul (lit s))"

definition apply_option :: "char \<Rightarrow> string \<Rightarrow> config \<Rightarrow> config option" where
  "apply_option opt v cf =
     (if opt = CHR ''f'' then Some (cf\<lparr>cf_db := v\<rparr>)
      else if opt = CHR ''w'' then map_option (\<lambda>n. cf\<lparr>cf_workerthreads := n\<rparr>) (number_of v)
      else if opt = CHR ''b'' then Some (cf\<lparr>cf_bindhost := Some v\<rparr>)
      else if opt = CHR ''i'' then map_option (\<lambda>c. cf\<lparr>cf_ipv4 := Some (c = CHR ''4'')\<rparr>) (rd (lit v) 0)
      else if opt = CHR ''p'' then Some (cf\<lparr>cf_port := v\<rparr>)
      else if opt = CHR ''q'' then map_option (\<lambda>n. cf\<lparr>cf_queuesize := n\<rparr>) (number_of v)
      else if opt = CHR ''a'' then map_option (\<lambda>n. cf\<lparr>cf_announceInterval := n\<rparr>) (number_of v)
      else Some cf)"

fun parse_args :: "string list \<Rightarrow> config \<Rightarrow> options option" where
  "parse_args (a # v # args) cf = do {
     x \<leftarrow> rd (lit a) 0;
     if x \<noteq> CHR ''-'' then parse_args args cf
     else do {
       opt \<leftarrow> rd (lit a) 1;
       if opt = CHR ''c'' then Some (Create v)
       else do { cf \<leftarrow> apply_option opt v cf; parse_args args cf } } }"
| "parse_args _ cf = Some (Run cf)"

section \<open>The main thread\<close>

record addr =
  ai_ipv4 :: bool
  ai_text :: string

record system =
  sy_thread :: "nat \<Rightarrow> bool"
  sy_getaddrinfo :: "string option \<Rightarrow> string \<Rightarrow> addr list option"
  sy_socket :: "nat \<Rightarrow> addr \<Rightarrow> int"
  sy_setsockopt :: "int \<Rightarrow> bool"
  sy_bind :: "int \<Rightarrow> addr \<Rightarrow> bool"
  sy_listen :: "int \<Rightarrow> int \<Rightarrow> bool"
  sy_accept :: "nat \<Rightarrow> int"
  sy_join :: "nat \<Rightarrow> shared \<Rightarrow> shared"

text \<open>The state of the main thread; \<open>sv_created\<close> is the number of threads it has started.\<close>

record 'db server =
  sv_shared :: shared
  sv_world :: "'db world"
  sv_clock :: nat
  sv_created :: nat

definition sv_sync :: "machine \<Rightarrow> 'db server \<Rightarrow> 'db server" where
  "sv_sync m s = s\<lparr>sv_shared := mc_others m (sv_clock s) (sv_shared s), sv_clock := Suc (sv_clock s)\<rparr>"

definition int_mul :: "int \<Rightarrow> int \<Rightarrow> int option" where
  "int_mul a b = (if int_range (a * b) then Some (a * b) else None)"

definition set_queue :: "nat \<Rightarrow> (client \<Rightarrow> client) \<Rightarrow> 'db server \<Rightarrow> 'db server" where
  "set_queue i f s = s\<lparr>sv_shared := (sv_shared s)\<lparr>sh_queue := (sh_queue (sv_shared s))[i := f (sh_queue (sv_shared s) ! i)]\<rparr>\<rparr>"

text \<open>Spawning the workers: how many were created.\<close>

fun spawn :: "system \<Rightarrow> nat \<Rightarrow> nat \<Rightarrow> nat" where
  "spawn y i 0 = i"
| "spawn y i (Suc n) = (if sy_thread y i then spawn y (Suc i) n else i)"

text \<open>The loop over the addresses. As in the code, it always uses the first address, and its next
  address is always the second one. The result is the socket and \<open>addr_it\<close>, a null pointer if the
  loop ran out of addresses.\<close>

fun server_socket :: "nat \<Rightarrow> system \<Rightarrow> addr list \<Rightarrow> nat \<Rightarrow> addr option \<Rightarrow> int \<Rightarrow> (int \<times> addr option) option" where
  "server_socket 0 y servinfo k it servsock = None"
| "server_socket (Suc n) y servinfo k it servsock =
     (case it of
        None \<Rightarrow> Some (servsock, None)
      | Some a \<Rightarrow>
          let servsock = sy_socket y k (hd servinfo)
          in if servsock \<noteq> -1 then Some (servsock, Some a)
             else server_socket n y servinfo (Suc k)
               (case servinfo of _ # b # _ \<Rightarrow> Some b | _ \<Rightarrow> None) servsock)"

text \<open>The search for an empty slot of the queue, from slot \<open>i\<close> on, and round again.\<close>

fun find_slot :: "nat \<Rightarrow> machine \<Rightarrow> int \<Rightarrow> nat \<Rightarrow> 'db server \<Rightarrow> (nat \<times> 'db server) option" where
  "find_slot 0 m queuesize i s = None"
| "find_slot (Suc n) m queuesize i s = do {
     let s = sv_sync m s;
     q \<leftarrow> slot (sh_queue (sv_shared s)) i;
     if cl_socket q = 0 then Some (i, s)
     else if queuesize = 0 then None
     else find_slot n m queuesize (nat ((int i + 1) mod queuesize)) s }"

text \<open>The slot found gets the next connection, which is assigned to the laziest worker.\<close>

definition accept_into :: "system \<Rightarrow> machine \<Rightarrow> nat \<Rightarrow> 'db server \<Rightarrow> 'db server" where
  "accept_into y m i s =
     (let s = sv_sync m (set_queue i (\<lambda>c. c\<lparr>cl_thread := 0\<rparr>) s);
          fd = sy_accept y (sv_clock s);
          s = set_queue i (\<lambda>c. c\<lparr>cl_socket := fd\<rparr>) s
      in if fd = -1 then set_queue i (\<lambda>c. c\<lparr>cl_socket := 0\<rparr>) s
         else let s = sv_sync m s
              in set_queue i (\<lambda>c. c\<lparr>cl_thread := lazy_thread (sv_shared s)\<rparr>) s)"

text \<open>The clock and the pruning, after each connection. The last argument is \<open>timeNow\<close> and
  \<open>timeLast\<close>, in seconds; the result has the new ones, and the error.\<close>

definition prune_in_time ::
    "os \<Rightarrow> ('db, 'stmt) sqlite \<Rightarrow> config \<Rightarrow> int \<Rightarrow> int \<times> int \<Rightarrow> 'db server \<Rightarrow> (int \<times> (int \<times> int) \<times> 'db server) option" where
  "prune_in_time e q cf error clock s =
     (case clock of (timeNow, timeLast) \<Rightarrow>
     (case gettimeofday e (sv_world s) of (t, w) \<Rightarrow>
       let s = s\<lparr>sv_world := w\<rparr>;
           error = (if t = None then GENERAL_FAILURE else error);
           timeNow = (case t of None \<Rightarrow> timeNow | Some sec \<Rightarrow> sec);
           s = (if t = None then s\<lparr>sv_shared := (sv_shared s)\<lparr>killserver := True\<rparr>\<rparr> else s)
       in do {
         expire \<leftarrow> int_mul 3 (cf_announceInterval cf);
         if timeNow - timeLast \<ge> expire then do {
           (_, w) \<leftarrow> prunePeers e q expire (sv_world s);
           Some (error, (timeNow, timeNow), s\<lparr>sv_world := w\<rparr>) }
         else Some (error, (timeNow, timeLast), s) }))"

fun accept_loop ::
    "nat \<Rightarrow> os \<Rightarrow> ('db, 'stmt) sqlite \<Rightarrow> system \<Rightarrow> machine \<Rightarrow> config \<Rightarrow> int \<Rightarrow> int \<times> int \<Rightarrow> 'db server \<Rightarrow>
     (int \<times> 'db server) option" where
  "accept_loop 0 e q y m cf error clock s = None"
| "accept_loop (Suc n) e q y m cf error clock s = do {
     let s = sv_sync m s;
     if killserver (sv_shared s) then Some (error, s)
     else do {
       (i, s) \<leftarrow> find_slot n m (cf_queuesize cf) 0 s;
       (error, clock, s) \<leftarrow> prune_in_time e q cf error clock (accept_into y m i s);
       accept_loop n e q y m cf error clock s } }"

text \<open>From \<open>getaddrinfo\<close> to \<open>freeaddrinfo\<close>. If \<open>getaddrinfo\<close> fails, \<open>servinfo\<close> is freed without
  ever having been set.\<close>

definition serve_network ::
    "nat \<Rightarrow> os \<Rightarrow> ('db, 'stmt) sqlite \<Rightarrow> system \<Rightarrow> machine \<Rightarrow> config \<Rightarrow> int \<Rightarrow> 'db server \<Rightarrow> (int \<times> 'db server) option" where
  "serve_network n e q y m cf timeLast s =
     (case sy_getaddrinfo y (cf_bindhost cf) (cf_port cf) of
        None \<Rightarrow> None
      | Some servinfo \<Rightarrow>
          (if servinfo = [] then None
           else do {
             (servsock, addr_it) \<leftarrow> server_socket n y servinfo 0 (Some (hd servinfo)) (-1);
             if servsock = -1 then Some (SOCKET_ERROR, s)
             else do {
               a \<leftarrow> addr_it;
               (error, s) \<leftarrow>
                 (if \<not> sy_setsockopt y servsock then Some (SOCKET_ERROR, s)
                  else if \<not> sy_bind y servsock a then Some (SOCKET_ERROR, s)
                  else if \<not> sy_listen y servsock (cf_queuesize cf) then Some (SOCKET_ERROR, s)
                  else accept_loop n e q y m cf 0 (0, timeLast) s);
               Some (error, s\<lparr>sv_world := log_event (Closed servsock) (sv_world s)\<rparr>) } }))"

text \<open>The workers are joined, each of which must have been created.\<close>

fun join_workers :: "system \<Rightarrow> nat \<Rightarrow> nat \<Rightarrow> 'db server \<Rightarrow> 'db server option" where
  "join_workers y i 0 s = Some s"
| "join_workers y i (Suc n) s =
     (if i < sv_created s then join_workers y (Suc i) n (s\<lparr>sv_shared := sy_join y i (sv_shared s)\<rparr>) else None)"

fun close_stray :: "client list \<Rightarrow> 'db world \<Rightarrow> 'db world" where
  "close_stray [] w = w"
| "close_stray (c # q) w = close_stray q (if cl_socket c \<noteq> 0 then log_event (Closed (cl_socket c)) w else w)"

definition shutdown_server ::
    "'db sqlite_conn \<Rightarrow> system \<Rightarrow> config \<Rightarrow> int \<Rightarrow> 'db server \<Rightarrow> (int \<times> 'db server) option" where
  "shutdown_server c y cf error s = do {
     let s = s\<lparr>sv_shared := (sv_shared s)\<lparr>killserver := True\<rparr>\<rparr>;
     s \<leftarrow> (if error \<noteq> THREADCREATION_ERROR then join_workers y 0 (nat (cf_workerthreads cf)) s else Some s);
     let w = close_stray (sh_queue (sv_shared s)) (sv_world s);
     Some (error, s\<lparr>sv_world := snd (sqlite3_close c w)\<rparr>) }"

text \<open>\<open>malloc\<close> of a negative number of elements is a request for more memory than there is.\<close>

definition run_server ::
    "nat \<Rightarrow> os \<Rightarrow> ('db, 'stmt) sqlite \<Rightarrow> 'db sqlite_conn \<Rightarrow> system \<Rightarrow> machine \<Rightarrow> config \<Rightarrow> 'db world \<Rightarrow>
     (int \<times> 'db world) option" where
  "run_server n e q c y m cf w =
     (if cf_workerthreads cf < 0 \<or> \<not> mc_realloc m 0 then Some (MEM_ERROR, w)
      else if cf_queuesize cf < 0 \<or> \<not> mc_realloc m 1 then Some (MEM_ERROR, w)
      else
     (case gettimeofday e w of
        (None, w) \<Rightarrow> Some (GENERAL_FAILURE, w)
      | (Some timeLast, w) \<Rightarrow>
     (case sqlite3_open_v2 c (cf_db cf) (SQLITE_OPEN_READWRITE + SQLITE_OPEN_CREATE) w of (rc, w) \<Rightarrow>
     let start = \<lparr>sv_shared = \<lparr>sh_queue = replicate (nat (cf_queuesize cf)) fresh_slot, lazy_thread = 0, lazy_active = 0,
                   killserver = False\<rparr>, sv_world = w, sv_clock = 0, sv_created = 0\<rparr>
     in do {
       (error, s) \<leftarrow>
         (if rc \<noteq> SQLITE_OK then Some (DB_ERROR, start)
          else
         (case sqlite3_exec c EXEC_TORRENT_COUNT (snd (sqlite3_busy_timeout c 500 w)) of (error, errstr, rows, w) \<Rightarrow>
            if error \<noteq> SQLITE_OK
            then Some (error, start\<lparr>sv_world := (if errstr \<noteq> None then sqlite3_free c w else w)\<rparr>)
            else
              let k = spawn y 0 (nat (cf_workerthreads cf));
                  s = sv_sync m (start\<lparr>sv_world := w, sv_created := k\<rparr>);
                  s = s\<lparr>sv_shared := (sv_shared s)\<lparr>lazy_thread := 1, lazy_active := 0\<rparr>\<rparr>
              in if k < nat (cf_workerthreads cf) then Some (THREADCREATION_ERROR, s)
                 else serve_network n e q y m cf timeLast s));
       (error, s) \<leftarrow> shutdown_server c y cf error s;
       Some (error, sv_world s) })))"

text \<open>The program: the code it exits with.\<close>

definition main ::
    "nat \<Rightarrow> os \<Rightarrow> ('db, 'stmt) sqlite \<Rightarrow> 'db sqlite_conn \<Rightarrow> system \<Rightarrow> machine \<Rightarrow> string list \<Rightarrow> 'db world \<Rightarrow>
     (int \<times> 'db world) option" where
  "main n e q c y m argv w =
     (if even (length argv) then (case argv of [] \<Rightarrow> None | name # _ \<Rightarrow> Some (snd (usage name), w))
      else do {
        r \<leftarrow> parse_args (tl argv) default_config;
        (case r of
           Create file \<Rightarrow> Some (createEmptyDatabase c file w)
         | Run cf \<Rightarrow> run_server n e q c y m cf w) })"

end
