(* ===== verification/Comm_Events.thy ===== *)
theory Comm_Events
  imports Comm_Spec
begin

text \<open>
  What the handling of a request does to sockets: it sends to the socket of its own client, may
  discard its input, and closes nothing.
\<close>

definition own_event :: "int \<Rightarrow> event \<Rightarrow> bool" where
  "own_event fd ev = (case ev of Sent f _ \<Rightarrow> f = fd | Flushed f \<Rightarrow> f = fd | Closed _ \<Rightarrow> False)"

text \<open>\<open>w'\<close> comes after \<open>w\<close>, with only such events between them.\<close>

definition own_events :: "int \<Rightarrow> 'db world \<Rightarrow> 'db world \<Rightarrow> bool" where
  "own_events fd w w' \<longleftrightarrow>
     take (length (events w)) (events w') = events w \<and>
     list_all (own_event fd) (drop (length (events w)) (events w'))"

lemma own_events_iff: "own_events fd w w' \<longleftrightarrow> (\<exists>evs. events w' = events w @ evs \<and> list_all (own_event fd) evs)"
  unfolding own_events_def by (metis append_take_drop_id append_eq_conv_conj)

lemma own_same [simp, intro]: "events w' = events w \<Longrightarrow> own_events fd w w'"
  by (auto simp: own_events_iff)

lemma own_trans [trans]: "own_events fd w1 w2 \<Longrightarrow> own_events fd w2 w3 \<Longrightarrow> own_events fd w1 w3"
  unfolding own_events_iff by (metis append.assoc list_all_append)

lemma own_log [simp, intro]: "own_event fd ev \<Longrightarrow> own_events fd w (log_event ev w)"
  by (auto simp: own_events_iff log_event_def)

lemma own_from_same: "events w2 = events w1 \<Longrightarrow> own_events fd w2 w3 \<longleftrightarrow> own_events fd w1 w3"
  by (simp add: own_events_iff)

lemma own_sends:
  "reallySend e fd p n w = Some (r, w') \<Longrightarrow> own_events fd w w'"
  "sendString e fd p w = Some (r, w') \<Longrightarrow> own_events fd w w'"
  by (auto simp: sendString_def reallySend_def Let_def own_event_def elim!: bind_SomeE)

lemma own_headers: "sendHttpHeaders e fd p h w = Some (r, w') \<Longrightarrow> own_events fd w w'"
  unfolding sendHttpHeaders_def by (auto elim!: bind_SomeE dest!: own_sends(2)) (meson own_trans)

section \<open>The database operations send nothing\<close>

lemma sqlite_events:
  "sqlite3_prepare_v2 q s w = (rc, st, w') \<Longrightarrow> events w' = events w"
  "sqlite3_step q st' w = (rc, st, w') \<Longrightarrow> events w' = events w"
  "events (sqlite3_finalize q st w) = events w"
  "gettimeofday e w = (t, w') \<Longrightarrow> events w' = events w"
  by (auto simp: sqlite3_prepare_v2_def sqlite3_step_def sqlite3_finalize_def gettimeofday_def split: prod.splits)

lemma bind_events:
  assumes "bind_or_fail q r w k = Some (x, w')" "\<And>st x w'. k st = Some (x, w') \<Longrightarrow> events w' = events w"
  shows "events w' = events w"
  using assms by (auto simp: bind_or_fail_def sqlite_events split: prod.splits if_splits)

lemma finish_events: "finish_step q st w = Some (x, w') \<Longrightarrow> events w' = events w"
  by (auto simp: finish_step_def sqlite_events split: prod.splits)

lemma getTorrentId_events: "getTorrentId q h w = Some (x, w') \<Longrightarrow> events w' = events w"
  by (auto simp: getTorrentId_def sqlite_events elim!: bind_SomeE bind_events split: prod.splits if_splits
      dest!: sqlite_events(1,2) bind_events)

lemma queryTorrentParam_events: "queryTorrentParam q s t w = Some (x, w') \<Longrightarrow> events w' = events w"
  by (auto simp: queryTorrentParam_def sqlite_events elim!: bind_SomeE bind_events split: prod.splits if_splits
      dest!: sqlite_events(1,2) bind_events)

lemma addPeer_events: "addPeer e q ar t w = Some (x, w') \<Longrightarrow> events w' = events w"
  unfolding addPeer_def
  by (auto simp: sqlite_events elim!: bind_SomeE split: prod.splits if_splits option.splits
      dest!: sqlite_events(1,2,4) bind_events finish_events)

lemma queryPeer_events:
  "queryPeer q t ar w = Some (Inl (x, w')) \<Longrightarrow> events w' = events w"
  "queryPeer q t ar w = Some (Inr (y, z, w')) \<Longrightarrow> events w' = events w"
  by (auto simp: queryPeer_def sqlite_events Let_def elim!: bind_SomeE split: prod.splits if_splits dest!: sqlite_events(1,2))

lemma increaseCompletion_events: "increaseCompletion q t w = Some (x, w') \<Longrightarrow> events w' = events w"
  by (auto simp: increaseCompletion_def elim!: bind_SomeE split: prod.splits if_splits
      dest!: sqlite_events(1,2) bind_events finish_events)

lemma modifyPeer_events: "modifyPeer e q t ar p w = Some (x, w') \<Longrightarrow> events w' = events w"
  unfolding modifyPeer_def
  by (auto simp: sqlite_events elim!: bind_SomeE split: prod.splits if_splits option.splits
      dest!: sqlite_events(1,2,4) bind_events finish_events increaseCompletion_events)

lemma updatePeer_events:
  assumes "updatePeer e q t ar w = Some (x, w')"
  shows "events w' = events w"
proof -
  have "events (snd (x, w')) = events w"
  proof (rule updatePeer.raw_induct [where P = "\<lambda>e q t ar w res. events (snd res) = events w", OF _ assms])
    fix upd and e and q :: "('a, 'b) sqlite" and t ar and w :: "'a world" and y :: "int \<times> 'a world"
    assume IH: "\<And>e (q :: ('a, 'b) sqlite) t ar (w :: 'a world) y. upd e q t ar w = Some y \<Longrightarrow> events (snd y) = events w"
      and eq: "do {
        r \<leftarrow> queryPeer q t ar w;
        case r of Inl res \<Rightarrow> Some res
        | Inr (error, peer_row, w) \<Rightarrow>
            if error = SQLITE_DONE then do {
              (error, w) \<leftarrow> addPeer e q ar t w;
              if error = 0 then upd e q t ar w else Some (DB_FAILED, w) }
            else if error \<noteq> SQLITE_ROW then Some (DB_FAILED, w)
            else modifyPeer e q t ar peer_row w } = Some y"
    from eq show "events (snd y) = events w"
      by (cases y) (auto elim!: bind_SomeE dest!: queryPeer_events addPeer_events modifyPeer_events IH
          split: sum.split_asm prod.split_asm if_split_asm)
  qed
  then show ?thesis by simp
qed

lemma prunePeers_events: "prunePeers e q i w = Some (x, w') \<Longrightarrow> events w' = events w"
  unfolding prunePeers_def
  by (auto simp: sqlite_events elim!: bind_SomeE split: prod.splits if_splits option.splits
      dest!: sqlite_events(1,2,4) bind_events finish_events)

section \<open>Answers go to the client only\<close>

lemma push_peer_own: "push_peer e fd ar ip pid port proto s w = Some (s', w') \<Longrightarrow> own_events fd w w'"
  unfolding push_peer_def by (auto elim!: bind_SomeE split: if_splits option.splits dest!: own_sends(2))

lemma push_peers_own: "push_peers e q fd ar n st s w = Some (st', s', w') \<Longrightarrow> own_events fd w w'"
proof (induction n arbitrary: st s w)
  case (Suc n)
  then show ?case
    by (auto elim!: bind_SomeE split: prod.splits if_splits dest!: sqlite_events(2) push_peer_own)
      (metis own_from_same own_trans)
qed simp

lemma send_compact_own: "send_compact e fd s w = Some (s', w') \<Longrightarrow> own_events fd w w'"
  unfolding send_compact_def
  by (auto elim!: bind_SomeE split: if_splits dest!: own_sends(1)) (metis own_trans)

lemma answer_peers_own: "answer_peers e q fd ar iv t w = Some w' \<Longrightarrow> own_events fd w w'"
  unfolding answer_peers_def Let_def
  by (auto elim!: bind_SomeE split: prod.splits if_splits
      dest!: sqlite_events(1,2) own_sends(2) push_peers_own send_compact_own updatePeer_events)
    (smt (verit) own_from_same own_trans own_same sqlite_events(3))+

lemma track_own: "track e q fd ar iv w = Some w' \<Longrightarrow> own_events fd w w'"
  unfolding track_def Let_def
  by (auto elim!: bind_SomeE split: prod.splits if_splits
      dest!: own_headers own_sends(2) getTorrentId_events answer_peers_own)
    (metis own_from_same own_trans)+

lemma scrape_own: "scrape e q fd h w = Some w' \<Longrightarrow> own_events fd w w'"
  unfolding scrape_def
  by (auto elim!: bind_SomeE split: prod.splits if_splits option.splits
      dest!: own_headers own_sends(2) getTorrentId_events queryTorrentParam_events)
    (metis own_from_same own_trans)+

lemma give_up_own: "give_up e cl rc reason w = Some (b, w') \<Longrightarrow> own_events (cl_socket cl) w w'"
  unfolding give_up_def by (auto elim!: bind_SomeE split: if_splits dest!: own_headers)

lemma parse_announce_own: "parse_announce e q cl iv buf w = Some (b, w') \<Longrightarrow> own_events (cl_socket cl) w w'"
  unfolding parse_announce_def
  by (auto elim!: bind_SomeE split: prod.splits if_splits option.splits dest!: track_own give_up_own)

lemma parse_scrape_own: "parse_scrape e q cl buf w = Some (b, w') \<Longrightarrow> own_events (cl_socket cl) w w'"
  unfolding parse_scrape_def
  by (auto elim!: bind_SomeE split: prod.splits if_splits option.splits dest!: scrape_own give_up_own)

lemma send_times_own: "send_times n e fd s w = Some w' \<Longrightarrow> own_events fd w w'"
proof (induction n arbitrary: w)
  case (Suc n)
  then show ?case by (auto elim!: bind_SomeE dest!: own_sends(2)) (metis own_trans)
qed simp

lemma parse_request_own: "parse_request e q cl iv buf w = Some (b, w') \<Longrightarrow> own_events (cl_socket cl) w w'"
  unfolding parse_request_def
  by (auto elim!: bind_SomeE split: prod.splits if_splits
      dest!: parse_announce_own parse_scrape_own own_headers send_times_own) (metis own_trans)

lemma parseSocket_own:
  assumes "parseSocket e q cl iv w = Some (b, w')"
  shows "own_events (cl_socket cl) w w'"
proof -
  from assms obtain size buf w1 handled w2 where
    p: "recv_peek e (cl_socket cl) (uninit (os_stack e) 1024) w = Some (size, buf, w1)"
    and h: "(if size = 0 \<or> size = 1023 then Some (True, w1)
        else do { buf \<leftarrow> wri buf size NUL; parse_request e q cl iv buf w1 }) = Some (handled, w2)"
    and r: "w' = w2 \<or> w' = log_event (Flushed (cl_socket cl)) w2"
    unfolding parseSocket_def by (auto elim!: bind_SomeE split: if_splits)
  have "own_events (cl_socket cl) w w1" using p by (auto simp: recv_peek_def elim!: bind_SomeE split: option.splits)
  moreover have "own_events (cl_socket cl) w1 w2"
    using h by (auto elim!: bind_SomeE split: if_splits dest!: parse_request_own)
  moreover have "own_events (cl_socket cl) w2 w'" using r by (auto simp: own_event_def)
  ultimately show ?thesis by (meson own_trans)
qed

end
