(* ===== verification/Thread_Spec.thy ===== *)
theory Thread_Spec
  imports Thread Comm_Events Comm_Request
begin

text \<open>
  The worker threads: what a round keeps, that no connection is lost or closed twice, that every
  client is closed in the end, and what happens on the abnormal paths.
\<close>

section \<open>Sockets\<close>

definition sockets :: "client list \<Rightarrow> int multiset" where
  "sockets cs = mset (filter (\<lambda>fd. fd \<noteq> 0) (map cl_socket cs))"

text \<open>The sockets of the queue that are assigned to a worker.\<close>

definition assigned :: "int \<Rightarrow> client list \<Rightarrow> int multiset" where
  "assigned tid q = sockets (filter (\<lambda>c. cl_thread c = tid) q)"

definition held :: "worker \<Rightarrow> 'db thread \<Rightarrow> int multiset" where
  "held wk s = sockets (th_clients s) + assigned (wk_tid wk) (sh_queue (th_shared s))"

fun closed_fds :: "event list \<Rightarrow> int list" where
  "closed_fds [] = []"
| "closed_fds (Closed fd # evs) = fd # closed_fds evs"
| "closed_fds (_ # evs) = closed_fds evs"

lemma closed_fds_append [simp]: "closed_fds (xs @ ys) = closed_fds xs @ closed_fds ys"
  by (induction xs rule: closed_fds.induct) auto

definition closings :: "'db world \<Rightarrow> int multiset" where
  "closings w = mset (closed_fds (events w))"

lemma closings_log [simp]:
  "closings (log_event (Closed fd) w) = add_mset fd (closings w)"
  by (simp add: closings_def log_event_def)

lemma closings_own: "own_events fd w w' \<Longrightarrow> closings w' = closings w"
proof -
  have "list_all (own_event fd) evs \<Longrightarrow> closed_fds evs = []" for evs
    by (induction evs rule: closed_fds.induct) (auto simp: own_event_def)
  then show "own_events fd w w' \<Longrightarrow> closings w' = closings w" by (auto simp: own_events_iff closings_def)
qed

lemma sockets_simps [simp]:
  "sockets [] = {#}"
  "sockets (c # cs) = (if cl_socket c = 0 then {#} else {#cl_socket c#}) + sockets cs"
  "sockets (xs @ ys) = sockets xs + sockets ys"
  by (simp_all add: sockets_def)

lemma sockets_replicate: "sockets (replicate n fresh_slot) = {#}"
  by (induction n) (simp_all add: fresh_slot_def)

lemma sockets_split:
  "i < length cs \<Longrightarrow> sockets cs = sockets (take i cs) + sockets [cs ! i] + sockets (drop (Suc i) cs)"
  by (subst id_take_nth_drop, assumption) simp

lemma sockets_update:
  assumes "i < length cs"
  shows "sockets (cs[i := c]) + sockets [cs ! i] = sockets cs + sockets [c]"
  using sockets_split [of i "cs[i := c]"] sockets_split [OF assms] assms by (simp add: ac_simps)

lemma assigned_simps [simp]:
  "assigned tid [] = {#}"
  "assigned tid (c # q) = (if cl_thread c = tid then sockets [c] else {#}) + assigned tid q"
  "assigned tid (xs @ ys) = assigned tid xs + assigned tid ys"
  by (simp_all add: assigned_def)

lemma assigned_split:
  "i < length q \<Longrightarrow> assigned tid q = assigned tid (take i q) + assigned tid [q ! i] + assigned tid (drop (Suc i) q)"
  by (subst id_take_nth_drop, assumption) (simp del: sockets_simps)

lemma assigned_update:
  assumes "i < length q"
  shows "assigned tid (q[i := c]) + assigned tid [q ! i] = assigned tid q + assigned tid [c]"
  using assigned_split [of i "q[i := c]" tid] assigned_split [OF assms, of tid] assms
  by (simp add: ac_simps del: sockets_simps)

lemma count_active_sockets: "count_active cs = size (sockets cs)"
  by (induction cs) auto

section \<open>The invariant\<close>

definition good_fd :: "int \<Rightarrow> bool" where
  "good_fd fd \<longleftrightarrow> 0 < fd \<and> fd < FD_SETSIZE"

definition client_ok :: "client \<Rightarrow> bool" where
  "client_ok c \<longleftrightarrow> cl_socket c \<noteq> 0 \<longrightarrow> good_fd (cl_socket c) \<and> 0 \<le> cl_recv_iter c \<and> cl_recv_iter c \<le> MAX_RECV_ITER"

definition queue_ok :: "int \<Rightarrow> client list \<Rightarrow> bool" where
  "queue_ok tid q \<longleftrightarrow> list_all (\<lambda>c. cl_thread c = tid \<longrightarrow> good_fd (cl_socket c)) q"

definition thread_ok :: "worker \<Rightarrow> 'db thread \<Rightarrow> bool" where
  "thread_ok wk s \<longleftrightarrow> length (sh_queue (th_shared s)) = nat (wk_queuesize wk) \<and> wk_tid wk \<noteq> 0 \<and>
     list_all client_ok (th_clients s) \<and> queue_ok (wk_tid wk) (sh_queue (th_shared s))"

text \<open>What a worker relies on: the others leave the slots alone that are assigned to it, and assign
  to it only slots with a usable descriptor.\<close>

definition rely :: "machine \<Rightarrow> worker \<Rightarrow> bool" where
  "rely m wk \<longleftrightarrow> (\<forall>n sh. length (sh_queue (mc_others m n sh)) = length (sh_queue sh) \<and>
     (queue_ok (wk_tid wk) (sh_queue sh) \<longrightarrow> queue_ok (wk_tid wk) (sh_queue (mc_others m n sh))) \<and>
     (\<forall>i < length (sh_queue sh). cl_thread (sh_queue sh ! i) = wk_tid wk \<longrightarrow>
        sh_queue (mc_others m n sh) ! i = sh_queue sh ! i))"

lemma assigned_mono:
  assumes "length q' = length q" "\<forall>i < length q. cl_thread (q ! i) = tid \<longrightarrow> q' ! i = q ! i"
  shows "assigned tid q \<subseteq># assigned tid q'"
  using assms
proof (induction q arbitrary: q')
  case (Cons c q)
  then obtain c' q'' where q': "q' = c' # q''" by (cases q') auto
  have "assigned tid q \<subseteq># assigned tid q''"
    using Cons.prems q' by (intro Cons.IH) (auto dest: spec [of _ "Suc _"])
  moreover have "cl_thread c = tid \<Longrightarrow> c' = c" using Cons.prems(2) q' by (auto dest: spec [of _ 0])
  ultimately show ?case by (auto simp: assigned_def q' intro: subset_mset.order_trans)
qed (simp add: assigned_def)

lemma sync_ok:
  assumes "rely m wk" "thread_ok wk s"
  shows "thread_ok wk (sync m s)" "held wk s \<subseteq># held wk (sync m s)"
    "th_clients (sync m s) = th_clients s" "th_world (sync m s) = th_world s"
proof -
  show "thread_ok wk (sync m s)" using assms by (auto simp: thread_ok_def rely_def sync_def)
  have "assigned (wk_tid wk) (sh_queue (th_shared s)) \<subseteq># assigned (wk_tid wk) (sh_queue (th_shared (sync m s)))"
    using assms(1) by (intro assigned_mono) (auto simp: rely_def sync_def)
  then show "held wk s \<subseteq># held wk (sync m s)" by (simp add: held_def sync_def)
qed (simp_all add: sync_def)

section \<open>The parts of a round\<close>

lemma count_queued_total: "i + n \<le> length q \<Longrightarrow> \<exists>k. count_queued q tid i n = Some k"
proof (induction n arbitrary: i)
  case (Suc n)
  then have "i < length q" "Suc i + n \<le> length q" by simp_all
  with Suc.IH [of "Suc i"] show ?case by (auto simp: slot_def)
qed simp

text \<open>A part of a round that closes nothing: clients stay where they are, and nothing held is lost.\<close>

definition keeps :: "worker \<Rightarrow> 'db thread \<Rightarrow> 'db thread \<Rightarrow> bool" where
  "keeps wk s s' \<longleftrightarrow> thread_ok wk s' \<and> held wk s \<subseteq># held wk s' \<and> th_world s' = th_world s \<and>
     length (th_clients s) \<le> length (th_clients s') \<and>
     (\<forall>i < length (th_clients s). cl_socket (th_clients s ! i) \<noteq> 0 \<longrightarrow> th_clients s' ! i = th_clients s ! i)"

lemma keeps_trans: "keeps wk s1 s2 \<Longrightarrow> keeps wk s2 s3 \<Longrightarrow> keeps wk s1 s3"
  unfolding keeps_def by (metis (no_types, lifting) subset_mset.order_trans order_trans less_le_trans)

lemma keeps_sync: "rely m wk \<Longrightarrow> thread_ok wk s \<Longrightarrow> keeps wk s (sync m s)"
  using sync_ok [of m wk s] by (simp add: keeps_def)

lemma keeps_fields:
  "th_clients s' = th_clients s \<Longrightarrow> sh_queue (th_shared s') = sh_queue (th_shared s) \<Longrightarrow>
   th_world s' = th_world s \<Longrightarrow> thread_ok wk s \<Longrightarrow> keeps wk s s'"
  by (simp add: keeps_def thread_ok_def held_def)

fun state_of :: "'s outcome \<Rightarrow> 's" where
  "state_of (Done s) = s"
| "state_of (Aborted s) = s"

lemma expand_buffer_ok:
  assumes "rely m wk" "thread_ok wk s"
  shows "\<exists>r. expand_buffer m wk s = Some r \<and> keeps wk s (state_of r) \<and>
    ((\<forall>n. mc_realloc m n) \<longrightarrow> (\<exists>s'. r = Done s'))"
proof -
  define s1 where "s1 = (sync m s)\<lparr>th_active := int (count_active (th_clients s))\<rparr>"
  have k1: "keeps wk s s1"
    using keeps_sync [OF assms] keeps_fields [of s1 "sync m s" wk] sync_ok(1) [OF assms] keeps_trans
    by (fastforce simp: s1_def)
  then have ok1: "thread_ok wk s1" by (simp add: keeps_def)
  then obtain k where k: "count_queued (sh_queue (th_shared s1)) (wk_tid wk) 0 (nat (wk_queuesize wk)) = Some k"
    using count_queued_total [of 0 "nat (wk_queuesize wk)" "sh_queue (th_shared s1)"] by (auto simp: thread_ok_def)
  define i where "i = int k - (int (length (th_clients s1)) - th_active s1)"
  have "thread_ok wk (tick (s1\<lparr>th_clients := th_clients s1 @ replicate (nat i) fresh_slot\<rparr>))"
    using ok1 by (auto simp: thread_ok_def tick_def list_all_iff client_ok_def fresh_slot_def)
  then have "keeps wk s1 (tick (s1\<lparr>th_clients := th_clients s1 @ replicate (nat i) fresh_slot\<rparr>))"
    by (simp add: keeps_def held_def tick_def sockets_replicate nth_append)
  moreover have "keeps wk s1 (tick s1)" "keeps wk s1 s1"
    using ok1 by (auto intro: keeps_fields simp: tick_def)
  moreover have "expand_buffer m wk s = Some (if i > 0
      then if mc_realloc m (th_clock s1) then Done (tick (s1\<lparr>th_clients := th_clients s1 @ replicate (nat i) fresh_slot\<rparr>))
        else Aborted (tick s1)
      else Done s1)"
    using k by (simp add: expand_buffer_def Let_def s1_def [symmetric] i_def)
  ultimately show ?thesis using keeps_trans [OF k1] by (cases "i > 0"; cases "mc_realloc m (th_clock s1)") auto
qed

lemma find_free_bounds:
  "c + n = length cs \<Longrightarrow> c \<le> find_free cs c n \<and> find_free cs c n \<le> length cs \<and>
   (find_free cs c n < length cs \<longrightarrow> cl_socket (cs ! find_free cs c n) = 0)"
proof (induction n arbitrary: c)
  case (Suc n)
  from Suc.IH [of "Suc c"] Suc.prems show ?case by simp
qed simp

lemma copy_slot_ok:
  assumes "rely m wk" "thread_ok wk s" "i < nat (wk_queuesize wk)" "c \<le> length (th_clients s)"
  shows "\<exists>r. copy_slot m wk i c s = Some r \<and>
    (case r of
       Aborted (c', s') \<Rightarrow> keeps wk s s' \<and> (\<exists>n. \<not> mc_realloc m n)
     | Done (c', s') \<Rightarrow> keeps wk s s' \<and> c' \<le> length (th_clients s') \<and>
         length (sh_queue (th_shared s')) = length (sh_queue (th_shared s)) \<and>
         cl_thread (sh_queue (th_shared s') ! i) \<noteq> wk_tid wk \<and>
         ((\<forall>n sh. mc_others m n sh = sh) \<longrightarrow>
            (\<forall>k. k \<noteq> i \<longrightarrow> sh_queue (th_shared s') ! k = sh_queue (th_shared s) ! k)))"
proof -
  define s1 where "s1 = sync m s"
  note k1 = keeps_sync [OF assms(1,2), folded s1_def]
  then have ok: "thread_ok wk s1" by (simp add: keeps_def)
  have cs: "th_clients s1 = th_clients s" by (simp add: s1_def sync_def)
  define q where "q = sh_queue (th_shared s1) ! i"
  have len: "i < length (sh_queue (th_shared s1))" "length (sh_queue (th_shared s1)) = length (sh_queue (th_shared s))"
    using ok assms(2,3) by (simp_all add: thread_ok_def)
  have others: "sh_queue (th_shared s1) = sh_queue (th_shared s)" if "\<forall>n sh. mc_others m n sh = sh"
    using that by (simp add: s1_def sync_def)
  have slot: "slot (sh_queue (th_shared s1)) i = Some q" using len by (simp add: slot_def q_def)
  show ?thesis
  proof (cases "cl_thread q = wk_tid wk")
    case False
    with slot assms(4) k1 cs len others show ?thesis
      by (simp add: copy_slot_def Let_def s1_def [symmetric] q_def)
  next
    case True
    define c' where "c' = find_free (th_clients s) c (length (th_clients s) - c)"
    have c': "c' \<le> length (th_clients s)" "c' < length (th_clients s) \<Longrightarrow> cl_socket (th_clients s ! c') = 0"
      using find_free_bounds [of c "length (th_clients s) - c" "th_clients s"] assms(4) by (auto simp: c'_def)
    define cs' where "cs' = (if c' = length (th_clients s) then th_clients s @ [take_slot q] else (th_clients s)[c' := take_slot q])"
    define s2 where "s2 = (tick s1)\<lparr>th_clients := cs', th_active := th_active s1 + 1,
           th_shared := (th_shared s1)\<lparr>sh_queue := (sh_queue (th_shared s1))[i := release_slot q]\<rparr>\<rparr>"
    have q: "good_fd (cl_socket q)"
      using ok len(1) True by (auto simp: thread_ok_def queue_ok_def list_all_length q_def)
    have "client_ok (take_slot q)" using q by (simp add: client_ok_def take_slot_def)
    then have "list_all client_ok cs'"
      using ok cs by (auto simp: thread_ok_def list_all_iff cs'_def dest!: set_update_subset_insert [THEN subsetD])
    moreover have "queue_ok (wk_tid wk) ((sh_queue (th_shared s1))[i := release_slot q])"
      using ok by (auto simp: thread_ok_def queue_ok_def list_all_iff release_slot_def dest!: set_update_subset_insert [THEN subsetD])
    ultimately have ok2: "thread_ok wk s2" using ok by (simp add: thread_ok_def s2_def tick_def)
    have "sockets cs' = sockets (th_clients s) + {#cl_socket q#}"
      using c' sockets_update [of c' "th_clients s" "take_slot q"] q by (auto simp: cs'_def take_slot_def good_fd_def)
    moreover have "assigned (wk_tid wk) ((sh_queue (th_shared s1))[i := release_slot q]) + {#cl_socket q#} =
        assigned (wk_tid wk) (sh_queue (th_shared s1))"
      using assigned_update [OF len(1), of "wk_tid wk" "release_slot q"] True q ok
      by (simp add: q_def [symmetric] release_slot_def good_fd_def thread_ok_def)
    ultimately have "held wk s2 = held wk s1" by (simp add: held_def s2_def tick_def cs)
    moreover have "length (th_clients s1) \<le> length cs'" by (simp add: cs cs'_def)
    moreover have "cs' ! k = th_clients s1 ! k" if "k < length (th_clients s1)" "cl_socket (th_clients s1 ! k) \<noteq> 0" for k
      using that c' by (auto simp: cs cs'_def nth_append nth_list_update)
    ultimately have "keeps wk s1 s2" using ok2 by (simp add: keeps_def s2_def tick_def)
    then have k2: "keeps wk s s2" by (rule keeps_trans [OF k1])
    have k3: "keeps wk s (tick s1)"
      using keeps_trans [OF k1] keeps_fields [of "tick s1" s1 wk] ok by (simp add: tick_def)
    have "c' \<le> length cs'" using c' by (simp add: cs'_def)
    then have fin: "c' \<le> length (th_clients s2)" "length (sh_queue (th_shared s2)) = length (sh_queue (th_shared s))"
      "cl_thread (sh_queue (th_shared s2) ! i) \<noteq> wk_tid wk"
      using len ok by (simp_all add: s2_def release_slot_def thread_ok_def)
    have "copy_slot m wk i c s = Some (if c' = length (th_clients s) \<and> \<not> mc_realloc m (th_clock s1) then Aborted (c', tick s1) else Done (c', s2))"
      using slot True by (simp add: copy_slot_def Let_def s1_def [symmetric] cs c'_def [symmetric] cs'_def s2_def)
    then show ?thesis using k2 k3 fin others by (auto simp: s2_def)
  qed
qed

lemma copy_slots_ok:
  assumes "rely m wk" "thread_ok wk s" "i + n = nat (wk_queuesize wk)" "c \<le> length (th_clients s)"
  shows "\<exists>r. copy_slots m wk i c n s = Some r \<and> keeps wk s (state_of r) \<and>
    ((\<forall>n. mc_realloc m n) \<longrightarrow> (\<exists>s'. r = Done s')) \<and>
    ((\<forall>n sh. mc_others m n sh = sh) \<longrightarrow> (\<forall>s'. r = Done s' \<longrightarrow>
       (\<forall>k. cl_thread (sh_queue (th_shared s') ! k) = wk_tid wk \<longrightarrow>
          cl_thread (sh_queue (th_shared s) ! k) = wk_tid wk \<and> (k < i \<or> i + n \<le> k))))"
  using assms(2-4)
proof (induction n arbitrary: i c s)
  case 0
  then show ?case by (auto simp: keeps_fields)
next
  case (Suc n)
  from Suc.prems have "i < nat (wk_queuesize wk)" by simp
  from copy_slot_ok [OF assms(1) Suc.prems(1) this Suc.prems(3)] obtain r where
    r: "copy_slot m wk i c s = Some r" and
    rr: "case r of
       Aborted (c', s') \<Rightarrow> keeps wk s s' \<and> (\<exists>n. \<not> mc_realloc m n)
     | Done (c', s') \<Rightarrow> keeps wk s s' \<and> c' \<le> length (th_clients s') \<and>
         length (sh_queue (th_shared s')) = length (sh_queue (th_shared s)) \<and>
         cl_thread (sh_queue (th_shared s') ! i) \<noteq> wk_tid wk \<and>
         ((\<forall>n sh. mc_others m n sh = sh) \<longrightarrow>
            (\<forall>k. k \<noteq> i \<longrightarrow> sh_queue (th_shared s') ! k = sh_queue (th_shared s) ! k))" by blast
  show ?case
  proof (cases r)
    case (Aborted p)
    with r rr show ?thesis by (cases p) auto
  next
    case (Done p)
    obtain c' s' where p: "p = (c', s')" by fastforce
    with Done rr have k: "keeps wk s s'" "c' \<le> length (th_clients s')" by auto
    then have "thread_ok wk s'" by (simp add: keeps_def)
    from Suc.IH [OF this _ k(2), of "Suc i"] Suc.prems(2) obtain r' where
      r': "copy_slots m wk (Suc i) c' n s' = Some r'" "keeps wk s' (state_of r')"
      "(\<forall>n. mc_realloc m n) \<longrightarrow> (\<exists>s'. r' = Done s')"
      "(\<forall>n sh. mc_others m n sh = sh) \<longrightarrow> (\<forall>s''. r' = Done s'' \<longrightarrow>
         (\<forall>k. cl_thread (sh_queue (th_shared s'') ! k) = wk_tid wk \<longrightarrow>
            cl_thread (sh_queue (th_shared s') ! k) = wk_tid wk \<and> (k < Suc i \<or> Suc i + n \<le> k)))" by auto
    have quiet: "cl_thread (sh_queue (th_shared s) ! k) = wk_tid wk \<and> k \<noteq> i"
      if "\<forall>n sh. mc_others m n sh = sh" "cl_thread (sh_queue (th_shared s') ! k) = wk_tid wk" for k
      using rr Done p that by (cases "k = i") auto
    from r Done p r'(1) have "copy_slots m wk i c (Suc n) s = Some r'" by simp
    moreover have "keeps wk s (state_of r')" using k(1) r'(2) by (rule keeps_trans)
    moreover have "k < i \<or> i + Suc n \<le> k" if "k \<noteq> i" "k < Suc i \<or> Suc i + n \<le> k" for k using that by linarith
    ultimately show ?thesis using r'(3,4) quiet by (intro exI [of _ r']) blast
  qed
qed

lemma balance_ok:
  assumes "rely m wk" "thread_ok wk s"
  shows "keeps wk s (balance m wk s)"
proof -
  have "keeps wk (sync m s) (balance m wk s)"
    using sync_ok(1) [OF assms] by (intro keeps_fields) (simp_all add: balance_def Let_def)
  with keeps_sync [OF assms] show ?thesis by (rule keeps_trans)
qed

text \<open>The clients as the loop before \<open>select\<close> leaves them.\<close>

definition older :: "client \<Rightarrow> client" where
  "older c = (if cl_socket c \<noteq> 0 then c\<lparr>cl_recv_iter := cl_recv_iter c + 1\<rparr> else c)"

lemma select_set_ok:
  assumes "list_all client_ok cs"
  shows "\<exists>fdmax'. select_set fdmax cs = Some (fdmax', map older cs) \<and> fdmax \<le> fdmax' \<and>
    (0 \<le> fdmax \<longrightarrow> fdmax' = 0 \<longrightarrow> sockets cs = {#})"
  using assms
proof (induction cs arbitrary: fdmax)
  case (Cons c cs)
  show ?case
  proof (cases "cl_socket c = 0")
    case True
    from Cons.IH [of fdmax] Cons.prems obtain f where
      "select_set fdmax cs = Some (f, map older cs)" "fdmax \<le> f" "0 \<le> fdmax \<longrightarrow> f = 0 \<longrightarrow> sockets cs = {#}" by auto
    with True show ?thesis by (simp add: older_def)
  next
    case False
    from Cons.IH [of "max fdmax (cl_socket c)"] Cons.prems obtain f where
      f: "select_set (max fdmax (cl_socket c)) cs = Some (f, map older cs)" "max fdmax (cl_socket c) \<le> f" by auto
    with False Cons.prems show ?thesis
      by (auto simp: older_def client_ok_def good_fd_def int_add_def int_range_def)
  qed
qed simp

text \<open>What \<open>recv\<close> delivers: never an error, and no more than was asked for.\<close>

definition recv_ok :: "os \<Rightarrow> bool" where
  "recv_ok e \<longleftrightarrow> (\<forall>fd n. \<exists>bs. os_recv e fd n = Some bs \<and> length bs \<le> 1023)"

text \<open>What serving makes of a client: it is kept, or closed.\<close>

definition served :: "client \<Rightarrow> 'db world \<Rightarrow> client \<Rightarrow> 'db world \<Rightarrow> bool" where
  "served c w c' w' \<longleftrightarrow>
     c' = c \<and> (cl_socket c \<noteq> 0 \<longrightarrow> cl_recv_iter c \<le> MAX_RECV_ITER) \<and> closings w' = closings w \<or>
     c' = c\<lparr>cl_socket := 0\<rparr> \<and> cl_socket c \<noteq> 0 \<and> closings w' = add_mset (cl_socket c) (closings w)"

text \<open>One client across the rounds: closed, or one round older.\<close>

definition aged :: "client \<Rightarrow> client \<Rightarrow> 'db world \<Rightarrow> bool" where
  "aged c c' w' \<longleftrightarrow>
     c' = c\<lparr>cl_recv_iter := cl_recv_iter c + 1\<rparr> \<and> cl_recv_iter c + 1 \<le> MAX_RECV_ITER \<or>
     cl_socket c \<in># closings w'"

context sqlite_api
begin

lemma serve_client_ok:
  assumes "pton_lengths e" "peer_texts e" "recv_ok e" "int_range iv"
  shows "\<exists>c' w'. serve_client e q iv ready c w = Some (c', w') \<and> served c w c' w'"
proof (cases "cl_socket c = 0")
  case True
  then show ?thesis by (simp add: serve_client_def served_def)
next
  case False
  obtain h1 w1 where h1: "(if ready (cl_socket c) then parseSocket e q c iv w else Some (False, w)) = Some (h1, w1)"
    "closings w1 = closings w"
  proof (cases "ready (cl_socket c)")
    case True
    obtain bs where bs: "os_recv e (cl_socket c) (polls w) = Some bs" "length bs \<le> 1023"
      using assms(3) by (auto simp: recv_ok_def)
    from parseSocket_spec [OF assms(1,2,4) bs] obtain b w1 where "parseSocket e q c iv w = Some (b, w1)" by blast
    with that True closings_own [OF parseSocket_own [OF this]] show ?thesis by simp
  qed (use that in simp)
  obtain h2 w2 where h2: "(if \<not> h1 \<and> cl_recv_iter c > MAX_RECV_ITER then do {
             (_, w) \<leftarrow> sendHttpHeaders e (cl_socket c) (lit ''408 Timed Out'')
               (lit (''X-Failure-Reason: Youre doing it wrong'' @ crlf)) w1;
             Some (True, w) }
           else Some (h1, w1)) = Some (h2, w2)" "closings w2 = closings w" "cl_recv_iter c > MAX_RECV_ITER \<longrightarrow> h2"
  proof (cases "\<not> h1 \<and> cl_recv_iter c > MAX_RECV_ITER")
    case True
    obtain r w2 where s: "sendHttpHeaders e (cl_socket c) (lit ''408 Timed Out'')
               (lit (''X-Failure-Reason: Youre doing it wrong'' @ crlf)) w1 = Some (r, w2)"
      by (simp add: sendHttpHeaders_eq)
    with that True closings_own [OF own_headers [OF s]] h1 show ?thesis by simp
  qed (use that h1 in auto)
  have "serve_client e q iv ready c w =
      Some (if h2 then (c\<lparr>cl_socket := 0\<rparr>, log_event (Closed (cl_socket c)) w2) else (c, w2))"
    unfolding serve_client_def h1(1) Option.bind.bind_lunit prod.case h2(1) using False by simp
  with h2 False show ?thesis by (auto simp: served_def)
qed

lemma serve_clients_ok:
  assumes "pton_lengths e" "peer_texts e" "recv_ok e" "int_range iv"
  shows "\<exists>cs' w'. serve_clients e q iv ready cs w = Some (cs', w') \<and> length cs' = length cs \<and>
    sockets cs' + closings w' = sockets cs + closings w \<and> closings w \<subseteq># closings w' \<and>
    (\<forall>i < length cs. cs' ! i = cs ! i \<and> (cl_socket (cs ! i) \<noteq> 0 \<longrightarrow> cl_recv_iter (cs ! i) \<le> MAX_RECV_ITER) \<or>
       cs' ! i = (cs ! i)\<lparr>cl_socket := 0\<rparr> \<and> cl_socket (cs ! i) \<in># closings w')"
proof (induction cs arbitrary: w)
  case (Cons c cs)
  from serve_client_ok [OF assms] obtain c' w1 where c: "serve_client e q iv ready c w = Some (c', w1)" "served c w c' w1" by blast
  from Cons.IH [of w1] obtain cs' w' where cs: "serve_clients e q iv ready cs w1 = Some (cs', w')" "length cs' = length cs"
    "sockets cs' + closings w' = sockets cs + closings w1" and sub: "closings w1 \<subseteq># closings w'" and
    all: "\<forall>i < length cs. cs' ! i = cs ! i \<and> (cl_socket (cs ! i) \<noteq> 0 \<longrightarrow> cl_recv_iter (cs ! i) \<le> MAX_RECV_ITER) \<or>
       cs' ! i = (cs ! i)\<lparr>cl_socket := 0\<rparr> \<and> cl_socket (cs ! i) \<in># closings w'" by blast
  have "serve_clients e q iv ready (c # cs) w = Some (c' # cs', w')" using c(1) cs(1) by simp
  moreover have "sockets (c' # cs') + closings w' = sockets (c # cs) + closings w"
    using c(2) cs(3) by (auto simp: served_def ac_simps)
  moreover have "closings w \<subseteq># closings w'" using sub c(2) subset_mset.order_trans [of "closings w" "closings w1" "closings w'"]
    by (auto simp: served_def)
  moreover have "c' = c \<and> (cl_socket c \<noteq> 0 \<longrightarrow> cl_recv_iter c \<le> MAX_RECV_ITER) \<or>
       c' = c\<lparr>cl_socket := 0\<rparr> \<and> cl_socket c \<in># closings w'"
    using c(2) sub by (auto simp: served_def dest: mset_subset_eqD)
  ultimately show ?case using cs(2) all by (auto simp: nth_Cons split: nat.split)
qed simp

lemma serve_ok:
  assumes "pton_lengths e" "peer_texts e" "recv_ok e" "int_range (wk_announceInterval wk)" "thread_ok wk s"
  shows "\<exists>s'. serve e q m wk s = Some s' \<and> thread_ok wk s' \<and> th_shared s' = th_shared s \<and>
    length (th_clients s') = length (th_clients s) \<and>
    sockets (th_clients s') + closings (th_world s') = sockets (th_clients s) + closings (th_world s) \<and>
    closings (th_world s) \<subseteq># closings (th_world s') \<and>
    (\<forall>i < length (th_clients s). cl_socket (th_clients s ! i) \<noteq> 0 \<longrightarrow>
       aged (th_clients s ! i) (th_clients s' ! i) (th_world s'))"
proof -
  let ?cs = "th_clients s"
  have ok: "list_all client_ok ?cs" using assms(5) by (simp add: thread_ok_def)
  obtain fdmax where f: "select_set 0 ?cs = Some (fdmax, map older ?cs)" "0 \<le> fdmax" "fdmax = 0 \<longrightarrow> sockets ?cs = {#}"
    using select_set_ok [OF ok, of 0] by auto
  have so: "sockets (map older cs) = sockets cs" for cs by (induction cs) (auto simp: older_def)
  show ?thesis
  proof (cases "fdmax = 0")
    case True
    then have z: "\<forall>c\<in>set ?cs. cl_socket c = 0" using f(3) by (auto simp: sockets_def filter_empty_conv)
    then have "map older ?cs = ?cs" by (simp add: map_idI older_def)
    with True f(1) have "serve e q m wk s = Some s" by (simp add: serve_def)
    with z assms(5) show ?thesis by auto
  next
    case False
    from serve_clients_ok [OF assms(1-4), of "mc_ready m (th_clock s)" "map older ?cs" "th_world s"] obtain cs' w' where
      sc: "serve_clients e q (wk_announceInterval wk) (mc_ready m (th_clock s)) (map older ?cs) (th_world s) = Some (cs', w')"
      "length cs' = length ?cs" "sockets cs' + closings w' = sockets ?cs + closings (th_world s)"
      "closings (th_world s) \<subseteq># closings w'" and
      all: "\<forall>i < length ?cs. cs' ! i = map older ?cs ! i \<and>
          (cl_socket (map older ?cs ! i) \<noteq> 0 \<longrightarrow> cl_recv_iter (map older ?cs ! i) \<le> MAX_RECV_ITER) \<or>
        cs' ! i = (map older ?cs ! i)\<lparr>cl_socket := 0\<rparr> \<and> cl_socket (map older ?cs ! i) \<in># closings w'"
      by (auto simp: so)
    define s' where "s' = tick (s\<lparr>th_clients := cs',
      th_active := th_active s - (int (count_active (map older ?cs)) - int (count_active cs')), th_world := w'\<rparr>)"
    have run: "serve e q m wk s = Some s'" using False f(1,2) sc(1) by (simp add: serve_def s'_def)
    have "client_ok (cs' ! i)" if "i < length ?cs" for i
      using all that ok by (fastforce simp: client_ok_def older_def list_all_length split: if_splits)
    then have "thread_ok wk s'" using assms(5) sc(2) by (simp add: thread_ok_def s'_def tick_def list_all_length)
    moreover have "aged (?cs ! i) (cs' ! i) w'" if "i < length ?cs" "cl_socket (?cs ! i) \<noteq> 0" for i
      using all that by (fastforce simp: aged_def older_def)
    ultimately show ?thesis using run sc by (simp add: s'_def tick_def)
  qed
qed

text \<open>A whole round: what was held is still held or was closed, plus what the others assigned; the clients
  stay in their places, one round older.\<close>

lemma worker_round_ok:
  assumes "pton_lengths e" "peer_texts e" "recv_ok e" "int_range (wk_announceInterval wk)" "rely m wk" "thread_ok wk s"
  shows "\<exists>r. worker_round e q m wk s = Some r \<and>
    ((\<forall>n. mc_realloc m n) \<longrightarrow> (\<exists>s'. r = Done s')) \<and>
    thread_ok wk (state_of r) \<and>
    held wk s + closings (th_world s) \<subseteq># held wk (state_of r) + closings (th_world (state_of r)) \<and>
    closings (th_world s) \<subseteq># closings (th_world (state_of r)) \<and>
    (\<forall>s'. r = Done s' \<longrightarrow>
      length (th_clients s) \<le> length (th_clients s') \<and>
      (\<forall>i < length (th_clients s). cl_socket (th_clients s ! i) \<noteq> 0 \<longrightarrow>
         aged (th_clients s ! i) (th_clients s' ! i) (th_world s')) \<and>
      ((\<forall>n sh. mc_others m n sh = sh) \<longrightarrow> assigned (wk_tid wk) (sh_queue (th_shared s')) = {#}))"
proof -
  from expand_buffer_ok [OF assms(5,6)] obtain r1 where r1: "expand_buffer m wk s = Some r1" "keeps wk s (state_of r1)"
    "(\<forall>n. mc_realloc m n) \<longrightarrow> (\<exists>s'. r1 = Done s')" by blast
  have kept: "thread_ok wk s' \<and> held wk s + closings (th_world s) \<subseteq># held wk s' + closings (th_world s') \<and>
      closings (th_world s) \<subseteq># closings (th_world s')" if "keeps wk s s'" for s'
    using that by (simp add: keeps_def)
  show ?thesis
  proof (cases r1)
    case (Aborted s1)
    with r1 kept show ?thesis by (intro exI [of _ r1]) (simp add: worker_round_def)
  next
    case (Done s1)
    with r1(2) have ok1: "thread_ok wk s1" by (simp add: keeps_def)
    have "0 + nat (wk_queuesize wk) = nat (wk_queuesize wk)" "0 \<le> length (th_clients s1)" by simp_all
    from copy_slots_ok [OF assms(5) ok1 this] obtain r2 where
      r2: "copy_slots m wk 0 0 (nat (wk_queuesize wk)) s1 = Some r2" "keeps wk s1 (state_of r2)"
      "(\<forall>n. mc_realloc m n) \<longrightarrow> (\<exists>s'. r2 = Done s')"
      "(\<forall>n sh. mc_others m n sh = sh) \<longrightarrow> (\<forall>s'. r2 = Done s' \<longrightarrow>
       (\<forall>k. cl_thread (sh_queue (th_shared s') ! k) = wk_tid wk \<longrightarrow> nat (wk_queuesize wk) \<le> k))" by fastforce
    have k2: "keeps wk s (state_of r2)" using r1(2) r2(2) Done keeps_trans by fastforce
    show ?thesis
    proof (cases r2)
      case (Aborted s2)
      with r1(1) Done r2(1) k2 kept [of s2] r2(3) show ?thesis by (intro exI [of _ r2]) (simp add: worker_round_def)
    next
      case D2: (Done s2)
      define s3 where "s3 = balance m wk s2"
      have ok2: "thread_ok wk s2" using k2 D2 by (simp add: keeps_def)
      have k3: "keeps wk s s3" using keeps_trans [OF k2] balance_ok [OF assms(5) ok2] D2 by (simp add: s3_def)
      then have ok3: "thread_ok wk s3" by (simp add: keeps_def)
      from serve_ok [OF assms(1-4) ok3, of m] obtain s' where s': "serve e q m wk s3 = Some s'" "thread_ok wk s'"
        "th_shared s' = th_shared s3" "length (th_clients s') = length (th_clients s3)"
        "sockets (th_clients s') + closings (th_world s') = sockets (th_clients s3) + closings (th_world s3)"
        "closings (th_world s3) \<subseteq># closings (th_world s')" and
        age: "\<forall>i < length (th_clients s3). cl_socket (th_clients s3 ! i) \<noteq> 0 \<longrightarrow>
           aged (th_clients s3 ! i) (th_clients s' ! i) (th_world s')" by blast
      have run: "worker_round e q m wk s = Some (Done s')"
        using r1(1) Done r2(1) D2 s'(1) by (simp add: worker_round_def s3_def)
      have "held wk s' + closings (th_world s') = held wk s3 + closings (th_world s3)"
        using s'(3,5) by (simp add: held_def ac_simps)
      moreover have "assigned (wk_tid wk) (sh_queue (th_shared s')) = {#}" if "\<forall>n sh. mc_others m n sh = sh"
      proof -
        have "sh_queue (th_shared s3) = sh_queue (th_shared s2)"
          using that by (simp add: s3_def balance_def sync_def Let_def)
        moreover have "\<forall>k < length (sh_queue (th_shared s2)). cl_thread (sh_queue (th_shared s2) ! k) \<noteq> wk_tid wk"
          using r2(4) that D2 ok2 by (auto simp: thread_ok_def dest: leD)
        then have "filter (\<lambda>c. cl_thread c = wk_tid wk) (sh_queue (th_shared s2)) = []"
          by (simp add: filter_empty_conv all_set_conv_all_nth)
        ultimately show ?thesis by (simp add: s'(3) assigned_def)
      qed
      moreover have "aged (th_clients s ! i) (th_clients s' ! i) (th_world s')"
        if "i < length (th_clients s)" "cl_socket (th_clients s ! i) \<noteq> 0" for i
        using age [rule_format, of i] k3 that by (simp add: keeps_def)
      ultimately show ?thesis
        using run s'(2,4,6) kept [OF k3] k3 unfolding keeps_def
        by (intro exI [of _ "Done s'"]) (auto simp: keeps_def intro: subset_mset.order_trans)
    qed
  qed
qed

end

section \<open>Many rounds\<close>

fun rounds ::
    "nat \<Rightarrow> os \<Rightarrow> ('db, 'stmt) sqlite \<Rightarrow> machine \<Rightarrow> worker \<Rightarrow> 'db thread \<Rightarrow> 'db thread outcome option" where
  "rounds 0 e q m wk s = Some (Done s)"
| "rounds (Suc n) e q m wk s = do {
     r \<leftarrow> worker_round e q m wk (tick s);
     (case r of Aborted s \<Rightarrow> Some (Aborted s) | Done s \<Rightarrow> rounds n e q m wk s) }"

lemma tick_same [simp]:
  "th_clients (tick s) = th_clients s" "th_world (tick s) = th_world s" "th_shared (tick s) = th_shared s"
  "thread_ok wk (tick s) = thread_ok wk s" "held wk (tick s) = held wk s"
  by (simp_all add: tick_def thread_ok_def held_def)

lemma rounds_age:
  assumes "sqlite_api q opened tabs view" "pton_lengths e" "peer_texts e" "recv_ok e"
    and "int_range (wk_announceInterval wk)" "rely m wk" "thread_ok wk s" "\<forall>n. mc_realloc m n"
  shows "\<exists>s'. rounds n e q m wk s = Some (Done s') \<and> thread_ok wk s' \<and> closings (th_world s) \<subseteq># closings (th_world s') \<and>
    length (th_clients s) \<le> length (th_clients s') \<and>
    (\<forall>i < length (th_clients s). cl_socket (th_clients s ! i) \<noteq> 0 \<longrightarrow>
       cl_socket (th_clients s ! i) \<in># closings (th_world s') \<or>
       th_clients s' ! i = (th_clients s ! i)\<lparr>cl_recv_iter := cl_recv_iter (th_clients s ! i) + int n\<rparr> \<and>
         cl_recv_iter (th_clients s ! i) + int n \<le> MAX_RECV_ITER)"
  using assms(7)
proof (induction n arbitrary: s)
  case 0
  then show ?case by (auto simp: thread_ok_def client_ok_def list_all_length)
next
  case (Suc n)
  have "thread_ok wk (tick s)" using Suc.prems by simp
  from sqlite_api.worker_round_ok [OF assms(1-6) this] assms(8) obtain s1 where
    s1: "worker_round e q m wk (tick s) = Some (Done s1)" "thread_ok wk (state_of (Done s1))"
    "closings (th_world (tick s)) \<subseteq># closings (th_world (state_of (Done s1)))"
    "length (th_clients (tick s)) \<le> length (th_clients s1)" and
    age': "\<forall>i < length (th_clients (tick s)). cl_socket (th_clients (tick s) ! i) \<noteq> 0 \<longrightarrow>
       aged (th_clients (tick s) ! i) (th_clients s1 ! i) (th_world s1)" by metis
  note s1 = s1 [unfolded tick_same state_of.simps]
  note age = age' [unfolded tick_same, rule_format]
  from Suc.IH [OF s1(2)] obtain s' where s': "rounds n e q m wk s1 = Some (Done s')" "thread_ok wk s'"
    "closings (th_world s1) \<subseteq># closings (th_world s')" "length (th_clients s1) \<le> length (th_clients s')" and
    rest: "\<And>i. i < length (th_clients s1) \<Longrightarrow> cl_socket (th_clients s1 ! i) \<noteq> 0 \<Longrightarrow>
       cl_socket (th_clients s1 ! i) \<in># closings (th_world s') \<or>
       th_clients s' ! i = (th_clients s1 ! i)\<lparr>cl_recv_iter := cl_recv_iter (th_clients s1 ! i) + int n\<rparr> \<and>
         cl_recv_iter (th_clients s1 ! i) + int n \<le> MAX_RECV_ITER" by blast
  have "cl_socket (th_clients s ! i) \<in># closings (th_world s') \<or>
       th_clients s' ! i = (th_clients s ! i)\<lparr>cl_recv_iter := cl_recv_iter (th_clients s ! i) + int (Suc n)\<rparr> \<and>
         cl_recv_iter (th_clients s ! i) + int (Suc n) \<le> MAX_RECV_ITER"
    if i: "i < length (th_clients s)" "cl_socket (th_clients s ! i) \<noteq> 0" for i
    using age [OF i] rest [of i] i s1(4) mset_subset_eqD [OF s'(3)]
    by (auto simp: aged_def ac_simps)
  moreover have "rounds (Suc n) e q m wk s = Some (Done s')" using s1(1) s'(1) by simp
  moreover have "closings (th_world s) \<subseteq># closings (th_world s')" using s1(3) s'(3) by (rule subset_mset.order_trans)
  ultimately show ?case using s'(2,4) s1(4) by (intro exI [of _ s']) auto
qed

section \<open>Shutting down\<close>

lemma closings_close_clients: "closings (close_clients cs w) = sockets cs + closings w"
  by (induction cs arbitrary: w) (auto simp: ac_simps)

definition quiet :: "machine \<Rightarrow> bool" where
  "quiet m \<longleftrightarrow> (\<forall>n sh. mc_others m n sh = sh)"

lemma quiet_rely: "quiet m \<Longrightarrow> rely m wk"
  by (simp add: quiet_def rely_def)

lemma sync_quiet: "quiet m \<Longrightarrow> sync m s = tick s"
  by (simp add: quiet_def sync_def tick_def)

lemma give_back_kill:
  assumes "quiet m" "i + n = length (sh_queue (th_shared s))" "killserver (th_shared s)" "wk_tid wk \<noteq> 0"
    and "queue_ok (wk_tid wk) (sh_queue (th_shared s))"
  shows "\<exists>s'. give_back m wk i n s = Some s' \<and> th_clients s' = th_clients s \<and>
    assigned (wk_tid wk) (sh_queue (th_shared s')) + closings (th_world s') =
      assigned (wk_tid wk) (sh_queue (th_shared s)) + closings (th_world s) \<and>
    (\<forall>k. cl_thread (sh_queue (th_shared s') ! k) = wk_tid wk \<longrightarrow>
       cl_thread (sh_queue (th_shared s) ! k) = wk_tid wk \<and> (k < i \<or> i + n \<le> k)) \<and>
    length (sh_queue (th_shared s')) = length (sh_queue (th_shared s))"
  using assms(2-)
proof (induction n arbitrary: i s)
  case (Suc n)
  let ?q = "sh_queue (th_shared s) ! i"
  have i: "i < length (sh_queue (th_shared s))" "slot (sh_queue (th_shared s)) i = Some ?q"
    using Suc.prems by (simp_all add: slot_def)
  show ?case
  proof (cases "cl_thread ?q = wk_tid wk")
    case False
    have "Suc i + n = length (sh_queue (th_shared (tick s)))" using Suc.prems by simp
    from Suc.IH [OF this] Suc.prems obtain s' where "give_back m wk (Suc i) n (tick s) = Some s'" "th_clients s' = th_clients s"
      "assigned (wk_tid wk) (sh_queue (th_shared s')) + closings (th_world s') =
        assigned (wk_tid wk) (sh_queue (th_shared s)) + closings (th_world s)"
      "\<forall>k. cl_thread (sh_queue (th_shared s') ! k) = wk_tid wk \<longrightarrow>
         cl_thread (sh_queue (th_shared s) ! k) = wk_tid wk \<and> (k < Suc i \<or> Suc i + n \<le> k)"
      "length (sh_queue (th_shared s')) = length (sh_queue (th_shared s))" by auto
    with False i show ?thesis
      by (intro exI [of _ s']) (auto simp: sync_quiet [OF assms(1)] Let_def less_Suc_eq)
  next
    case True
    have good: "cl_socket ?q \<noteq> 0"
      using Suc.prems(4) i(1) True by (auto simp: queue_ok_def list_all_length good_fd_def)
    define s1 where "s1 = (tick s)\<lparr>th_world := log_event (Closed (cl_socket ?q)) (th_world s),
       th_shared := (th_shared s)\<lparr>sh_queue := (sh_queue (th_shared s))[i := release_slot ?q]\<rparr>\<rparr>"
    have "assigned (wk_tid wk) ((sh_queue (th_shared s))[i := release_slot ?q]) + {#cl_socket ?q#} =
        assigned (wk_tid wk) (sh_queue (th_shared s))"
      using assigned_update [OF i(1), of "wk_tid wk" "release_slot ?q"] True good Suc.prems(3)
      by (simp add: release_slot_def)
    then have cons: "assigned (wk_tid wk) (sh_queue (th_shared s1)) + closings (th_world s1) =
        assigned (wk_tid wk) (sh_queue (th_shared s)) + closings (th_world s)" by (simp add: s1_def)
    have "queue_ok (wk_tid wk) (sh_queue (th_shared s1))"
      using Suc.prems(3,4) by (auto simp: s1_def queue_ok_def list_all_iff release_slot_def dest!: set_update_subset_insert [THEN subsetD])
    with Suc.IH [of "Suc i" s1] Suc.prems obtain s' where s': "give_back m wk (Suc i) n s1 = Some s'" "th_clients s' = th_clients s1"
      "assigned (wk_tid wk) (sh_queue (th_shared s')) + closings (th_world s') =
        assigned (wk_tid wk) (sh_queue (th_shared s1)) + closings (th_world s1)"
      "\<forall>k. cl_thread (sh_queue (th_shared s') ! k) = wk_tid wk \<longrightarrow>
         cl_thread (sh_queue (th_shared s1) ! k) = wk_tid wk \<and> (k < Suc i \<or> Suc i + n \<le> k)"
      "length (sh_queue (th_shared s')) = length (sh_queue (th_shared s1))" by (auto simp: s1_def)
    have same: "cl_thread (sh_queue (th_shared s1) ! k) = wk_tid wk \<Longrightarrow> k \<noteq> i \<and> cl_thread (sh_queue (th_shared s) ! k) = wk_tid wk" for k
      using i(1) Suc.prems(3) by (cases "k = i") (auto simp: s1_def release_slot_def)
    have "give_back m wk i (Suc n) s = Some s'"
      using s'(1) True i(2) Suc.prems(2) by (simp add: sync_quiet [OF assms(1)] Let_def s1_def)
    moreover have fin: "\<forall>k. cl_thread (sh_queue (th_shared s') ! k) = wk_tid wk \<longrightarrow>
       cl_thread (sh_queue (th_shared s) ! k) = wk_tid wk \<and> (k < i \<or> i + Suc n \<le> k)"
    proof (intro allI impI)
      fix k
      assume "cl_thread (sh_queue (th_shared s') ! k) = wk_tid wk"
      with s'(4) have "cl_thread (sh_queue (th_shared s1) ! k) = wk_tid wk" "k < Suc i \<or> Suc i + n \<le> k" by blast+
      with same [of k] show "cl_thread (sh_queue (th_shared s) ! k) = wk_tid wk \<and> (k < i \<or> i + Suc n \<le> k)" by linarith
    qed
    moreover have "th_clients s1 = th_clients s" "length (sh_queue (th_shared s1)) = length (sh_queue (th_shared s))"
      by (simp_all add: s1_def)
    ultimately show ?thesis
      using s'(2,3,5) cons fin by (intro exI [of _ s']) simp
  qed
qed auto

lemma give_back_reassign:
  assumes "quiet m" "i + n = length (sh_queue (th_shared s))" "\<not> killserver (th_shared s)"
    and "lazy_thread (th_shared s) \<noteq> wk_tid wk"
  shows "\<exists>s'. give_back m wk i n s = Some s' \<and> th_world s' = th_world s \<and>
    sh_queue (th_shared s') = take i (sh_queue (th_shared s)) @
      map (\<lambda>c. if cl_thread c = wk_tid wk then c\<lparr>cl_thread := lazy_thread (th_shared s)\<rparr> else c) (drop i (sh_queue (th_shared s)))"
  using assms(2-)
proof (induction n arbitrary: i s)
  case (Suc n)
  let ?q = "sh_queue (th_shared s)"
  define c where "c = (if cl_thread (?q ! i) = wk_tid wk then (?q ! i)\<lparr>cl_thread := lazy_thread (th_shared s)\<rparr> else ?q ! i)"
  define s1 where "s1 = (tick s)\<lparr>th_shared := (th_shared s)\<lparr>sh_queue := ?q[i := c]\<rparr>\<rparr>"
  have i: "i < length ?q" "slot ?q i = Some (?q ! i)" using Suc.prems by (simp_all add: slot_def)
  have "give_back m wk i (Suc n) s = give_back m wk (Suc i) n s1"
    using i Suc.prems(2) by (simp add: sync_quiet [OF assms(1)] Let_def s1_def c_def list_update_id tick_def)
  moreover from Suc.IH [of "Suc i" s1] Suc.prems obtain s' where s': "give_back m wk (Suc i) n s1 = Some s'" "th_world s' = th_world s1"
    "sh_queue (th_shared s') = take (Suc i) (sh_queue (th_shared s1)) @
      map (\<lambda>c. if cl_thread c = wk_tid wk then c\<lparr>cl_thread := lazy_thread (th_shared s1)\<rparr> else c) (drop (Suc i) (sh_queue (th_shared s1)))"
    by (auto simp: s1_def)
  moreover have "take (Suc i) (?q[i := c]) = take i ?q @ [c]" using i(1) by (simp add: take_Suc_conv_app_nth)
  moreover have "drop i ?q = ?q ! i # drop (Suc i) ?q" using i(1) by (simp add: Cons_nth_drop_Suc)
  ultimately show ?case by (intro exI [of _ s']) (simp add: s1_def c_def)
qed simp

section \<open>Properties\<close>




text \<open>a worker that is stopped while the server goes on hands its waiting connections to the
  laziest worker; but if it is itself the laziest and no other thread becomes it, it waits for ever.\<close>

theorem worker_cleanup_hands_over:
  fixes s :: "'db thread"
  assumes "quiet m" "thread_ok wk s" "\<not> killserver (th_shared s)" "0 < n"
  shows "if lazy_thread (th_shared s) = wk_tid wk then worker_cleanup n c m wk s = None
    else \<exists>s'. worker_cleanup n c m wk s = Some s' \<and>
      sh_queue (th_shared s') = map (\<lambda>c. if cl_thread c = wk_tid wk then c\<lparr>cl_thread := lazy_thread (th_shared s)\<rparr> else c)
        (sh_queue (th_shared s))"
proof (cases "lazy_thread (th_shared s) = wk_tid wk")
  case True
  have "wait_unassigned k m wk s' = None"
    if "lazy_thread (th_shared s') = wk_tid wk" "\<not> killserver (th_shared s')" for k and s' :: "'db thread"
    using that by (induction k arbitrary: s') (simp_all add: sync_quiet [OF assms(1)] Let_def)
  with True assms(3) show ?thesis
    by (simp add: worker_cleanup_def leave_balancing_def sync_quiet [OF assms(1)] Let_def)
next
  case False
  define s2 where "s2 = (tick s)\<lparr>th_clients := [], th_world := close_clients (th_clients s) (th_world s)\<rparr>"
  have q: "0 + nat (wk_queuesize wk) = length (sh_queue (th_shared s2))" using assms(2) by (simp add: s2_def thread_ok_def)
  from give_back_reassign [OF assms(1) q, of wk] assms(3) False obtain s3 where
    s3: "give_back m wk 0 (nat (wk_queuesize wk)) s2 = Some s3"
    "sh_queue (th_shared s3) = map (\<lambda>c. if cl_thread c = wk_tid wk then c\<lparr>cl_thread := lazy_thread (th_shared s)\<rparr> else c)
        (sh_queue (th_shared s))" by (auto simp: s2_def)
  have "worker_cleanup n c m wk s = Some (s3\<lparr>th_world := snd (sqlite3_close c (th_world s3))\<rparr>)"
    using s3(1) False by (simp add: worker_cleanup_def leave_balancing_def sync_quiet [OF assms(1)] Let_def s2_def)
  with s3(2) False show ?thesis by simp
qed

text \<open>a failing \<open>realloc\<close> ends a worker at once, and leaks what it holds: its loop returns, its
  connections are still open, and nobody has them any more.\<close>

theorem realloc_failure_leaks:
  assumes "quiet m" "thread_ok wk s" "th_clients s = []" "assigned (wk_tid wk) (sh_queue (th_shared s)) \<noteq> {#}"
    and "\<forall>k. \<not> mc_realloc m k" "\<not> mc_shutdown m (th_clock s)"
  shows "\<exists>s'. worker_loop (Suc n) e q m wk s = Some (Aborted s') \<and> held wk s' = held wk s \<and> th_world s' = th_world s"
proof -
  define s1 where "s1 = (tick (tick s))\<lparr>th_active := 0\<rparr>"
  let ?Q = "sh_queue (th_shared s)"
  have cq: "count_queued xs (wk_tid wk) i n = Some (length (filter (\<lambda>c. cl_thread c = wk_tid wk) (take n (drop i xs))))"
    if "i + n \<le> length xs" for i n xs
    using that
  proof (induction n arbitrary: i)
    case (Suc n)
    then have "drop i xs = xs ! i # drop (Suc i) xs" by (simp add: Cons_nth_drop_Suc)
    with Suc show ?case by (simp add: slot_def)
  qed simp
  have "length ?Q = nat (wk_queuesize wk)" using assms(2) by (simp add: thread_ok_def)
  then have "count_queued ?Q (wk_tid wk) 0 (nat (wk_queuesize wk)) = Some (length (filter (\<lambda>c. cl_thread c = wk_tid wk) ?Q))"
    using cq [of 0 "nat (wk_queuesize wk)" ?Q] by simp
  moreover have "0 < length (filter (\<lambda>c. cl_thread c = wk_tid wk) ?Q)"
    using assms(4) by (cases "filter (\<lambda>c. cl_thread c = wk_tid wk) ?Q") (simp_all add: assigned_def)
  ultimately have "expand_buffer m wk (tick s) = Some (Aborted (tick s1))"
    using assms(3,5) by (simp add: expand_buffer_def Let_def sync_quiet [OF assms(1)] s1_def tick_def)
  with assms(6) have "worker_loop (Suc n) e q m wk s = Some (Aborted (tick s1))" by (simp add: worker_round_def)
  then show ?thesis by (simp add: s1_def held_def)
qed

section \<open>Witnesses\<close>

definition quiet_machine :: "bool \<Rightarrow> machine" where
  "quiet_machine memory = \<lparr>mc_others = (\<lambda>_ sh. sh), mc_realloc = (\<lambda>_. memory), mc_ready = (\<lambda>_ _. True), mc_shutdown = (\<lambda>_. False)\<rparr>"

definition sample_worker :: worker where
  "sample_worker = \<lparr>wk_tid = 1, wk_db = ''tracker.db3'', wk_queuesize = 2, wk_announceInterval = 300\<rparr>"

definition sample_thread :: "client list \<Rightarrow> bool \<Rightarrow> int \<Rightarrow> mem_db thread" where
  "sample_thread cs killed lazy = \<lparr>th_clients = cs, th_active = 0,
     th_shared = \<lparr>sh_queue = [\<lparr>cl_thread = 1, cl_socket = 7, cl_recv_iter = 0\<rparr>, \<lparr>cl_thread = 2, cl_socket = 8, cl_recv_iter = 0\<rparr>],
       lazy_thread = lazy, lazy_active = 0, killserver = killed\<rparr>,
     th_world = sample_world swarm_db, th_clock = 0\<rparr>"

lemma sample_thread_facts:
  "quiet (quiet_machine b)" "rely (quiet_machine b) sample_worker" "\<forall>n. mc_realloc (quiet_machine True) n"
  "\<forall>n. \<not> mc_realloc (quiet_machine False) n" "int_range (wk_announceInterval sample_worker)"
  "thread_ok sample_worker (sample_thread [new_client] killed lazy)" "thread_ok sample_worker (sample_thread [] killed lazy)"
  "recv_ok (comm_os ''GET /announce?'')"
  by (auto simp: quiet_rely quiet_def quiet_machine_def sample_worker_def sample_thread_def thread_ok_def new_client_def
      client_ok_def queue_ok_def good_fd_def FD_SETSIZE_def int_range_def recv_ok_def comm_facts)




theorem worker_cleanup_hands_over_witness:
  "\<forall>c. worker_cleanup 5 c (quiet_machine True) sample_worker (sample_thread [] False 1) = None \<and>
   (\<exists>s'. worker_cleanup 5 c (quiet_machine True) sample_worker (sample_thread [] False 2) = Some s' \<and>
      map cl_thread (sh_queue (th_shared s')) = [2, 2])"
proof
  fix c
  show "worker_cleanup 5 c (quiet_machine True) sample_worker (sample_thread [] False 1) = None \<and>
   (\<exists>s'. worker_cleanup 5 c (quiet_machine True) sample_worker (sample_thread [] False 2) = Some s' \<and>
      map cl_thread (sh_queue (th_shared s')) = [2, 2])"
    using worker_cleanup_hands_over [OF sample_thread_facts(1) [of True] sample_thread_facts(7) [of False 1], of 5 c]
      worker_cleanup_hands_over [OF sample_thread_facts(1) [of True] sample_thread_facts(7) [of False 2], of 5 c]
    by (auto simp: sample_thread_def sample_worker_def)
qed

theorem realloc_failure_leaks_witness:
  "\<exists>s'. worker_loop 1 swarm_os mem_sqlite (quiet_machine False) sample_worker (sample_thread [] False 1) = Some (Aborted s') \<and>
     held sample_worker s' = {#7#}"
proof -
  have "th_clients (sample_thread [] False 1) = []"
    "assigned (wk_tid sample_worker) (sh_queue (th_shared (sample_thread [] False 1))) \<noteq> {#}"
    "\<not> mc_shutdown (quiet_machine False) (th_clock (sample_thread [] False 1))"
    "held sample_worker (sample_thread [] False 1) = {#7#}"
    by (simp_all add: sample_thread_def sample_worker_def quiet_machine_def held_def)
  with realloc_failure_leaks [OF sample_thread_facts(1,7) this(1,2) sample_thread_facts(4) this(3), of 0 swarm_os mem_sqlite]
  show ?thesis by auto
qed

end
