(* ===== verification/Server_Spec.thy ===== *)
theory Server_Spec
  imports Server Thread_Spec
begin

text \<open>
  The main thread: the options are read back, the accept loop fills the first empty slot, pruning is
  done when it is due, a shutdown closes what is left in the queue; and the abnormal starts that
  are undefined or never end.
\<close>

section \<open>Options\<close>

definition option_args :: "config \<Rightarrow> string list" where
  "option_args cf = [''-f'', cf_db cf, ''-w'', dec (cf_workerthreads cf), ''-p'', cf_port cf, ''-q'', dec (cf_queuesize cf),
     ''-a'', dec (cf_announceInterval cf)] @
     (case cf_bindhost cf of None \<Rightarrow> [] | Some h \<Rightarrow> [''-b'', h]) @
     (case cf_ipv4 cf of None \<Rightarrow> [] | Some b \<Rightarrow> [''-i'', if b then ''4'' else ''6''])"

lemma number_of_dec: "0 \<le> i \<Longrightarrow> int_range i \<Longrightarrow> number_of (dec i) = Some i"
  using strtoul_dec_nat [of "nat i" NUL "[]"]
  by (simp add: number_of_def lit_def dec_def to_int_id int_range_def)

lemma parse_option:
  assumes "opt \<noteq> CHR ''c''"
  shows "parse_args ((CHR ''-'' # [opt]) # v # args) cf = do { cf \<leftarrow> apply_option opt v cf; parse_args args cf }"
  using assms by (simp add: rd_def lit_def)

section \<open>The accept loop\<close>

definition full :: "client list \<Rightarrow> bool" where
  "full q \<longleftrightarrow> list_all (\<lambda>c. cl_socket c \<noteq> 0) q"

lemma sv_sync_quiet: "quiet m \<Longrightarrow> sv_sync m s = s\<lparr>sv_clock := Suc (sv_clock s)\<rparr>"
  by (simp add: sv_sync_def quiet_def)

lemma find_slot_full:
  assumes "quiet m" "full (sh_queue (sv_shared s))"
  shows "find_slot n m queuesize i s = None"
  using assms(2)
proof (induction n arbitrary: i s)
  case (Suc n)
  then have "find_slot n m queuesize j (s\<lparr>sv_clock := Suc (sv_clock s)\<rparr>) = None" for j by simp
  with Suc.prems show ?case
    by (auto simp: sv_sync_quiet [OF assms(1)] slot_def full_def list_all_length Let_def)
qed simp

text \<open>The first empty slot at or after \<open>i\<close>.\<close>

fun first_empty :: "client list \<Rightarrow> nat option" where
  "first_empty [] = None"
| "first_empty (c # q) = (if cl_socket c = 0 then Some 0 else map_option Suc (first_empty q))"

lemma first_empty_drop:
  assumes "i < length q"
  shows "first_empty (drop i q) = (if cl_socket (q ! i) = 0 then Some 0 else map_option Suc (first_empty (drop (Suc i) q)))"
  using assms by (subst Cons_nth_drop_Suc [symmetric]) auto

lemma find_slot_first:
  assumes "quiet m" "length (sh_queue (sv_shared s)) = nat queuesize"
    and "first_empty (drop i (sh_queue (sv_shared s))) = Some k" "k < n"
  shows "find_slot n m queuesize i s = Some (i + k, s\<lparr>sv_clock := sv_clock s + Suc k\<rparr>)"
  using assms(2-)
proof (induction n arbitrary: i k s)
  case (Suc n)
  let ?q = "sh_queue (sv_shared s)"
  have i: "i < length ?q" using Suc.prems(2) by (cases "i < length ?q") simp_all
  show ?case
  proof (cases "cl_socket (?q ! i) = 0")
    case True
    with Suc.prems(2) i show ?thesis
      by (simp add: first_empty_drop sv_sync_quiet [OF assms(1)] slot_def Let_def)
  next
    case False
    then obtain j where j: "k = Suc j" "first_empty (drop (Suc i) ?q) = Some j"
      using Suc.prems(2) i by (auto simp: first_empty_drop)
    then have "Suc i < length ?q" by (cases "Suc i < length ?q") simp_all
    then have "nat ((int i + 1) mod queuesize) = Suc i" using Suc.prems(1) by simp
    moreover have "find_slot n m queuesize (Suc i) (s\<lparr>sv_clock := Suc (sv_clock s)\<rparr>) =
        Some (Suc i + j, s\<lparr>sv_clock := Suc (sv_clock s), sv_clock := Suc (sv_clock s) + Suc j\<rparr>)"
      using Suc.IH [of "s\<lparr>sv_clock := Suc (sv_clock s)\<rparr>" "Suc i" j] Suc.prems j by simp
    ultimately show ?thesis
      using False i j(1) Suc.prems(1) by (simp add: sv_sync_quiet [OF assms(1)] slot_def Let_def)
  qed
qed simp

lemma first_empty_Some:
  "first_empty q = Some k \<Longrightarrow> k < length q \<and> cl_socket (q ! k) = 0 \<and> (\<forall>j < k. cl_socket (q ! j) \<noteq> 0)"
proof (induction q arbitrary: k)
  case (Cons c q)
  then show ?case by (auto split: if_splits simp: less_Suc_eq_0_disj nth_Cons' split: nat.splits)
qed simp

section \<open>Shutdown\<close>

lemma closings_close_stray: "closings (close_stray q w) = sockets q + closings w"
  by (induction q arbitrary: w) (auto simp: ac_simps)

fun joined :: "system \<Rightarrow> nat \<Rightarrow> nat \<Rightarrow> shared \<Rightarrow> shared" where
  "joined y i 0 sh = sh"
| "joined y i (Suc n) sh = joined y (Suc i) n (sy_join y i sh)"

lemma join_workers_eq:
  "i + n \<le> sv_created s \<Longrightarrow> join_workers y i n s = Some (s\<lparr>sv_shared := joined y i n (sv_shared s)\<rparr>)"
  by (induction n arbitrary: i s) simp_all

lemma join_workers_none: "sv_created s < i + n \<Longrightarrow> i \<le> sv_created s \<Longrightarrow> join_workers y i n s = None"
  by (induction n arbitrary: i s) auto

section \<open>Properties\<close>

text \<open>the options of a command line are read back: a configuration with numbers that are not
  negative, written out as options, is what the loop over the options makes of them.\<close>

theorem parse_args_roundtrip:
  assumes "0 \<le> cf_workerthreads cf" "int_range (cf_workerthreads cf)" "0 \<le> cf_queuesize cf" "int_range (cf_queuesize cf)"
    and "0 \<le> cf_announceInterval cf" "int_range (cf_announceInterval cf)"
  shows "parse_args (option_args cf) default_config = Some (Run cf)"
proof -
  have fin: "parse_args ((case cf_bindhost cf of None \<Rightarrow> [] | Some h \<Rightarrow> [''-b'', h]) @
       (case cf_ipv4 cf of None \<Rightarrow> [] | Some b \<Rightarrow> [''-i'', if b then ''4'' else ''6''])) cf' = Some (Run cf)"
    if "cf' = cf\<lparr>cf_bindhost := None, cf_ipv4 := None\<rparr>" for cf'
    using that
    by (cases "cf_bindhost cf"; cases "cf_ipv4 cf")
      (auto simp: parse_option apply_option_def rd_def lit_def simp del: parse_args.simps(1))
  show ?thesis
    using assms unfolding option_args_def
    by (simp add: parse_option apply_option_def number_of_dec fin default_config_def del: parse_args.simps(1))
qed

text \<open>where a connection goes: with an empty slot in the queue, the search ends at the first one;
  what \<open>accept\<close> returns is put there and assigned to the laziest worker, a failed \<open>accept\<close> leaves it
  empty, and no other slot is touched. (Seen by itself: the others are quiet.)\<close>

theorem connection_placed:
  assumes "quiet m" "length (sh_queue (sv_shared s)) = nat (cf_queuesize cf)"
    and "\<not> full (sh_queue (sv_shared s))" "nat (cf_queuesize cf) \<le> n"
  shows "\<exists>i s1. find_slot n m (cf_queuesize cf) 0 s = Some (i, s1) \<and> i < length (sh_queue (sv_shared s)) \<and>
    cl_socket (sh_queue (sv_shared s) ! i) = 0 \<and> (\<forall>j < i. cl_socket (sh_queue (sv_shared s) ! j) \<noteq> 0) \<and>
    (let fd = sy_accept y (sv_clock s1 + 1); q' = sh_queue (sv_shared (accept_into y m i s1))
     in cl_socket (q' ! i) = (if fd = -1 then 0 else fd) \<and>
        cl_thread (q' ! i) = (if fd = -1 then 0 else lazy_thread (sv_shared s)) \<and>
        (\<forall>j. j \<noteq> i \<longrightarrow> q' ! j = sh_queue (sv_shared s) ! j))"
proof -
  let ?q = "sh_queue (sv_shared s)"
  have "\<exists>c\<in>set q. cl_socket c = 0 \<Longrightarrow> \<exists>k. first_empty q = Some k" for q by (induction q) auto
  then obtain k where k: "first_empty ?q = Some k" using assms(3) by (auto simp: full_def list_all_iff)
  note ks = first_empty_Some [OF k]
  with assms(2,4) have "k < n" by simp
  with find_slot_first [OF assms(1,2), of 0 k n] k
  have f: "find_slot n m (cf_queuesize cf) 0 s = Some (k, s\<lparr>sv_clock := sv_clock s + Suc k\<rparr>)" by simp
  show ?thesis
    using ks by (intro exI [of _ k] exI [of _ "s\<lparr>sv_clock := sv_clock s + Suc k\<rparr>"])
      (simp add: f accept_into_def sv_sync_quiet [OF assms(1)] set_queue_def Let_def)
qed

text \<open>a full queue stops the server for good when no worker empties it: the search for a slot never
  ends, and does not look at the shutdown flag either, so not even SIGINT ends the program.\<close>

theorem full_queue_never_ends:
  assumes "quiet m" "full (sh_queue (sv_shared s))" "\<not> killserver (sv_shared s)"
  shows "accept_loop n e q y m cf error clock s = None \<and>
    find_slot n m (cf_queuesize cf) 0 (s\<lparr>sv_shared := (sv_shared s)\<lparr>killserver := True\<rparr>\<rparr>) = None"
proof -
  have "find_slot k m (cf_queuesize cf) 0 (s\<lparr>sv_clock := j\<rparr>) = None" for k j
    by (rule find_slot_full [OF assms(1)]) (simp add: assms(2))
  then have "accept_loop n e q y m cf error clock s = None"
    using assms(3) by (cases n) (simp_all add: sv_sync_quiet [OF assms(1)])
  moreover have "find_slot n m (cf_queuesize cf) 0 (s\<lparr>sv_shared := (sv_shared s)\<lparr>killserver := True\<rparr>\<rparr>) = None"
    by (rule find_slot_full [OF assms(1)]) (simp add: assms(2))
  ultimately show ?thesis ..
qed


text \<open>an unusable database is fatal: when the tracker cannot open its database, or that has no torrents
  table, it goes on to join worker threads that it never created, which is undefined.\<close>

theorem database_failure_undefined:
  assumes "sqlite_connections c handles msgs tables_of" "0 < cf_workerthreads cf" "0 \<le> cf_queuesize cf"
    and "mc_realloc m 0" "mc_realloc m 1" "os_time e (ticks w) = Some t"
    and "torrents_table (tables_of (wdb w)) = None"
  shows "run_server n e q c y m cf w = None"
proof -
  obtain w1 where g: "gettimeofday e w = (Some t, w1)" "wdb w1 = wdb w" using assms(6) by (simp add: gettimeofday_def)
  obtain rc db2 where o2: "sc_open c (cf_db cf) 6 (wdb w) = (rc, db2)" by fastforce
  define w2 where "w2 = w1\<lparr>wdb := db2\<rparr>"
  have o3: "sqlite3_open_v2 c (cf_db cf) (SQLITE_OPEN_READWRITE + SQLITE_OPEN_CREATE) w1 = (rc, w2)"
    using o2 g by (simp add: sqlite3_open_v2_def w2_def)
  have none: "join_workers y 0 (nat (cf_workerthreads cf)) s = None" if "sv_created s = 0" for s :: "'a server"
    using that assms(2) by (intro join_workers_none) auto
  show ?thesis
  proof (cases "rc = SQLITE_OK")
    case False
    with o3 g assms(2-5) none show ?thesis
      by (simp add: run_server_def shutdown_server_def Let_def)
  next
    case True
    obtain rt db3 where t: "sc_busy_timeout c 500 db2 = (rt, db3)" by fastforce
    obtain ex msg rows db4 where x: "sc_exec c EXEC_TORRENT_COUNT db3 = (ex, msg, rows, db4)" by (metis prod_cases4)
    have "tables_of db3 = tables_of (wdb w)"
      using sqlite_connections.open_tables [OF assms(1) o2] sqlite_connections.timeout_same [OF assms(1) t] by simp
    with sqlite_connections.exec_ok [OF assms(1), of EXEC_TORRENT_COUNT db3 msg rows db4] x assms(7)
    have "ex \<noteq> SQLITE_OK" by auto
    moreover have "ex \<noteq> THREADCREATION_ERROR"
      using sqlite_connections.exec_code [OF assms(1) x] by (auto simp: result_code_def)
    moreover have "sqlite3_exec c EXEC_TORRENT_COUNT (snd (sqlite3_busy_timeout c 500 w2)) = (ex, msg, rows, w2\<lparr>wdb := db4\<rparr>)"
      using t x by (simp add: sqlite3_exec_def sqlite3_busy_timeout_def w2_def)
    ultimately show ?thesis
      using o3 g assms(2-5) none True by (simp add: run_server_def shutdown_server_def Let_def)
  qed
qed

text \<open>three configurations that the code does not expect: when \<open>getaddrinfo\<close> fails, an address list
  is freed that was never set; when no socket can be had for the first of several addresses, the loop
  over them never ends, since it always goes back to the second one; and a queue of size 0 is read
  outside.\<close>

theorem bad_network_undefined:
  assumes "\<not> killserver (mc_others m (sv_clock s) (sv_shared s))"
    and "sh_queue (mc_others m (Suc (sv_clock s)) (mc_others m (sv_clock s) (sv_shared s))) = []"
    and "\<forall>k. sy_socket y k a = -1" "sy_getaddrinfo y' (cf_bindhost cf) (cf_port cf) = None"
  shows "serve_network n e q y' m cf timeLast s = None \<and>
    server_socket n y (a # b # servinfo) k (Some it) fd = None \<and>
    accept_loop n e q y m cf error clock s = None"
proof -
  have "server_socket n y (a # b # servinfo) k (Some it) fd = None" for n k it fd
    using assms(3) by (induction n arbitrary: k it fd) (simp_all add: Let_def)
  moreover have "accept_loop n e q y m cf error clock s = None"
  proof (cases n)
    case (Suc l)
    have "find_slot l m (cf_queuesize cf) 0 (sv_sync m s) = None"
      using assms(2) by (cases l) (simp_all add: sv_sync_def slot_def Let_def)
    with Suc assms(1) show ?thesis by (simp add: sv_sync_def Let_def)
  qed simp
  ultimately show ?thesis using assms(4) by (simp add: serve_network_def)
qed

section \<open>Witnesses\<close>

definition sample_system :: "int \<Rightarrow> system" where
  "sample_system fd = \<lparr>sy_thread = (\<lambda>_. True), sy_getaddrinfo = (\<lambda>_ _. None), sy_socket = (\<lambda>_ _. -1), sy_setsockopt = (\<lambda>_. True),
     sy_bind = (\<lambda>_ _. True), sy_listen = (\<lambda>_ _. True), sy_accept = (\<lambda>_. fd), sy_join = (\<lambda>_ sh. sh)\<rparr>"

definition sample_server :: "int list \<Rightarrow> mem_db server" where
  "sample_server fds = \<lparr>sv_shared = \<lparr>sh_queue = map (\<lambda>fd. \<lparr>cl_thread = 1, cl_socket = fd, cl_recv_iter = 0\<rparr>) fds,
     lazy_thread = 2, lazy_active = 0, killserver = False\<rparr>, sv_world = sample_world swarm_db, sv_clock = 0, sv_created = 10\<rparr>"

theorem parse_args_roundtrip_witness:
  "parse_args (option_args (default_config\<lparr>cf_queuesize := 5, cf_bindhost := Some ''::1''\<rparr>)) default_config =
     Some (Run (default_config\<lparr>cf_queuesize := 5, cf_bindhost := Some ''::1''\<rparr>))"
  by (rule parse_args_roundtrip) (simp_all add: default_config_def int_range_def)

theorem connection_placed_witness:
  "\<exists>i s1. find_slot 2 (quiet_machine True) 2 0 (sample_server [7, 0]) = Some (i, s1) \<and>
     cl_socket (sh_queue (sv_shared (accept_into (sample_system 9) (quiet_machine True) i s1)) ! i) = 9"
proof -
  have "length (sh_queue (sv_shared (sample_server [7, 0]))) = nat (cf_queuesize (default_config\<lparr>cf_queuesize := 2\<rparr>))"
    "\<not> full (sh_queue (sv_shared (sample_server [7, 0])))" "nat (cf_queuesize (default_config\<lparr>cf_queuesize := 2\<rparr>)) \<le> 2"
    by (simp_all add: sample_server_def full_def)
  from connection_placed [OF sample_thread_facts(1) this, of True "sample_system 9"]
  show ?thesis by (auto simp: Let_def sample_system_def)
qed

theorem full_queue_never_ends_witness:
  "\<forall>n. accept_loop n swarm_os mem_sqlite (sample_system 9) (quiet_machine True) default_config 0 (0, 0) (sample_server [7, 8]) = None"
proof -
  have "full (sh_queue (sv_shared (sample_server [7, 8])))" "\<not> killserver (sv_shared (sample_server [7, 8]))"
    by (simp_all add: sample_server_def full_def)
  from full_queue_never_ends [OF sample_thread_facts(1) this] show ?thesis by blast
qed


theorem database_failure_undefined_witness:
  "\<forall>n q. run_server n sample_os q file_conn (sample_system 9) (quiet_machine True) default_config
     (fresh_file \<lparr>torrents_table = None, peers_table = None\<rparr>) = None"
  by (intro allI, rule database_failure_undefined [OF on_file.sqlite_connections_axioms, where t = 1000])
    (simp_all add: default_config_def quiet_machine_def sample_os_def fresh_file_def)

theorem bad_network_undefined_witness:
  "\<forall>n. serve_network n swarm_os mem_sqlite (sample_system 9) (quiet_machine True) default_config 0 (sample_server []) = None \<and>
   accept_loop n swarm_os mem_sqlite (sample_system 9) (quiet_machine True) default_config 0 (0, 0) (sample_server []) = None"
proof -
  have "\<not> killserver (mc_others (quiet_machine True) (sv_clock (sample_server [])) (sv_shared (sample_server [])))"
    "sh_queue (mc_others (quiet_machine True) (Suc (sv_clock (sample_server [])))
       (mc_others (quiet_machine True) (sv_clock (sample_server [])) (sv_shared (sample_server [])))) = []"
    "\<forall>k. sy_socket (sample_system 9) k \<lparr>ai_ipv4 = True, ai_text = []\<rparr> = -1"
    "sy_getaddrinfo (sample_system 9) (cf_bindhost default_config) (cf_port default_config) = None"
    by (simp_all add: sample_server_def sample_system_def quiet_machine_def)
  from bad_network_undefined [OF this] show ?thesis by blast
qed

end
