(* ===== verification/Tracker_Round.thy ===== *)
theory Tracker_Round
  imports Thread_Spec
begin

text \<open>
  The tracker as its clients see it: a request that lies on the socket of a client of a worker is answered in the
  worker's next round, on the socket of that client only, and the connection is closed.
\<close>

section \<open>Whose bytes\<close>

lemma received_own:
  assumes "own_events fd w w'" "fd \<noteq> fd'"
  shows "received fd' w' = received fd' w"
proof -
  obtain evs where evs: "events w' = events w @ evs" "list_all (own_event fd) evs"
    using assms(1) by (auto simp: own_events_iff)
  have "sent_bytes fd' evs = []"
    using evs(2) assms(2) by (induction fd' evs rule: sent_bytes.induct) (auto simp: own_event_def)
  with evs(1) show ?thesis by (simp add: received_def)
qed

lemma received_log [simp]:
  "received fd (log_event (Closed f) w) = received fd w" "received fd (log_event (Flushed f) w) = received fd w"
  "received fd (w\<lparr>polls := n\<rparr>) = received fd w"
  by (simp_all add: received_def log_event_def)

lemma serve_client_received:
  assumes "serve_client e q iv ready c w = Some (c', w')" "cl_socket c \<noteq> fd"
  shows "received fd w' = received fd w"
  using assms unfolding serve_client_def
  by (auto elim!: bind_SomeE split: if_splits dest!: received_own [OF parseSocket_own, where fd' = fd] received_own [OF own_headers, where fd' = fd])

lemma serve_clients_received:
  assumes "serve_clients e q iv ready cs w = Some (cs', w')" "\<forall>c\<in>set cs. cl_socket c \<noteq> fd"
  shows "received fd w' = received fd w"
  using assms
proof (induction cs arbitrary: w cs')
  case (Cons c cs)
  from Cons.prems(1) obtain c1 w1 cs1 where
    "serve_client e q iv ready c w = Some (c1, w1)" "serve_clients e q iv ready cs w1 = Some (cs1, w')"
    by (auto elim!: bind_SomeE)
  with Cons.IH serve_client_received Cons.prems(2) show ?case by fastforce
qed simp

lemma serve_clients_append:
  "serve_clients e q iv ready (xs @ ys) w = do {
     (xs', w) \<leftarrow> serve_clients e q iv ready xs w;
     (ys', w) \<leftarrow> serve_clients e q iv ready ys w;
     Some (xs' @ ys', w) }"
  by (induction xs arbitrary: w) (auto simp: case_prod_beta split: Option.bind_split)

section \<open>One announce\<close>

text \<open>The answer to an announce: a refusal, or the interval and entries for rows other than the client's own.\<close>

definition announce_answer :: "os \<Rightarrow> announce \<Rightarrow> int \<Rightarrow> string \<Rightarrow> bool" where
  "announce_answer e ar iv reply \<longleftrightarrow> reply \<in> set refusals \<or>
     (\<exists>ip pid rs. cstr (ar_ip ar) = Some ip \<and> cstr (ar_peer_id ar) = Some pid \<and> length rs \<le> nat (ar_numwant ar) \<and>
        reply = concat (peers_pieces e ar iv (others (map tolower ip) pid rs)))"

lemma cstr_padded:
  assumes "NUL \<notin> set s" "length s < n"
  shows "cstr (s @ replicate (n - length s) NUL) = Some s"
proof -
  have "n - length s = Suc (n - length s - 1)" using assms(2) by simp
  then have "replicate (n - length s) NUL = NUL # replicate (n - length s - 1) NUL" by (metis replicate_Suc)
  with assms(1) show ?thesis by (simp add: cstr_append)
qed

lemma expected_announce_ok:
  assumes "length h = 20" "length pid = 20" "length ip \<le> 45"
  shows "announce_ok (expected_announce h pid port left compact no_peer_id ev numwant v6 ip)"
    "cstr (ar_info_hash (expected_announce h pid port left compact no_peer_id ev numwant v6 ip)) = Some (url_encode h)"
    "cstr (ar_peer_id (expected_announce h pid port left compact no_peer_id ev numwant v6 ip)) = Some (url_encode pid)"
    "\<exists>s. cstr (ar_ip (expected_announce h pid port left compact no_peer_id ev numwant v6 ip)) = Some s"
proof -
  note len = length_url_encode(2) [of h] length_url_encode(2) [of pid]
  show "announce_ok (expected_announce h pid port left compact no_peer_id ev numwant v6 ip)"
    using len assms by (auto simp: announce_ok_def expected_announce_def Let_def)
  show "cstr (ar_info_hash (expected_announce h pid port left compact no_peer_id ev numwant v6 ip)) = Some (url_encode h)"
    "cstr (ar_peer_id (expected_announce h pid port left compact no_peer_id ev numwant v6 ip)) = Some (url_encode pid)"
    using len assms by (simp_all add: expected_announce_def cstr_padded url_encode_noNUL)
  show "\<exists>s. cstr (ar_ip (expected_announce h pid port left compact no_peer_id ev numwant v6 ip)) = Some s"
    using assms(3) by (intro cstr_iff_NUL) (simp add: expected_announce_def)
qed

lemma serve_announce:
  assumes "sqlite_api q opened tabs view" "pton_lengths e" "peer_texts e" "recv_ok e" "full_send e" "int_range iv"
    and "length h = 20" "length pid = 20" "port < 2 ^ 64" "left < 2 ^ 64" "numwant < 2 ^ 64"
    and bs: "bs = ''GET /announce'' @ query_text h pid port left compact no_peer_id ev numwant @ CHR '' '' # t"
    and "length bs < 1023" "os_recv e (cl_socket c) (polls w) = Some bs" "os_peer e (cl_socket c) (Suc (polls w)) = Some (v6, ip)" "length ip \<le> 45"
    and "ready (cl_socket c)" "cl_socket c \<noteq> 0"
  shows "\<exists>w' reply. serve_client e q iv ready c w = Some (c\<lparr>cl_socket := 0\<rparr>, w') \<and>
    received (cl_socket c) w' = received (cl_socket c) w @ http_head ''200 OK'' STANDARD_HEADER @ reply \<and>
    announce_answer e (expected_announce h pid port left compact no_peer_id ev numwant v6 ip) iv reply"
proof -
  let ?ar = "expected_announce h pid port left compact no_peer_id ev numwant v6 ip" and ?w = "w\<lparr>polls := Suc (polls w)\<rparr>"
  note ok = expected_announce_ok [OF assms(7,8,16), of port left compact no_peer_id ev numwant v6]
  obtain s where s: "cstr (ar_ip ?ar) = Some s" using ok(4) by blast
  have p: "parseSocket e q c iv w = map_option (\<lambda>w'. (True, log_event (Flushed (cl_socket c)) w')) (track e q (cl_socket c) ?ar iv ?w)"
    by (rule parseSocket_announce [OF query_text_reads [OF assms(7-11,16)] bs assms(13-15)])
  have "\<exists>b w'. parseSocket e q c iv w = Some (b, w')"
    using sqlite_api.parseSocket_spec [OF assms(1-3,6,14)] assms(13) by fastforce
  with p obtain w1 where w1: "track e q (cl_socket c) ?ar iv ?w = Some w1" by auto
  have "\<exists>reply. received (cl_socket c) w1 = received (cl_socket c) w @ http_head ''200 OK'' STANDARD_HEADER @ reply \<and>
      announce_answer e ?ar iv reply"
    using track_sends [OF assms(1,2) ok(1) assms(6,5) ok(2) s ok(3) url.roundtrip [folded url_encode_def] assms(7) w1] s ok(3)
    unfolding announce_answer_def received_log by blast
  moreover have "serve_client e q iv ready c w =
      Some (c\<lparr>cl_socket := 0\<rparr>, log_event (Closed (cl_socket c)) (log_event (Flushed (cl_socket c)) w1))"
    using assms(17,18) by (simp add: serve_client_def p w1)
  ultimately show ?thesis by auto
qed

lemma kept_sockets:
  assumes "A' + B' = A + B" "B \<subseteq># B'"
  shows "A' \<subseteq># (A :: int multiset)"
proof -
  obtain C where "B' = B + C" using assms(2) by (auto simp: subset_mset.le_iff_add)
  with assms(1) have "(A' + C) + B = A + B" by (simp add: ac_simps)
  then have "A = A' + C" by simp
  then show ?thesis by simp
qed

section \<open>Properties\<close>

text \<open>C7: a client that has sent an announce is answered in the next round. Let a worker serve its clients when the bytes
  waiting on a socket are an announce in the normal form and \<open>select\<close> reports the socket: it returns, the client has
  received the HTTP header and the answer to exactly the values that it encoded, whatever the other clients of the worker
  send, and its connection is closed.\<close>

theorem announce_served:
  assumes "sqlite_api q opened tabs view" "pton_lengths e" "peer_texts e" "recv_ok e" "full_send e"
    and "int_range (wk_announceInterval wk)" "thread_ok wk s"
    and "th_clients s = xs @ c # ys" "cl_socket c = fd" "fd \<noteq> 0" "\<forall>d\<in>set xs \<union> set ys. cl_socket d \<noteq> fd" "mc_ready m (th_clock s) fd"
    and "length h = 20" "length pid = 20" "port < 2 ^ 64" "left < 2 ^ 64" "numwant < 2 ^ 64"
    and bs: "bs = ''GET /announce'' @ query_text h pid port left compact no_peer_id ev numwant @ CHR '' '' # t"
    and "length bs < 1023" "\<forall>n. os_recv e fd n = Some bs" "\<forall>n. os_peer e fd n = Some (v6, ip)" "length ip \<le> 45"
  shows "\<exists>s' reply. serve e q m wk s = Some s' \<and> fd \<in># closings (th_world s') \<and> fd \<notin># sockets (th_clients s') \<and>
    received fd (th_world s') = received fd (th_world s) @ http_head ''200 OK'' STANDARD_HEADER @ reply \<and>
    announce_answer e (expected_announce h pid port left compact no_peer_id ev numwant v6 ip) (wk_announceInterval wk) reply"
proof -
  let ?ar = "expected_announce h pid port left compact no_peer_id ev numwant v6 ip" and ?iv = "wk_announceInterval wk"
    and ?r = "mc_ready m (th_clock s)"
  have ok: "list_all client_ok (xs @ c # ys)" using assms(7,8) by (simp add: thread_ok_def)
  obtain fdmax where f: "select_set 0 (xs @ c # ys) = Some (fdmax, map older (xs @ c # ys))" "0 \<le> fdmax"
      "fdmax = 0 \<longrightarrow> sockets (xs @ c # ys) = {#}"
    using select_set_ok [OF ok, of 0] by auto
  have nz: "fdmax > 0" using f(2,3) assms(9,10) by (auto simp: sockets_def filter_empty_conv)
  have so: "cl_socket (older d) = cl_socket d" for d by (simp add: older_def)
  obtain xs' w1 where x: "serve_clients e q ?iv ?r (map older xs) (th_world s) = Some (xs', w1)"
      "sockets xs' + closings w1 = sockets (map older xs) + closings (th_world s)" "closings (th_world s) \<subseteq># closings w1"
    using sqlite_api.serve_clients_ok [OF assms(1-4,6)] by blast
  have "\<exists>w' reply. serve_client e q ?iv ?r (older c) w1 = Some ((older c)\<lparr>cl_socket := 0\<rparr>, w') \<and>
      received (cl_socket (older c)) w' = received (cl_socket (older c)) w1 @ http_head ''200 OK'' STANDARD_HEADER @ reply \<and>
      announce_answer e ?ar ?iv reply"
    by (rule serve_announce [OF assms(1-6,13-17) bs assms(19)]) (use assms(9,10,12,20-22) so in auto)
  then obtain w2 reply where c: "serve_client e q ?iv ?r (older c) w1 = Some ((older c)\<lparr>cl_socket := 0\<rparr>, w2)"
      "received fd w2 = received fd w1 @ http_head ''200 OK'' STANDARD_HEADER @ reply" "announce_answer e ?ar ?iv reply"
    using assms(9) so by auto
  obtain ys' w3 where y: "serve_clients e q ?iv ?r (map older ys) w2 = Some (ys', w3)"
      "sockets ys' + closings w3 = sockets (map older ys) + closings w2" "closings w2 \<subseteq># closings w3"
    using sqlite_api.serve_clients_ok [OF assms(1-4,6)] by blast
  have run: "serve_clients e q ?iv ?r (map older (xs @ c # ys)) (th_world s) = Some (xs' @ (older c)\<lparr>cl_socket := 0\<rparr> # ys', w3)"
    using x(1) c(1) y(1) by (simp add: serve_clients_append)
  have other: "\<forall>d\<in>set (map older xs). cl_socket d \<noteq> fd" "\<forall>d\<in>set (map older ys). cl_socket d \<noteq> fd"
    using assms(11) so by auto
  have rec: "received fd w3 = received fd (th_world s) @ http_head ''200 OK'' STANDARD_HEADER @ reply"
    using serve_clients_received [OF x(1) other(1)] serve_clients_received [OF y(1) other(2)] c(2) by simp
  have "served (older c) w1 ((older c)\<lparr>cl_socket := 0\<rparr>) w2"
    using sqlite_api.serve_client_ok [OF assms(1-4,6), of ?r "older c" w1] c(1) by auto
  moreover have "cl_socket ((older c)\<lparr>cl_socket := 0\<rparr>) \<noteq> cl_socket (older c)" using so assms(9,10) by simp
  then have "(older c)\<lparr>cl_socket := 0\<rparr> \<noteq> older c" by metis
  ultimately have "closings w2 = add_mset fd (closings w1)" using assms(9) so by (simp add: served_def)
  then have "fd \<in># closings w3" using y(3) by (auto dest: mset_subset_eqD)
  moreover have "fd \<notin># sockets (map older xs)" "fd \<notin># sockets (map older ys)" using other by (auto simp: sockets_def)
  then have "fd \<notin># sockets xs'" "fd \<notin># sockets ys'"
    using mset_subset_eqD [OF kept_sockets [OF x(2,3)]] mset_subset_eqD [OF kept_sockets [OF y(2,3)]] by blast+
  ultimately show ?thesis using nz f(1) run c(3) rec assms(8,10) by (auto simp: serve_def tick_def)
qed

section \<open>Witnesses\<close>

definition sample_request :: string where
  "sample_request = ''GET /announce'' @ query_text swarm_hash swarm_hash 6881 12 True False STARTED 30 @ '' HTTP/1.1''"

lemma length_sample_request: "length sample_request < 1023"
  using length_url_encode(2) [of swarm_hash] dec_nat_length_le [of 6881 4] dec_nat_length_le [of 12 2]
    dec_nat_length_le [of 30 2] swarm_facts(7) by (simp add: query_text_def flag_text_def sample_request_def)

theorem announce_served_witness:
  "\<exists>s' reply. serve (comm_os sample_request) mem_sqlite (quiet_machine True) sample_worker (sample_thread [new_client] False 1) = Some s' \<and>
     5 \<in># closings (th_world s') \<and>
     received 5 (th_world s') = http_head ''200 OK'' STANDARD_HEADER @ reply \<and>
     announce_answer (comm_os sample_request) (expected_announce swarm_hash swarm_hash 6881 12 True False STARTED 30 False ''1.2.3.4'') 300 reply"
proof -
  let ?e = "comm_os sample_request" and ?s = "sample_thread [new_client] False 1"
  have e: "recv_ok ?e" "full_send ?e" "\<forall>n. os_recv ?e 5 n = Some sample_request" "\<forall>n. os_peer ?e 5 n = Some (False, ''1.2.3.4'')"
    using length_sample_request swarm_facts(2) by (auto simp: recv_ok_def comm_facts) (simp add: comm_os_def full_send_def)
  have s: "th_clients ?s = [] @ new_client # []" "cl_socket new_client = 5" "(5 :: int) \<noteq> 0"
    "\<forall>d\<in>set [] \<union> set []. cl_socket d \<noteq> 5" "mc_ready (quiet_machine True) (th_clock ?s) 5"
    by (simp_all add: sample_thread_def new_client_def quiet_machine_def)
  have r: "sample_request = ''GET /announce'' @ query_text swarm_hash swarm_hash 6881 12 True False STARTED 30 @ CHR '' '' # ''HTTP/1.1''"
    by (simp add: sample_request_def)
  have "received 5 (th_world ?s) = []" by (simp add: received_def sample_thread_def sample_world_def)
  with announce_served [OF mem.sqlite_api_axioms comm_facts(1,2) e(1,2) sample_thread_facts(5,6) s swarm_facts(7,7) _ _ _ r
      length_sample_request e(3,4)]
  show ?thesis by (auto simp: sample_worker_def)
qed

end
