(* ===== verification/Handover.thy ===== *)
theory Handover
  imports Thread
begin

text \<open>
  The accept queue between the main thread and the workers, at the level of single accesses to the
  \<open>volatile\<close> members \<open>thread\<close> and \<open>socket\<close> of its slots. There is no lock: the main
  thread takes a slot whose \<open>socket\<close> is 0 and writes \<open>thread\<close> last, a worker takes a slot whose
  \<open>thread\<close> is its own and writes \<open>socket\<close> last. The steps of all threads interleave in
  any order (memory is sequentially consistent). A worker is always at one slot of the queue; where
  its loop is between two slots, it may close connections of its buffer.
\<close>

section \<open>States and steps\<close>

datatype main_pc = Scanning nat | Prepared nat | Accepted nat | Refused nat

datatype worker_pc = Looking nat | Copied nat | Freed nat

record handover =
  h_queue :: "client list"
  h_main :: main_pc
  h_worker :: "int \<Rightarrow> worker_pc"
  h_clients :: "int \<Rightarrow> int list"
  h_lazy :: int
  h_accepted :: "int list"
  h_closed :: "int list"

abbreviation set_slot :: "nat \<Rightarrow> (client \<Rightarrow> client) \<Rightarrow> handover \<Rightarrow> handover" where
  "set_slot i f s \<equiv> s\<lparr>h_queue := (h_queue s)[i := f (h_queue s ! i)]\<rparr>"

text \<open>The main thread: look for an empty slot, clear its \<open>thread\<close>, accept into its \<open>socket\<close>,
  assign it.\<close>

inductive main_step :: "handover \<Rightarrow> handover \<Rightarrow> bool" where
  next_slot: "h_main s = Scanning i \<Longrightarrow> i < length (h_queue s) \<Longrightarrow> cl_socket (h_queue s ! i) \<noteq> 0 \<Longrightarrow>
    main_step s (s\<lparr>h_main := Scanning (Suc i mod length (h_queue s))\<rparr>)"
| prepare: "h_main s = Scanning i \<Longrightarrow> i < length (h_queue s) \<Longrightarrow> cl_socket (h_queue s ! i) = 0 \<Longrightarrow>
    main_step s ((set_slot i (\<lambda>c. c\<lparr>cl_thread := 0\<rparr>) s)\<lparr>h_main := Prepared i\<rparr>)"
| accepted: "h_main s = Prepared i \<Longrightarrow> fd \<noteq> 0 \<Longrightarrow>
    main_step s ((set_slot i (\<lambda>c. c\<lparr>cl_socket := fd\<rparr>) s)\<lparr>h_main := Accepted i, h_accepted := h_accepted s @ [fd]\<rparr>)"
| refused: "h_main s = Prepared i \<Longrightarrow>
    main_step s ((set_slot i (\<lambda>c. c\<lparr>cl_socket := -1\<rparr>) s)\<lparr>h_main := Refused i\<rparr>)"
| clear: "h_main s = Refused i \<Longrightarrow>
    main_step s ((set_slot i (\<lambda>c. c\<lparr>cl_socket := 0\<rparr>) s)\<lparr>h_main := Scanning 0\<rparr>)"
| assign: "h_main s = Accepted i \<Longrightarrow>
    main_step s ((set_slot i (\<lambda>c. c\<lparr>cl_thread := h_lazy s\<rparr>) s)\<lparr>h_main := Scanning 0\<rparr>)"

text \<open>A worker at slot \<open>i\<close>: pass it, or copy it to the buffer and clear \<open>thread\<close>, then
  \<open>socket\<close>. In its cleanup it closes the connection instead of copying it, or gives the slot
  to the laziest worker.\<close>

inductive slot_step :: "int \<Rightarrow> handover \<Rightarrow> handover \<Rightarrow> bool" for t where
  pass: "h_worker s t = Looking i \<Longrightarrow> i < length (h_queue s) \<Longrightarrow> cl_thread (h_queue s ! i) \<noteq> t \<Longrightarrow>
    slot_step t s (s\<lparr>h_worker := (h_worker s)(t := Looking (Suc i mod length (h_queue s)))\<rparr>)"
| copy: "h_worker s t = Looking i \<Longrightarrow> i < length (h_queue s) \<Longrightarrow> cl_thread (h_queue s ! i) = t \<Longrightarrow>
    slot_step t s (s\<lparr>h_worker := (h_worker s)(t := Copied i),
      h_clients := (h_clients s)(t := h_clients s t @ [cl_socket (h_queue s ! i)])\<rparr>)"
| free_thread: "h_worker s t = Copied i \<Longrightarrow>
    slot_step t s ((set_slot i (\<lambda>c. c\<lparr>cl_thread := 0\<rparr>) s)\<lparr>h_worker := (h_worker s)(t := Freed i)\<rparr>)"
| free_socket: "h_worker s t = Freed i \<Longrightarrow>
    slot_step t s ((set_slot i (\<lambda>c. c\<lparr>cl_socket := 0\<rparr>) s)
      \<lparr>h_worker := (h_worker s)(t := Looking (Suc i mod length (h_queue s)))\<rparr>)"
| close_queued: "h_worker s t = Looking i \<Longrightarrow> i < length (h_queue s) \<Longrightarrow> cl_thread (h_queue s ! i) = t \<Longrightarrow>
    slot_step t s (s\<lparr>h_worker := (h_worker s)(t := Copied i), h_closed := h_closed s @ [cl_socket (h_queue s ! i)]\<rparr>)"
| reassign: "h_worker s t = Looking i \<Longrightarrow> i < length (h_queue s) \<Longrightarrow> cl_thread (h_queue s ! i) = t \<Longrightarrow>
    slot_step t s ((set_slot i (\<lambda>c. c\<lparr>cl_thread := h_lazy s\<rparr>) s)
      \<lparr>h_worker := (h_worker s)(t := Looking (Suc i mod length (h_queue s)))\<rparr>)"
| close_client: "h_worker s t = Looking i \<Longrightarrow> fd \<in> set (h_clients s t) \<Longrightarrow>
    slot_step t s (s\<lparr>h_clients := (h_clients s)(t := remove1 fd (h_clients s t)), h_closed := h_closed s @ [fd]\<rparr>)"

text \<open>The whole system, with the workers \<open>W\<close>; any of them may become the laziest at any time.\<close>

inductive handover_step :: "int set \<Rightarrow> handover \<Rightarrow> handover \<Rightarrow> bool" for W where
  main: "main_step s s' \<Longrightarrow> handover_step W s s'"
| worker: "t \<in> W \<Longrightarrow> slot_step t s s' \<Longrightarrow> handover_step W s s'"
| laziest: "t \<in> W \<Longrightarrow> handover_step W s (s\<lparr>h_lazy := t\<rparr>)"

inductive reachable :: "int set \<Rightarrow> nat \<Rightarrow> handover \<Rightarrow> bool" for W n where
  start: "0 < n \<Longrightarrow> h_queue s = replicate n fresh_slot \<Longrightarrow> h_main s = Scanning 0 \<Longrightarrow> h_lazy s \<in> W \<Longrightarrow>
    (\<And>t. h_worker s t = Looking 0) \<Longrightarrow> (\<And>t. h_clients s t = []) \<Longrightarrow> h_accepted s = [] \<Longrightarrow> h_closed s = [] \<Longrightarrow>
    reachable W n s"
| step: "reachable W n s \<Longrightarrow> handover_step W s s' \<Longrightarrow> reachable W n s'"

section \<open>The invariant\<close>

definition busy :: "handover \<Rightarrow> int \<Rightarrow> nat \<Rightarrow> bool" where
  "busy s t i \<longleftrightarrow> h_worker s t = Copied i \<or> h_worker s t = Freed i"

text \<open>The slots whose connection no worker has taken yet.\<close>

definition waiting :: "int set \<Rightarrow> handover \<Rightarrow> nat \<Rightarrow> bool" where
  "waiting W s i \<longleftrightarrow> cl_socket (h_queue s ! i) \<noteq> 0 \<and> (\<forall>t\<in>W. \<not> busy s t i) \<and> h_main s \<noteq> Refused i"

definition at_slot :: "int set \<Rightarrow> handover \<Rightarrow> nat \<Rightarrow> int multiset" where
  "at_slot W s i = (if waiting W s i then {#cl_socket (h_queue s ! i)#} else {#})"

definition in_queue :: "int set \<Rightarrow> handover \<Rightarrow> int multiset" where
  "in_queue W s = (\<Sum>i < length (h_queue s). at_slot W s i)"

definition in_buffers :: "int set \<Rightarrow> handover \<Rightarrow> int multiset" where
  "in_buffers W s = (\<Sum>t\<in>W. mset (h_clients s t))"

definition main_ok :: "int set \<Rightarrow> handover \<Rightarrow> bool" where
  "main_ok W s \<longleftrightarrow>
     (case h_main s of
        Scanning i \<Rightarrow> i < length (h_queue s)
      | Prepared i \<Rightarrow> i < length (h_queue s) \<and> cl_thread (h_queue s ! i) = 0 \<and> cl_socket (h_queue s ! i) = 0
      | Accepted i \<Rightarrow> i < length (h_queue s) \<and> cl_thread (h_queue s ! i) = 0 \<and> cl_socket (h_queue s ! i) \<noteq> 0 \<and> (\<forall>t\<in>W. \<not> busy s t i)
      | Refused i \<Rightarrow> i < length (h_queue s) \<and> cl_thread (h_queue s ! i) = 0 \<and> cl_socket (h_queue s ! i) \<noteq> 0 \<and> (\<forall>t\<in>W. \<not> busy s t i))"

definition workers_ok :: "int set \<Rightarrow> handover \<Rightarrow> bool" where
  "workers_ok W s \<longleftrightarrow>
     (\<forall>t\<in>W. \<forall>i. busy s t i \<longrightarrow> i < length (h_queue s) \<and> cl_socket (h_queue s ! i) \<noteq> 0 \<and>
        cl_thread (h_queue s ! i) = (if h_worker s t = Copied i then t else 0) \<and>
        (\<forall>t'\<in>W. busy s t' i \<longrightarrow> t' = t)) \<and>
     (\<forall>i < length (h_queue s). cl_thread (h_queue s ! i) \<noteq> 0 \<longrightarrow> cl_socket (h_queue s ! i) \<noteq> 0)"

definition handover_ok :: "int set \<Rightarrow> handover \<Rightarrow> bool" where
  "handover_ok W s \<longleftrightarrow> main_ok W s \<and> workers_ok W s \<and> h_lazy s \<in> W \<and>
     mset (h_accepted s) = in_queue W s + in_buffers W s + mset (h_closed s)"

section \<open>It is kept by every step\<close>

lemma in_queue_change:
  assumes "length (h_queue s') = length (h_queue s)" "j < length (h_queue s)"
    and "\<And>i. i < length (h_queue s) \<Longrightarrow> i \<noteq> j \<Longrightarrow> at_slot W s' i = at_slot W s i"
  shows "in_queue W s' + at_slot W s j = in_queue W s + at_slot W s' j"
proof -
  let ?I = "{..<length (h_queue s)}"
  have "sum (at_slot W s') ?I = at_slot W s' j + sum (at_slot W s') (?I - {j})"
    "sum (at_slot W s) ?I = at_slot W s j + sum (at_slot W s) (?I - {j})"
    using assms(2) by (auto intro: sum.remove)
  moreover have "sum (at_slot W s') (?I - {j}) = sum (at_slot W s) (?I - {j})"
    using assms(3) by (intro sum.cong) auto
  ultimately show ?thesis
    by (simp add: in_queue_def assms(1) ac_simps)
qed

lemma in_queue_same:
  assumes "length (h_queue s') = length (h_queue s)" "\<And>i. i < length (h_queue s) \<Longrightarrow> at_slot W s' i = at_slot W s i"
  shows "in_queue W s' = in_queue W s"
proof -
  have "sum (at_slot W s') {..<length (h_queue s)} = sum (at_slot W s) {..<length (h_queue s)}"
    using assms(2) by (intro sum.cong) auto
  then show ?thesis by (simp add: in_queue_def assms(1))
qed

lemma same_queue:
  assumes "h_queue s' = h_queue s" "h_main s' = h_main s" "h_worker s' = h_worker s"
  shows "in_queue W s' = in_queue W s" "main_ok W s' = main_ok W s" "workers_ok W s' = workers_ok W s"
proof -
  have b: "busy s' = busy s" using assms(3) by (simp add: busy_def [abs_def])
  show "in_queue W s' = in_queue W s"
    by (rule in_queue_same) (simp_all add: at_slot_def waiting_def b assms)
  show "main_ok W s' = main_ok W s" by (cases "h_main s") (simp_all add: main_ok_def b assms)
  show "workers_ok W s' = workers_ok W s" by (simp add: workers_ok_def b assms)
qed

lemma in_buffers_change:
  assumes "finite W" "t \<in> W" "\<And>t'. t' \<noteq> t \<Longrightarrow> h_clients s' t' = h_clients s t'"
  shows "in_buffers W s' + mset (h_clients s t) = in_buffers W s + mset (h_clients s' t)"
proof -
  have split: "(\<Sum>t\<in>W. mset (h_clients x t)) = mset (h_clients x t) + (\<Sum>t\<in>W - {t}. mset (h_clients x t))" for x
    using assms(1,2) by (rule sum.remove)
  have "(\<Sum>t\<in>W - {t}. mset (h_clients s' t)) = (\<Sum>t\<in>W - {t}. mset (h_clients s t))"
    using assms(3) by (intro sum.cong) auto
  then show ?thesis using split [of s] split [of s'] by (simp add: in_buffers_def)
qed

lemmas handover_defs = main_ok_def workers_ok_def busy_def

lemma main_step_ok:
  assumes "main_step s s'" "handover_ok W s" "0 \<notin> W"
  shows "handover_ok W s'"
  using assms(1)
proof cases
  case (next_slot i)
  have "i < length (h_queue s) \<Longrightarrow> Suc i mod length (h_queue s) < length (h_queue s)" by (intro mod_less_divisor) auto
  moreover have "in_queue W s' = in_queue W s"
    by (rule in_queue_same) (auto simp: next_slot at_slot_def waiting_def busy_def)
  ultimately show ?thesis
    using assms(2) next_slot by (auto simp: handover_ok_def handover_defs in_buffers_def)
next
  case (prepare i)
  have "in_queue W s' = in_queue W s"
    by (rule in_queue_same) (use prepare in \<open>auto simp: at_slot_def waiting_def busy_def nth_list_update\<close>)
  moreover have "main_ok W s'" using prepare by (simp add: main_ok_def)
  moreover have "\<not> busy s t i" if "t \<in> W" for t
    using assms(2) prepare(4) that by (auto simp: handover_ok_def workers_ok_def)
  then have "workers_ok W s'"
    using assms(2) prepare by (auto simp: handover_ok_def workers_ok_def busy_def nth_list_update)
  ultimately show ?thesis using assms(2) prepare by (simp add: handover_ok_def in_buffers_def)
next
  case (accepted i fd)
  from assms(2) accepted have i: "i < length (h_queue s)" "cl_socket (h_queue s ! i) = 0" "cl_thread (h_queue s ! i) = 0"
    by (auto simp: handover_ok_def main_ok_def)
  have free: "\<not> busy s t i" if "t \<in> W" for t
    using assms(2) i(2) that by (auto simp: handover_ok_def workers_ok_def)
  have "in_queue W s' + at_slot W s i = in_queue W s + at_slot W s' i"
    by (rule in_queue_change) (use accepted i(1) in \<open>auto simp: at_slot_def waiting_def busy_def nth_list_update\<close>)
  moreover have "at_slot W s i = {#}" "at_slot W s' i = {#fd#}"
    using accepted i free by (auto simp: at_slot_def waiting_def busy_def)
  moreover have "main_ok W s'" using accepted i free by (auto simp: main_ok_def busy_def)
  moreover have "workers_ok W s'"
    using assms(2) accepted i free by (auto simp: handover_ok_def workers_ok_def busy_def nth_list_update)
  ultimately show ?thesis using assms(2) accepted by (simp add: handover_ok_def in_buffers_def)
next
  case (refused i)
  from assms(2) refused have i: "i < length (h_queue s)" "cl_socket (h_queue s ! i) = 0" "cl_thread (h_queue s ! i) = 0"
    by (auto simp: handover_ok_def main_ok_def)
  have free: "\<not> busy s t i" if "t \<in> W" for t
    using assms(2) i(2) that by (auto simp: handover_ok_def workers_ok_def)
  have "in_queue W s' = in_queue W s"
    by (rule in_queue_same) (use refused i in \<open>auto simp: at_slot_def waiting_def busy_def nth_list_update\<close>)
  moreover have "main_ok W s'" using refused i free by (auto simp: main_ok_def busy_def)
  moreover have "workers_ok W s'"
    using assms(2) refused i free by (auto simp: handover_ok_def workers_ok_def busy_def nth_list_update)
  ultimately show ?thesis using assms(2) refused by (simp add: handover_ok_def in_buffers_def)
next
  case (clear i)
  from assms(2) clear have i: "i < length (h_queue s)" "cl_thread (h_queue s ! i) = 0"
    and free: "\<And>t. t \<in> W \<Longrightarrow> \<not> busy s t i" by (auto simp: handover_ok_def main_ok_def)
  have "in_queue W s' = in_queue W s"
    by (rule in_queue_same) (use clear i in \<open>auto simp: at_slot_def waiting_def busy_def nth_list_update\<close>)
  moreover have "main_ok W s'" using clear i by (auto simp: main_ok_def)
  moreover have "workers_ok W s'"
    using assms(2) clear i free by (auto simp: handover_ok_def workers_ok_def busy_def nth_list_update)
  ultimately show ?thesis using assms(2) clear by (simp add: handover_ok_def in_buffers_def)
next
  case (assign i)
  from assms(2) assign have i: "i < length (h_queue s)" "cl_socket (h_queue s ! i) \<noteq> 0"
    and free: "\<And>t. t \<in> W \<Longrightarrow> \<not> busy s t i" by (auto simp: handover_ok_def main_ok_def)
  have "in_queue W s' = in_queue W s"
    by (rule in_queue_same) (use assign i in \<open>auto simp: at_slot_def waiting_def busy_def nth_list_update\<close>)
  moreover have "main_ok W s'" using assign i by (auto simp: main_ok_def)
  moreover have "workers_ok W s'"
    using assms(2) assign i free by (auto simp: handover_ok_def workers_ok_def busy_def nth_list_update)
  ultimately show ?thesis using assms(2) assign by (simp add: handover_ok_def in_buffers_def)
qed

text \<open>A worker takes the connection of a slot that is assigned to it.\<close>

lemma taken:
  assumes "handover_ok W s" "t \<in> W" "0 \<notin> W"
    and "h_worker s t = Looking i" "i < length (h_queue s)" "cl_thread (h_queue s ! i) = t"
    and "h_queue s' = h_queue s" "h_main s' = h_main s" "h_worker s' = (h_worker s)(t := Copied i)"
  shows "in_queue W s = in_queue W s' + {#cl_socket (h_queue s ! i)#}" "main_ok W s'" "workers_ok W s'"
proof -
  have t0: "t \<noteq> 0" using assms(2,3) by auto
  with assms have i: "cl_socket (h_queue s ! i) \<noteq> 0" by (auto simp: handover_ok_def workers_ok_def)
  have free: "\<not> busy s t' i" if "t' \<in> W" for t'
  proof
    assume b: "busy s t' i"
    with assms(1,6) that t0 have "h_worker s t' = Copied i" "t' = t"
      by (auto simp: handover_ok_def workers_ok_def split: if_splits)
    with assms(4) show False by simp
  qed
  have notmain: "h_main s \<noteq> Refused i" "h_main s \<noteq> Prepared i" "h_main s \<noteq> Accepted i"
    using assms(1,6) t0 by (auto simp: handover_ok_def main_ok_def)
  have "in_queue W s' + at_slot W s i = in_queue W s + at_slot W s' i"
    by (rule in_queue_change) (use assms in \<open>auto simp: at_slot_def waiting_def busy_def\<close>)
  moreover have "at_slot W s i = {#cl_socket (h_queue s ! i)#}" "at_slot W s' i = {#}"
    using assms i free notmain by (auto simp: at_slot_def waiting_def busy_def)
  ultimately show "in_queue W s = in_queue W s' + {#cl_socket (h_queue s ! i)#}" by simp
  show "main_ok W s'"
    using assms notmain by (auto simp: handover_ok_def main_ok_def busy_def split: main_pc.splits if_splits)
  show "workers_ok W s'"
    using assms i free by (auto simp: handover_ok_def workers_ok_def busy_def)
qed

lemma workers_ok_slot:
  assumes ok: "workers_ok W s" and q: "h_queue s' = (h_queue s)[i := c]" "i < length (h_queue s)"
    and other: "\<And>t' k. t' \<in> W \<Longrightarrow> k \<noteq> i \<Longrightarrow> (h_worker s' t' = Copied k \<longleftrightarrow> h_worker s t' = Copied k) \<and>
        (h_worker s' t' = Freed k \<longleftrightarrow> h_worker s t' = Freed k)"
    and here: "\<And>t'. t' \<in> W \<Longrightarrow> busy s' t' i \<Longrightarrow>
        t' = t \<and> cl_socket c \<noteq> 0 \<and> cl_thread c = (if h_worker s' t' = Copied i then t' else 0)"
    and full: "cl_thread c \<noteq> 0 \<Longrightarrow> cl_socket c \<noteq> 0"
  shows "workers_ok W s'"
  unfolding workers_ok_def
proof (intro conjI ballI allI impI)
  fix t' k
  assume t': "t' \<in> W" and b: "busy s' t' k"
  have old: "busy s t'' k = busy s' t'' k" if "k \<noteq> i" "t'' \<in> W" for t''
    using other [OF that(2,1)] by (simp add: busy_def)
  from ok t' have w: "busy s t' k \<Longrightarrow> k < length (h_queue s) \<and> cl_socket (h_queue s ! k) \<noteq> 0 \<and>
      cl_thread (h_queue s ! k) = (if h_worker s t' = Copied k then t' else 0) \<and> (\<forall>t''\<in>W. busy s t'' k \<longrightarrow> t'' = t')"
    unfolding workers_ok_def by blast
  show "k < length (h_queue s')" using b q w old [OF _ t'] by (cases "k = i") auto
  show "cl_socket (h_queue s' ! k) \<noteq> 0" using b q w old [OF _ t'] here [OF t'] by (cases "k = i") auto
  show "cl_thread (h_queue s' ! k) = (if h_worker s' t' = Copied k then t' else 0)"
    using b q w old [OF _ t'] here [OF t'] other [OF t', of k] by (cases "k = i") auto
  fix t''
  assume t'': "t'' \<in> W" "busy s' t'' k"
  show "t'' = t'"
  proof (cases "k = i")
    case True
    then show ?thesis using here [OF t'] here [OF t''(1)] b t''(2) by simp
  next
    case False
    then show ?thesis using w old [OF False t'] old [OF False t''(1)] b t'' by simp
  qed
next
  fix k
  assume "k < length (h_queue s')" "cl_thread (h_queue s' ! k) \<noteq> 0"
  with ok q full show "cl_socket (h_queue s' ! k) \<noteq> 0" by (cases "k = i") (auto simp: workers_ok_def)
qed

lemma free_thread_ok:
  assumes "s' = (set_slot i (\<lambda>c. c\<lparr>cl_thread := 0\<rparr>) s)\<lparr>h_worker := (h_worker s)(t := Freed i)\<rparr>"
    and "handover_ok W s" "t \<in> W" "0 \<notin> W" "finite W"
    and "h_worker s t = Copied i"
  shows "handover_ok W s'"
proof -
  note free_thread = assms(1,6)
  have b: "busy s t i" using free_thread by (simp add: busy_def)
  with assms(2,3) have i: "i < length (h_queue s)" "cl_socket (h_queue s ! i) \<noteq> 0"
    and only: "\<And>t'. t' \<in> W \<Longrightarrow> busy s t' i \<Longrightarrow> t' = t" by (auto simp: handover_ok_def workers_ok_def)
  have "in_queue W s' = in_queue W s"
  proof (rule in_queue_same)
    fix k
    assume "k < length (h_queue s)"
    have "busy s' t' k = busy s t' k" for t' using free_thread by (auto simp: busy_def)
    then show "at_slot W s' k = at_slot W s k"
      using free_thread i by (auto simp: at_slot_def waiting_def nth_list_update)
  qed (simp add: free_thread)
  moreover have "main_ok W s'"
    using assms(2,3) free_thread b i by (auto simp: handover_ok_def main_ok_def busy_def nth_list_update split: main_pc.splits)
  moreover have "workers_ok W s'"
  proof (rule workers_ok_slot [where s = s and i = i and t = t])
    show "workers_ok W s" using assms(2) by (simp add: handover_ok_def)
    fix t'
    assume t': "t' \<in> W" "busy s' t' i"
    have "t' = t" using only [OF t'(1)] t'(2) free_thread(1) by (cases "t' = t") (simp_all add: busy_def)
    moreover have "h_worker s' t = Freed i" using free_thread(1) by simp
    ultimately show "t' = t \<and> cl_socket ((h_queue s ! i)\<lparr>cl_thread := 0\<rparr>) \<noteq> 0 \<and>
        cl_thread ((h_queue s ! i)\<lparr>cl_thread := 0\<rparr>) = (if h_worker s' t' = Copied i then t' else 0)"
      using i by simp
  qed (use i free_thread in auto)
  ultimately show ?thesis using assms(2) free_thread by (simp add: handover_ok_def in_buffers_def)
qed

lemma free_socket_ok:
  assumes "s' = (set_slot i (\<lambda>c. c\<lparr>cl_socket := 0\<rparr>) s)
      \<lparr>h_worker := (h_worker s)(t := Looking (Suc i mod length (h_queue s)))\<rparr>"
    and "handover_ok W s" "t \<in> W" "0 \<notin> W" "finite W"
    and "h_worker s t = Freed i"
  shows "handover_ok W s'"
proof -
  note free_socket = assms(1,6)
  have b: "busy s t i" using free_socket by (simp add: busy_def)
  with assms(2,3) have i: "i < length (h_queue s)" "cl_socket (h_queue s ! i) \<noteq> 0" "cl_thread (h_queue s ! i) = 0"
    and only: "\<And>t'. t' \<in> W \<Longrightarrow> busy s t' i \<Longrightarrow> t' = t"
    using free_socket by (auto simp: handover_ok_def workers_ok_def)
  have "in_queue W s' + at_slot W s i = in_queue W s + at_slot W s' i"
    by (rule in_queue_change) (use free_socket i in \<open>auto simp: at_slot_def waiting_def busy_def\<close>)
  moreover have "at_slot W s i = {#}" "at_slot W s' i = {#}"
    using free_socket i b assms(3) by (auto simp: at_slot_def waiting_def busy_def)
  moreover have "main_ok W s'"
    using assms(2,3) free_socket b i by (auto simp: handover_ok_def main_ok_def busy_def nth_list_update split: main_pc.splits)
  moreover have "workers_ok W s'"
  proof (rule workers_ok_slot [where s = s and i = i and t = t])
    show "workers_ok W s" using assms(2) by (simp add: handover_ok_def)
    fix t'
    assume t': "t' \<in> W" "busy s' t' i"
    have "t' = t" using only [OF t'(1)] t'(2) free_socket(1) by (cases "t' = t") (simp_all add: busy_def)
    with t'(2) have False using free_socket(1) by (simp add: busy_def)
    then show "t' = t \<and> cl_socket ((h_queue s ! i)\<lparr>cl_socket := 0\<rparr>) \<noteq> 0 \<and>
        cl_thread ((h_queue s ! i)\<lparr>cl_socket := 0\<rparr>) = (if h_worker s' t' = Copied i then t' else 0)" ..
  qed (use i free_socket in auto)
  ultimately show ?thesis using assms(2) free_socket by (simp add: handover_ok_def in_buffers_def)
qed

lemma reassign_ok:
  assumes "s' = (set_slot i (\<lambda>c. c\<lparr>cl_thread := h_lazy s\<rparr>) s)
      \<lparr>h_worker := (h_worker s)(t := Looking (Suc i mod length (h_queue s)))\<rparr>"
    and "handover_ok W s" "t \<in> W" "0 \<notin> W" "finite W"
    and "h_worker s t = Looking i" "i < length (h_queue s)" "cl_thread (h_queue s ! i) = t"
  shows "handover_ok W s'"
proof -
  note reassign = assms(1,6,7,8)
  have t0: "t \<noteq> 0" using assms(3,4) by auto
  with assms(2) reassign have i: "cl_socket (h_queue s ! i) \<noteq> 0" by (auto simp: handover_ok_def workers_ok_def)
  have free: "\<not> busy s t' i" if "t' \<in> W" for t'
  proof
    assume b: "busy s t' i"
    with assms(2) that reassign(4) t0 have "h_worker s t' = Copied i" "t' = t"
      by (auto simp: handover_ok_def workers_ok_def split: if_splits)
    with reassign(2) show False by simp
  qed
  have notmain: "h_main s \<noteq> Refused i" "h_main s \<noteq> Prepared i" "h_main s \<noteq> Accepted i"
    using assms(2) reassign(4) t0 by (auto simp: handover_ok_def main_ok_def)
  have same: "busy s' t' k = busy s t' k" for t' k using reassign by (auto simp: busy_def)
  have "in_queue W s' = in_queue W s"
    by (rule in_queue_same) (use reassign same in \<open>auto simp: at_slot_def waiting_def nth_list_update\<close>)
  moreover have "main_ok W s'"
    using assms(2) notmain same reassign by (auto simp: handover_ok_def main_ok_def nth_list_update split: main_pc.splits)
  moreover have "workers_ok W s'"
  proof (rule workers_ok_slot [where s = s and i = i and t = t])
    show "workers_ok W s" using assms(2) by (simp add: handover_ok_def)
    fix t'
    assume "t' \<in> W" "busy s' t' i"
    with same free have False by blast
    then show "t' = t \<and> cl_socket ((h_queue s ! i)\<lparr>cl_thread := h_lazy s\<rparr>) \<noteq> 0 \<and>
        cl_thread ((h_queue s ! i)\<lparr>cl_thread := h_lazy s\<rparr>) = (if h_worker s' t' = Copied i then t' else 0)" ..
  qed (use i reassign in auto)
  ultimately show ?thesis using assms(2) reassign by (simp add: handover_ok_def in_buffers_def)
qed

lemma slot_step_ok:
  assumes "slot_step t s s'" "handover_ok W s" "t \<in> W" "0 \<notin> W" "finite W"
  shows "handover_ok W s'"
  using assms(1)
proof cases
  case (pass i)
  have "in_queue W s' = in_queue W s"
    by (rule in_queue_same) (use pass in \<open>auto simp: at_slot_def waiting_def busy_def\<close>)
  then show ?thesis
    using assms(2) pass by (auto simp: handover_ok_def handover_defs in_buffers_def split: main_pc.splits)
next
  case (copy i)
  note t = taken [OF assms(2,3,4) copy(2-4), of s']
  have "in_buffers W s' + mset (h_clients s t) = in_buffers W s + mset (h_clients s' t)"
    by (rule in_buffers_change [OF assms(5,3)]) (simp add: copy)
  then have "in_buffers W s' = in_buffers W s + {#cl_socket (h_queue s ! i)#}" using copy by simp
  with t assms(2) copy show ?thesis by (simp add: handover_ok_def)
next
  case (free_thread i)
  from free_thread_ok [OF free_thread(1) assms(2-5) free_thread(2)] show ?thesis .
next
  case (free_socket i)
  from free_socket_ok [OF free_socket(1) assms(2-5) free_socket(2)] show ?thesis .
next
  case (close_queued i)
  note t = taken [OF assms(2,3,4) close_queued(2-4), of s']
  have "in_buffers W s' = in_buffers W s" by (simp add: in_buffers_def close_queued)
  with t assms(2) close_queued show ?thesis by (simp add: handover_ok_def)
next
  case (reassign i)
  from reassign_ok [OF reassign(1) assms(2-5) reassign(2,3,4)] show ?thesis .
next
  case (close_client i fd)
  have same: "in_queue W s' = in_queue W s" "main_ok W s' = main_ok W s" "workers_ok W s' = workers_ok W s"
    by (rule same_queue; simp add: close_client)+
  obtain M where M: "mset (h_clients s t) = add_mset fd M" using close_client(3) by (metis mset_add set_mset_mset)
  have "in_buffers W s' + mset (h_clients s t) = in_buffers W s + mset (h_clients s' t)"
    by (rule in_buffers_change [OF assms(5,3)]) (simp add: close_client)
  then have "in_buffers W s = add_mset fd (in_buffers W s')" using M close_client(1) by simp
  with same assms(2) close_client(1) show ?thesis by (simp add: handover_ok_def)
qed

lemma handover_step_ok:
  assumes "handover_step W s s'" "handover_ok W s" "0 \<notin> W" "finite W"
  shows "handover_ok W s'"
  using assms(1)
proof cases
  case main
  with main_step_ok assms show ?thesis by blast
next
  case (worker t)
  with slot_step_ok assms show ?thesis by blast
next
  case (laziest t)
  have "in_queue W s' = in_queue W s" "main_ok W s' = main_ok W s" "workers_ok W s' = workers_ok W s"
    by (rule same_queue; simp add: laziest)+
  with laziest assms(2) show ?thesis by (simp add: handover_ok_def in_buffers_def)
qed

lemma reachable_ok:
  assumes "reachable W n s" "finite W" "0 \<notin> W"
  shows "handover_ok W s"
  using assms(1)
proof induction
  case (start s)
  then have "at_slot W s i = {#}" if "i < n" for i
    using that by (simp add: at_slot_def waiting_def fresh_slot_def)
  with start have "in_queue W s = {#}" by (simp add: in_queue_def)
  moreover have "in_buffers W s = {#}" using start by (simp add: in_buffers_def)
  ultimately show ?case
    using start by (auto simp: handover_ok_def handover_defs fresh_slot_def)
next
  case (step s s')
  from handover_step_ok [OF step.hyps(2) step.IH assms(3,2)] show ?case .
qed

text \<open>The three steps with which a worker takes a slot, with nothing of the others between them, are the
  assignment to the slot in \<open>copy_slot\<close>.\<close>

lemma take_steps:
  assumes "h_worker s t = Looking i" "i < length (h_queue s)" "cl_thread (h_queue s ! i) = t"
  shows "\<exists>s1 s2 s3. slot_step t s s1 \<and> slot_step t s1 s2 \<and> slot_step t s2 s3 \<and>
    h_queue s3 = (h_queue s)[i := release_slot (h_queue s ! i)] \<and>
    h_clients s3 t = h_clients s t @ [cl_socket (take_slot (h_queue s ! i))] \<and> h_main s3 = h_main s"
proof -
  define s1 where "s1 = s\<lparr>h_worker := (h_worker s)(t := Copied i),
      h_clients := (h_clients s)(t := h_clients s t @ [cl_socket (h_queue s ! i)])\<rparr>"
  define s2 where "s2 = (set_slot i (\<lambda>c. c\<lparr>cl_thread := 0\<rparr>) s1)\<lparr>h_worker := (h_worker s1)(t := Freed i)\<rparr>"
  define s3 where "s3 = (set_slot i (\<lambda>c. c\<lparr>cl_socket := 0\<rparr>) s2)
      \<lparr>h_worker := (h_worker s2)(t := Looking (Suc i mod length (h_queue s2)))\<rparr>"
  have "slot_step t s s1" unfolding s1_def using assms by (rule slot_step.copy)
  moreover have "slot_step t s1 s2" unfolding s2_def by (rule slot_step.free_thread) (simp add: s1_def)
  moreover have "slot_step t s2 s3" unfolding s3_def by (rule slot_step.free_socket) (simp add: s2_def)
  moreover have "h_queue s3 = (h_queue s)[i := release_slot (h_queue s ! i)]"
    using assms(2) by (simp add: s3_def s2_def s1_def release_slot_def)
  moreover have "h_clients s3 t = h_clients s t @ [cl_socket (take_slot (h_queue s ! i))]" "h_main s3 = h_main s"
    by (simp_all add: s3_def s2_def s1_def take_slot_def)
  ultimately show ?thesis by blast
qed

section \<open>Properties\<close>

text \<open>C2: the accept queue loses no connection and duplicates none, under every interleaving of the main
  thread and any number of workers: at every moment, each accepted connection is in exactly one
  place, in the queue and not yet taken, in the buffer of one worker, or closed. No two workers ever
  have the same one.\<close>

theorem accept_queue_conserves:
  assumes "reachable W n s" "finite W" "0 \<notin> W"
  shows "mset (h_accepted s) = in_queue W s + in_buffers W s + mset (h_closed s) \<and>
    (distinct (h_accepted s) \<longrightarrow>
      (\<forall>t\<in>W. \<forall>t'\<in>W. t \<noteq> t' \<longrightarrow> set (h_clients s t) \<inter> set (h_clients s t') = {}))"
proof -
  have eq: "mset (h_accepted s) = in_queue W s + in_buffers W s + mset (h_closed s)"
    using reachable_ok [OF assms] by (simp add: handover_ok_def)
  have "False" if "distinct (h_accepted s)" "t \<in> W" "t' \<in> W" "t \<noteq> t'" "fd \<in> set (h_clients s t)" "fd \<in> set (h_clients s t')" for t t' fd
  proof -
    have "in_buffers W s = mset (h_clients s t) + (\<Sum>t\<in>W - {t}. mset (h_clients s t))"
      unfolding in_buffers_def using assms(2) that(2) by (rule sum.remove)
    moreover have "(\<Sum>t\<in>W - {t}. mset (h_clients s t)) = mset (h_clients s t') + (\<Sum>t\<in>W - {t} - {t'}. mset (h_clients s t))"
      using assms(2) that(3,4) by (intro sum.remove) auto
    ultimately have "count (mset (h_accepted s)) fd = count (in_queue W s) fd + (count (mset (h_clients s t)) fd +
        (count (mset (h_clients s t')) fd + count (\<Sum>t\<in>W - {t} - {t'}. mset (h_clients s t)) fd)) + count (mset (h_closed s)) fd"
      by (simp add: eq)
    moreover have "0 < count (mset (h_clients s t)) fd" "0 < count (mset (h_clients s t')) fd"
      using that(5,6) by (simp_all only: count_greater_zero_iff set_mset_mset)
    ultimately have "2 \<le> count (mset (h_accepted s)) fd" by linarith
    moreover have "count (mset (h_accepted s)) fd \<le> 1" using that(1) by (simp add: distinct_count_atmost_1)
    ultimately show False by simp
  qed
  with eq show ?thesis by blast
qed

section \<open>Witnesses\<close>

definition empty_handover :: handover where
  "empty_handover = \<lparr>h_queue = [fresh_slot], h_main = Scanning 0, h_worker = (\<lambda>_. Looking 0), h_clients = (\<lambda>_. []),
     h_lazy = 1, h_accepted = [], h_closed = []\<rparr>"

theorem accept_queue_conserves_witness:
  "\<exists>s. reachable {1} 1 s \<and> h_accepted s = [5] \<and>
     mset (h_accepted s) = in_queue {1} s + in_buffers {1} s + mset (h_closed s)"
proof -
  define s1 where "s1 = (set_slot 0 (\<lambda>c. c\<lparr>cl_thread := 0\<rparr>) empty_handover)\<lparr>h_main := Prepared 0\<rparr>"
  define s2 where "s2 = (set_slot 0 (\<lambda>c. c\<lparr>cl_socket := 5\<rparr>) s1)\<lparr>h_main := Accepted 0, h_accepted := h_accepted s1 @ [5]\<rparr>"
  have "reachable {1} 1 empty_handover" by (rule reachable.start) (simp_all add: empty_handover_def)
  moreover have "main_step empty_handover s1"
    unfolding s1_def by (rule main_step.prepare) (simp_all add: empty_handover_def fresh_slot_def)
  moreover have "main_step s1 s2" unfolding s2_def by (rule main_step.accepted) (simp_all add: s1_def)
  ultimately have r: "reachable {1} 1 s2" by (meson reachable.step handover_step.main)
  have "h_accepted s2 = [5]" by (simp add: s2_def s1_def empty_handover_def)
  with accept_queue_conserves [OF r] r show ?thesis by auto
qed

end
