(* ===== verification/Handover_Code.thy ===== *)
theory Handover_Code
  imports Handover Server_Spec
begin

text \<open>
  The steps of \<open>Handover\<close> and the code. What the other threads do to the queue between two looks of a
  worker satisfies the condition \<open>rely\<close> under which \<open>Thread_Spec\<close> proves the worker right; the three accesses
  with which a worker takes a slot can be taken as one; and the functions of the model are made of these steps.
\<close>

inductive_cases main_stepE: "main_step s s'"
inductive_cases slot_stepE: "slot_step t s s'"

section \<open>The other threads\<close>

text \<open>A step of anybody but the worker \<open>t\<close>.\<close>

inductive others_step :: "int set \<Rightarrow> int \<Rightarrow> handover \<Rightarrow> handover \<Rightarrow> bool" for W t where
  by_main: "main_step s s' \<Longrightarrow> others_step W t s s'"
| by_worker: "t' \<in> W \<Longrightarrow> t' \<noteq> t \<Longrightarrow> slot_step t' s s' \<Longrightarrow> others_step W t s s'"
| new_laziest: "t' \<in> W \<Longrightarrow> others_step W t s (s\<lparr>h_lazy := t'\<rparr>)"

lemma others_step_handover: "others_step W t s s' \<Longrightarrow> handover_step W s s'"
  by (auto elim!: others_step.cases intro: handover_step.intros)

text \<open>The slots of a worker are those assigned to it and the one that it is at work on.\<close>

definition owns :: "handover \<Rightarrow> int \<Rightarrow> nat \<Rightarrow> bool" where
  "owns s t i \<longleftrightarrow> i < length (h_queue s) \<and> (cl_thread (h_queue s ! i) = t \<or> busy s t i)"

lemma owned:
  assumes "handover_ok W s" "t \<in> W" "0 \<notin> W" "owns s t i"
  shows "cl_socket (h_queue s ! i) \<noteq> 0" "h_main s \<notin> {Prepared i, Accepted i, Refused i}"
    "t' \<in> W \<Longrightarrow> t' \<noteq> t \<Longrightarrow> \<not> busy s t' i \<and> cl_thread (h_queue s ! i) \<noteq> t'"
proof -
  have t0: "t \<noteq> 0" using assms(2,3) by auto
  show s: "cl_socket (h_queue s ! i) \<noteq> 0"
    using assms t0 by (auto simp: handover_ok_def workers_ok_def owns_def)
  show "h_main s \<notin> {Prepared i, Accepted i, Refused i}"
    using assms t0 s by (auto simp: handover_ok_def main_ok_def owns_def)
  show "\<not> busy s t' i \<and> cl_thread (h_queue s ! i) \<noteq> t'" if "t' \<in> W" "t' \<noteq> t"
  proof -
    have t': "t' \<noteq> 0" using that assms(3) by auto
    show ?thesis
    proof (cases "busy s t i")
      case True
      with assms(1,2) have "cl_thread (h_queue s ! i) \<in> {t, 0}" "\<forall>t'\<in>W. busy s t' i \<longrightarrow> t' = t"
        by (auto simp: handover_ok_def workers_ok_def)
      with that t' show ?thesis by auto
    next
      case False
      then have th: "cl_thread (h_queue s ! i) = t" using assms(4) by (simp add: owns_def)
      have "\<not> busy s t' i"
      proof
        assume "busy s t' i"
        with assms(1) that(1) have "cl_thread (h_queue s ! i) \<in> {t', 0}" by (auto simp: handover_ok_def workers_ok_def)
        with th that t0 show False by auto
      qed
      with th that show ?thesis by simp
    qed
  qed
qed

lemma others_leave:
  assumes "others_step W t s s'" "handover_ok W s" "t \<in> W" "0 \<notin> W"
  shows "length (h_queue s') = length (h_queue s)" "h_worker s' t = h_worker s t" "h_clients s' t = h_clients s t"
    "owns s t i \<Longrightarrow> h_queue s' ! i = h_queue s ! i"
proof -
  show "length (h_queue s') = length (h_queue s)" "h_worker s' t = h_worker s t" "h_clients s' t = h_clients s t"
    using assms(1) by (auto elim!: others_step.cases main_stepE slot_stepE)
  assume o: "owns s t i"
  note own = owned [OF assms(2-4) o]
  from assms(1) show "h_queue s' ! i = h_queue s ! i"
  proof cases
    case by_main
    then show ?thesis using own(1,2) by (auto elim!: main_stepE simp: nth_list_update)
  next
    case (by_worker t')
    with own(3) [of t'] have "\<not> busy s t' i" "cl_thread (h_queue s ! i) \<noteq> t'" by auto
    with by_worker(3) show ?thesis by (auto elim!: slot_stepE simp: nth_list_update busy_def)
  qed simp
qed

lemma others_run:
  assumes "(others_step W t)\<^sup>*\<^sup>* s s'" "handover_ok W s" "t \<in> W" "0 \<notin> W" "finite W"
  shows "handover_ok W s' \<and> length (h_queue s') = length (h_queue s) \<and> h_worker s' t = h_worker s t \<and>
    h_clients s' t = h_clients s t \<and> (\<forall>i. owns s t i \<longrightarrow> owns s' t i \<and> h_queue s' ! i = h_queue s ! i)"
  using assms(1)
proof induction
  case base
  show ?case using assms(2) by simp
next
  case (step s' s'')
  then have ok: "handover_ok W s'" by blast
  note l = others_leave [OF step.hyps(2) ok assms(3,4)]
  have "handover_ok W s''" using handover_step_ok [OF others_step_handover] step.hyps(2) ok assms(4,5) by blast
  with step.IH l show ?case by (auto simp: owns_def busy_def)
qed

text \<open>The socket of an assigned slot has been accepted.\<close>

lemma assigned_accepted:
  assumes "handover_ok W s" "t \<in> W" "0 \<notin> W"
    and "i < length (h_queue s)" "cl_thread (h_queue s ! i) = t" "h_worker s t \<noteq> Copied i"
  shows "cl_socket (h_queue s ! i) \<in> set (h_accepted s)"
proof -
  have o: "owns s t i" using assms(4,5) by (simp add: owns_def)
  note own = owned [OF assms(1-3) o]
  have "t \<noteq> 0" using assms(2,3) by auto
  then have "\<not> busy s t i" using assms(1,2,5,6) by (auto simp: handover_ok_def workers_ok_def busy_def)
  then have "\<not> busy s t' i" if "t' \<in> W" for t' using own(3) that by (cases "t' = t") auto
  then have "at_slot W s i = {#cl_socket (h_queue s ! i)#}" using own(1,2) by (auto simp: at_slot_def waiting_def)
  then have "cl_socket (h_queue s ! i) \<in># in_queue W s"
    using assms(4) by (auto simp: in_queue_def set_mset_sum intro!: bexI [of _ i])
  then have "cl_socket (h_queue s ! i) \<in># mset (h_accepted s)" using assms(1) by (simp add: handover_ok_def)
  then show ?thesis by simp
qed

text \<open>What happens around a worker when the others take the steps from \<open>fst (run n)\<close> to \<open>snd (run n)\<close>
  before its \<open>n\<close>th look at the queue.\<close>

definition interleaved :: "(nat \<Rightarrow> handover \<times> handover) \<Rightarrow> machine \<Rightarrow> machine" where
  "interleaved run m = m\<lparr>mc_others := (\<lambda>n sh.
     if sh_queue sh = h_queue (fst (run n))
     then sh\<lparr>sh_queue := h_queue (snd (run n)), lazy_thread := h_lazy (snd (run n))\<rparr> else sh)\<rparr>"

lemma rely_interleaved:
  assumes "\<forall>k. reachable W n (fst (run k)) \<and> (others_step W (wk_tid wk))\<^sup>*\<^sup>* (fst (run k)) (snd (run k)) \<and>
      (\<forall>i. h_worker (fst (run k)) (wk_tid wk) \<noteq> Copied i) \<and> list_all good_fd (h_accepted (snd (run k)))"
    and "finite W" "0 \<notin> W" "wk_tid wk \<in> W"
  shows "rely (interleaved run m) wk"
  unfolding rely_def
proof (intro allI)
  fix k sh
  let ?t = "wk_tid wk" and ?s = "fst (run k)" and ?s' = "snd (run k)"
  have r: "reachable W n ?s" "(others_step W ?t)\<^sup>*\<^sup>* ?s ?s'" "\<forall>i. h_worker ?s ?t \<noteq> Copied i" "list_all good_fd (h_accepted ?s')"
    using assms(1) by auto
  have run: "handover_ok W ?s'" "length (h_queue ?s') = length (h_queue ?s)" "h_worker ?s' ?t = h_worker ?s ?t"
    "\<forall>i. owns ?s ?t i \<longrightarrow> owns ?s' ?t i \<and> h_queue ?s' ! i = h_queue ?s ! i"
    using others_run [OF r(2) reachable_ok [OF r(1) assms(2,3)] assms(4,3,2)] by auto
  have "queue_ok ?t (h_queue ?s')"
    using assigned_accepted [OF run(1) assms(4,3)] run(3) r(3) r(4) [unfolded list_all_iff]
    by (auto simp: queue_ok_def list_all_length)
  with run show "length (sh_queue (mc_others (interleaved run m) k sh)) = length (sh_queue sh) \<and>
     (queue_ok ?t (sh_queue sh) \<longrightarrow> queue_ok ?t (sh_queue (mc_others (interleaved run m) k sh))) \<and>
     (\<forall>i < length (sh_queue sh). cl_thread (sh_queue sh ! i) = ?t \<longrightarrow>
        sh_queue (mc_others (interleaved run m) k sh) ! i = sh_queue sh ! i)"
    by (auto simp: interleaved_def owns_def)
qed

section \<open>Taking a slot is one access\<close>

text \<open>The state in which the worker \<open>t\<close> has not yet begun to take slot \<open>i\<close>.\<close>

definition put_back :: "int \<Rightarrow> nat \<Rightarrow> handover \<Rightarrow> handover" where
  "put_back t i s = s\<lparr>h_queue := (h_queue s)[i := (h_queue s ! i)\<lparr>cl_thread := t\<rparr>],
     h_worker := (h_worker s)(t := Looking i), h_clients := (h_clients s)(t := butlast (h_clients s t))\<rparr>"

lemma put_back_fields:
  "h_main (put_back t i s) = h_main s" "h_lazy (put_back t i s) = h_lazy s" "h_closed (put_back t i s) = h_closed s"
  "h_accepted (put_back t i s) = h_accepted s" "length (h_queue (put_back t i s)) = length (h_queue s)"
  "t' \<noteq> t \<Longrightarrow> h_worker (put_back t i s) t' = h_worker s t'" "t' \<noteq> t \<Longrightarrow> h_clients (put_back t i s) t' = h_clients s t'"
  by (simp_all add: put_back_def)

lemma put_back_other: "j \<noteq> i \<Longrightarrow> h_queue (put_back t i s) ! j = h_queue s ! j"
  by (simp add: put_back_def)

lemma put_back_main:
  assumes "main_step s s'" "handover_ok W s" "t \<in> W" "0 \<notin> W" "owns s t i"
  shows "main_step (put_back t i s) (put_back t i s')"
proof -
  note own = owned [OF assms(2-5)]
  from assms(1) show ?thesis
  proof cases
    case (next_slot j)
    have eq: "put_back t i s' = (put_back t i s)\<lparr>h_main := Scanning (Suc j mod length (h_queue (put_back t i s)))\<rparr>"
      using next_slot(1) by (simp add: put_back_def)
    show ?thesis
      unfolding eq by (rule main_step.next_slot) (use next_slot assms(5) in \<open>auto simp: put_back_def owns_def nth_list_update\<close>)
  next
    case (prepare j)
    then have j: "j \<noteq> i" using own(1) by auto
    have eq: "put_back t i s' = (set_slot j (\<lambda>c. c\<lparr>cl_thread := 0\<rparr>) (put_back t i s))
        \<lparr>h_main := Prepared j\<rparr>"
      using prepare(1) j by (simp add: put_back_def list_update_swap)
    show ?thesis unfolding eq by (rule main_step.prepare) (use prepare in \<open>simp_all add: put_back_fields put_back_other j\<close>)
  next
    case (accepted j fd)
    then have j: "j \<noteq> i" using own(2) by auto
    have eq: "put_back t i s' = (set_slot j (\<lambda>c. c\<lparr>cl_socket := fd\<rparr>) (put_back t i s))
        \<lparr>h_main := Accepted j, h_accepted := h_accepted (put_back t i s) @ [fd]\<rparr>"
      using accepted(1) j by (simp add: put_back_def list_update_swap)
    show ?thesis unfolding eq by (rule main_step.accepted) (use accepted in \<open>simp_all add: put_back_fields put_back_other j\<close>)
  next
    case (refused j)
    then have j: "j \<noteq> i" using own(2) by auto
    have eq: "put_back t i s' = (set_slot j (\<lambda>c. c\<lparr>cl_socket := -1\<rparr>) (put_back t i s))
        \<lparr>h_main := Refused j\<rparr>"
      using refused(1) j by (simp add: put_back_def list_update_swap)
    show ?thesis unfolding eq by (rule main_step.refused) (use refused in \<open>simp_all add: put_back_fields put_back_other j\<close>)
  next
    case (clear j)
    then have j: "j \<noteq> i" using own(2) by auto
    have eq: "put_back t i s' = (set_slot j (\<lambda>c. c\<lparr>cl_socket := 0\<rparr>) (put_back t i s))
        \<lparr>h_main := Scanning 0\<rparr>"
      using clear(1) j by (simp add: put_back_def list_update_swap)
    show ?thesis unfolding eq by (rule main_step.clear) (use clear in \<open>simp_all add: put_back_fields put_back_other j\<close>)
  next
    case (assign j)
    then have j: "j \<noteq> i" using own(2) by auto
    have eq: "put_back t i s' = (set_slot j (\<lambda>c. c\<lparr>cl_thread := h_lazy (put_back t i s)\<rparr>) (put_back t i s))
        \<lparr>h_main := Scanning 0\<rparr>"
      using assign(1) j by (simp add: put_back_def list_update_swap)
    show ?thesis unfolding eq by (rule main_step.assign) (use assign in \<open>simp_all add: put_back_fields put_back_other j\<close>)
  qed
qed

lemma put_back_worker:
  assumes "slot_step t' s s'" "t' \<in> W" "t' \<noteq> t" "handover_ok W s" "t \<in> W" "0 \<notin> W" "owns s t i"
  shows "slot_step t' (put_back t i s) (put_back t i s')"
proof -
  note own = owned(3) [OF assms(4-7,2,3)]
  have i: "i < length (h_queue s)" using assms(7) by (simp add: owns_def)
  note w = put_back_fields(1-5) put_back_fields(6,7) [OF assms(3)] and q = put_back_other
  from assms(1) show ?thesis
  proof cases
    case (pass j)
    then have eq: "put_back t i s' = (put_back t i s)\<lparr>h_worker := (h_worker (put_back t i s))(t' :=
        Looking (Suc j mod length (h_queue (put_back t i s))))\<rparr>"
      using assms(3) by (simp add: put_back_def fun_upd_twist)
    have "cl_thread (h_queue (put_back t i s) ! j) \<noteq> t'"
      using pass assms(3) i by (cases "j = i") (simp_all add: put_back_def)
    with pass show ?thesis unfolding eq by (intro slot_step.pass) (simp_all add: w)
  next
    case (copy j)
    then have j: "j \<noteq> i" using own by auto
    have eq: "put_back t i s' = (put_back t i s)\<lparr>h_worker := (h_worker (put_back t i s))(t' := Copied j),
        h_clients := (h_clients (put_back t i s))(t' := h_clients (put_back t i s) t' @ [cl_socket (h_queue (put_back t i s) ! j)])\<rparr>"
      using copy(1) assms(3) j by (simp add: put_back_def fun_upd_twist)
    show ?thesis unfolding eq by (rule slot_step.copy) (use copy in \<open>simp_all add: w q j\<close>)
  next
    case (free_thread j)
    then have j: "j \<noteq> i" using own by (auto simp: busy_def)
    have eq: "put_back t i s' = (set_slot j (\<lambda>c. c\<lparr>cl_thread := 0\<rparr>) (put_back t i s))
        \<lparr>h_worker := (h_worker (put_back t i s))(t' := Freed j)\<rparr>"
      using free_thread(1) assms(3) j by (simp add: put_back_def fun_upd_twist list_update_swap)
    show ?thesis unfolding eq by (rule slot_step.free_thread) (use free_thread in \<open>simp add: w\<close>)
  next
    case (free_socket j)
    then have j: "j \<noteq> i" using own by (auto simp: busy_def)
    have eq: "put_back t i s' = (set_slot j (\<lambda>c. c\<lparr>cl_socket := 0\<rparr>) (put_back t i s))
        \<lparr>h_worker := (h_worker (put_back t i s))(t' := Looking (Suc j mod length (h_queue (put_back t i s))))\<rparr>"
      using free_socket(1) assms(3) j by (simp add: put_back_def fun_upd_twist list_update_swap)
    show ?thesis unfolding eq by (rule slot_step.free_socket) (use free_socket in \<open>simp add: w\<close>)
  next
    case (close_queued j)
    then have j: "j \<noteq> i" using own by auto
    have eq: "put_back t i s' = (put_back t i s)\<lparr>h_worker := (h_worker (put_back t i s))(t' := Copied j),
        h_closed := h_closed (put_back t i s) @ [cl_socket (h_queue (put_back t i s) ! j)]\<rparr>"
      using close_queued(1) assms(3) j by (simp add: put_back_def fun_upd_twist)
    show ?thesis unfolding eq by (rule slot_step.close_queued) (use close_queued in \<open>simp_all add: w q j\<close>)
  next
    case (reassign j)
    then have j: "j \<noteq> i" using own by auto
    have eq: "put_back t i s' = (set_slot j (\<lambda>c. c\<lparr>cl_thread := h_lazy (put_back t i s)\<rparr>) (put_back t i s))
        \<lparr>h_worker := (h_worker (put_back t i s))(t' := Looking (Suc j mod length (h_queue (put_back t i s))))\<rparr>"
      using reassign(1) assms(3) j by (simp add: put_back_def fun_upd_twist list_update_swap)
    show ?thesis unfolding eq by (rule slot_step.reassign) (use reassign in \<open>simp_all add: w q j\<close>)
  next
    case (close_client j fd)
    have eq: "put_back t i s' = (put_back t i s)\<lparr>h_clients := (h_clients (put_back t i s))(t' := remove1 fd (h_clients (put_back t i s) t')),
        h_closed := h_closed (put_back t i s) @ [fd]\<rparr>"
      using close_client(1) assms(3) by (simp add: put_back_def fun_upd_twist)
    show ?thesis unfolding eq by (rule slot_step.close_client) (use close_client in \<open>simp_all add: w\<close>)
  qed
qed

lemma put_back_others:
  assumes "others_step W t s s'" "handover_ok W s" "t \<in> W" "0 \<notin> W" "owns s t i"
  shows "others_step W t (put_back t i s) (put_back t i s')"
  using assms(1)
proof cases
  case by_main
  with put_back_main assms(2-5) show ?thesis by (blast intro: others_step.by_main)
next
  case (by_worker t')
  with put_back_worker assms(2-5) show ?thesis by (blast intro: others_step.by_worker)
next
  case (new_laziest t')
  then have "put_back t i s' = (put_back t i s)\<lparr>h_lazy := t'\<rparr>" by (simp add: put_back_def)
  with new_laziest(2) show ?thesis by (simp add: others_step.new_laziest)
qed

lemma put_back_run:
  assumes "(others_step W t)\<^sup>*\<^sup>* s s'" "handover_ok W s" "t \<in> W" "0 \<notin> W" "finite W" "owns s t i"
  shows "(others_step W t)\<^sup>*\<^sup>* (put_back t i s) (put_back t i s')"
  using assms(1)
proof induction
  case (step s' s'')
  have "handover_ok W s'" "owns s' t i" using others_run [OF step.hyps(1) assms(2-5)] assms(6) by auto
  with put_back_others [OF step.hyps(2) _ assms(3,4)] step.IH show ?case by (metis rtranclp.rtrancl_into_rtrancl)
qed simp

text \<open>The three accesses of a worker that takes a slot, with any steps of the others between them: the others could as
  well take their steps first.\<close>

lemma taking_is_atomic:
  assumes "reachable W n s" "finite W" "0 \<notin> W" "t \<in> W"
    and "h_worker s t = Looking i" "slot_step t s s1" "h_worker s1 t = Copied i" "h_closed s1 = h_closed s"
    and "(others_step W t)\<^sup>*\<^sup>* s1 s2" "slot_step t s2 s3" "(others_step W t)\<^sup>*\<^sup>* s3 s4" "slot_step t s4 s5"
  shows "\<exists>u u1 u2. (others_step W t)\<^sup>*\<^sup>* s u \<and> slot_step t u u1 \<and> slot_step t u1 u2 \<and> slot_step t u2 s5 \<and>
    h_queue s5 = (h_queue u)[i := release_slot (h_queue u ! i)] \<and>
    h_clients s5 t = h_clients u t @ [cl_socket (take_slot (h_queue u ! i))] \<and> h_accepted u = h_accepted s4 \<and>
    i < length (h_queue u) \<and> cl_thread (h_queue u ! i) = t \<and> h_clients u t = h_clients s t"
proof -
  have c: "s1 = s\<lparr>h_worker := (h_worker s)(t := Copied i), h_clients := (h_clients s)(t := h_clients s t @ [cl_socket (h_queue s ! i)])\<rparr>"
    "i < length (h_queue s)" "cl_thread (h_queue s ! i) = t"
    using assms(6) assms(5,7,8) by (auto elim!: slot_stepE)
  have ok: "handover_ok W s" by (rule reachable_ok [OF assms(1-3)])
  have ok1: "handover_ok W s1" by (rule slot_step_ok [OF assms(6) ok assms(4,3,2)])
  have o1: "owns s1 t i" using c by (simp add: owns_def)
  note r1 = others_run [OF assms(9) ok1 assms(4,3,2)]
  then have w2: "h_worker s2 t = Copied i" and o2: "owns s2 t i" and ok2: "handover_ok W s2"
    and c2: "h_clients s2 t = h_clients s t @ [cl_socket (h_queue s ! i)]" "h_queue s2 ! i = h_queue s ! i"
    using c o1 by auto
  have f: "s3 = (set_slot i (\<lambda>c. c\<lparr>cl_thread := 0\<rparr>) s2)\<lparr>h_worker := (h_worker s2)(t := Freed i)\<rparr>"
    using assms(10) w2 by (auto elim!: slot_stepE)
  have ok3: "handover_ok W s3" by (rule slot_step_ok [OF assms(10) ok2 assms(4,3,2)])
  have o3: "owns s3 t i" using f o2 by (simp add: owns_def busy_def)
  note r3 = others_run [OF assms(11) ok3 assms(4,3,2)]
  have i2: "i < length (h_queue s2)" using o2 by (simp add: owns_def)
  have w4: "h_worker s4 t = Freed i" and o4: "owns s4 t i" and c4: "h_clients s4 t = h_clients s t @ [cl_socket (h_queue s ! i)]"
    and q4: "h_queue s4 ! i = (h_queue s ! i)\<lparr>cl_thread := 0\<rparr>"
    using r3 o3 i2 c2 by (auto simp: f)
  have i4: "i < length (h_queue s4)" using o4 by (simp add: owns_def)
  have g: "s5 = (set_slot i (\<lambda>c. c\<lparr>cl_socket := 0\<rparr>) s4)\<lparr>h_worker := (h_worker s4)(t := Looking (Suc i mod length (h_queue s4)))\<rparr>"
    using assms(12) w4 by (auto elim!: slot_stepE)
  have "put_back t i s1 = s"
    using c assms(5) by (cases s) (simp add: put_back_def fun_upd_idem list_update_same_conv)
  moreover have "put_back t i s3 = put_back t i s2" using i2 by (simp add: put_back_def f)
  ultimately have u: "(others_step W t)\<^sup>*\<^sup>* s (put_back t i s4)"
    using put_back_run [OF assms(9) ok1 assms(4,3,2) o1] put_back_run [OF assms(11) ok3 assms(4,3,2) o3]
    by (metis rtranclp_trans)
  have p: "h_worker (put_back t i s4) t = Looking i" "i < length (h_queue (put_back t i s4))"
    "cl_thread (h_queue (put_back t i s4) ! i) = t" "h_queue (put_back t i s4) ! i = (h_queue s ! i)\<lparr>cl_thread := t\<rparr>"
    "h_clients (put_back t i s4) t = h_clients s t"
    using i4 q4 c4 by (simp_all add: put_back_def)
  define u1 where "u1 = (put_back t i s4)\<lparr>h_worker := (h_worker (put_back t i s4))(t := Copied i),
    h_clients := (h_clients (put_back t i s4))(t := h_clients (put_back t i s4) t @ [cl_socket (h_queue (put_back t i s4) ! i)])\<rparr>"
  have "slot_step t (put_back t i s4) u1" unfolding u1_def by (rule slot_step.copy) (use p in simp_all)
  moreover have "s4 = (set_slot i (\<lambda>c. c\<lparr>cl_thread := 0\<rparr>) u1)\<lparr>h_worker := (h_worker u1)(t := Freed i)\<rparr>"
    using i4 w4 c4 q4 list_update_id [of "h_queue s4" i, unfolded q4]
    by (cases s4) (simp add: u1_def put_back_def fun_upd_idem)
  then have "slot_step t u1 s4" by (rule ssubst) (rule slot_step.free_thread, simp add: u1_def)
  moreover have "h_queue s5 = (h_queue (put_back t i s4))[i := release_slot (h_queue (put_back t i s4) ! i)]"
    using i4 q4 by (simp add: g release_slot_def put_back_def)
  moreover have "h_clients s5 t = h_clients (put_back t i s4) t @ [cl_socket (take_slot (h_queue (put_back t i s4) ! i))]"
    using p c4 by (simp add: g take_slot_def)
  ultimately show ?thesis using u assms(12) p put_back_fields(4) by blast
qed

text \<open>\<open>copy_slot\<close> on a slot that is assigned to the worker, when it gets the memory that it may need.\<close>

lemma copy_slot_takes:
  assumes "thread_ok wk x" "rely m wk" "c \<le> length (th_clients x)" "\<forall>n. mc_realloc m n"
    and "q = sh_queue (th_shared (sync m x))" "i < length q" "cl_thread (q ! i) = wk_tid wk"
  shows "\<exists>c' x'. copy_slot m wk i c x = Some (Done (c', x')) \<and> sh_queue (th_shared x') = q[i := release_slot (q ! i)] \<and>
    sockets (th_clients x') = sockets (th_clients x) + {#cl_socket (q ! i)#}"
proof -
  define k where "k = find_free (th_clients x) c (length (th_clients x) - c)"
  have k: "k \<le> length (th_clients x)" "k < length (th_clients x) \<Longrightarrow> cl_socket (th_clients x ! k) = 0"
    using find_free_bounds [of c "length (th_clients x) - c" "th_clients x"] assms(3) by (auto simp: k_def)
  have "queue_ok (wk_tid wk) q" using sync_ok(1) [OF assms(2,1)] assms(5) by (simp add: thread_ok_def)
  then have "cl_socket (q ! i) \<noteq> 0" using assms(6,7) by (auto simp: queue_ok_def list_all_length good_fd_def)
  then have "k < length (th_clients x) \<Longrightarrow> sockets ((th_clients x)[k := take_slot (q ! i)]) = sockets (th_clients x) + {#cl_socket (q ! i)#}"
    "sockets (th_clients x @ [take_slot (q ! i)]) = sockets (th_clients x) + {#cl_socket (q ! i)#}"
    using k(2) sockets_update [of k "th_clients x" "take_slot (q ! i)"] by (auto simp: take_slot_def)
  then show ?thesis
    using assms(4,6,7) k(1) sync_ok(3) [OF assms(2,1)]
    by (cases "k = length (th_clients x)")
      (auto simp: copy_slot_def slot_def Let_def assms(5) [symmetric] k_def [symmetric] tick_def)
qed

section \<open>Properties\<close>

text \<open>C3: the other threads of the tracker are what a worker relies on. Let the main thread and the other workers
  take any steps before each look of a worker at the queue, from any reachable state in which the worker is not in
  the middle of taking a slot: they leave the slots alone that are assigned to it, and assign to it only
  accepted sockets.\<close>

theorem others_satisfy_rely:
  assumes "\<forall>k. reachable W n (fst (run k)) \<and> (others_step W (wk_tid wk))\<^sup>*\<^sup>* (fst (run k)) (snd (run k)) \<and>
      (\<forall>i. h_worker (fst (run k)) (wk_tid wk) \<noteq> Copied i) \<and> list_all good_fd (h_accepted (snd (run k)))"
    and "finite W" "0 \<notin> W" "wk_tid wk \<in> W"
  shows "rely (interleaved run m) wk"
  by (rule rely_interleaved [OF assms])

text \<open>C4: the code takes a slot in three accesses, \<open>copy_slot\<close> in one: every interleaving is covered. When a worker copies a
  connection out of a slot, clears the \<open>thread\<close> and then the \<open>socket\<close> of the slot, and the main thread and the
  other workers take any steps between these, there is a behaviour of the others before \<open>copy_slot\<close> with which it
  returns the same queue and the same clients.\<close>

theorem copy_slot_covers_interleavings:
  assumes "reachable W n s" "finite W" "0 \<notin> W" "wk_tid wk \<in> W"
    and "h_worker s (wk_tid wk) = Looking i" "slot_step (wk_tid wk) s s1" "h_worker s1 (wk_tid wk) = Copied i" "h_closed s1 = h_closed s"
    and "(others_step W (wk_tid wk))\<^sup>*\<^sup>* s1 s2" "slot_step (wk_tid wk) s2 s3"
    and "(others_step W (wk_tid wk))\<^sup>*\<^sup>* s3 s4" "slot_step (wk_tid wk) s4 s5"
    and "thread_ok wk x" "sh_queue (th_shared x) = h_queue s" "sockets (th_clients x) = mset (h_clients s (wk_tid wk))"
    and "c \<le> length (th_clients x)" "\<forall>n. mc_realloc m n" "list_all good_fd (h_accepted s4)"
  shows "\<exists>u. (others_step W (wk_tid wk))\<^sup>*\<^sup>* s u \<and>
    (\<exists>c' x'. copy_slot (interleaved (\<lambda>_. (s, u)) m) wk i c x = Some (Done (c', x')) \<and>
      sh_queue (th_shared x') = h_queue s5 \<and> sockets (th_clients x') = mset (h_clients s5 (wk_tid wk)))"
proof -
  obtain u u1 u2 where u: "(others_step W (wk_tid wk))\<^sup>*\<^sup>* s u" "slot_step (wk_tid wk) u u1" "slot_step (wk_tid wk) u1 u2"
    "slot_step (wk_tid wk) u2 s5" "h_queue s5 = (h_queue u)[i := release_slot (h_queue u ! i)]"
    "h_clients s5 (wk_tid wk) = h_clients u (wk_tid wk) @ [cl_socket (take_slot (h_queue u ! i))]" "h_accepted u = h_accepted s4"
    "i < length (h_queue u)" "cl_thread (h_queue u ! i) = wk_tid wk" "h_clients u (wk_tid wk) = h_clients s (wk_tid wk)"
    using taking_is_atomic [OF assms(1-12)] by blast
  let ?m = "interleaved (\<lambda>_. (s, u)) m"
  have "rely ?m wk"
    by (rule rely_interleaved [where W = W and n = n]) (use assms u in auto)
  moreover have "h_queue u = sh_queue (th_shared (sync ?m x))" by (simp add: interleaved_def sync_def assms(14))
  moreover have "\<forall>n. mc_realloc ?m n" using assms(17) by (simp add: interleaved_def)
  ultimately obtain c' x' where "copy_slot ?m wk i c x = Some (Done (c', x'))"
    "sh_queue (th_shared x') = (h_queue u)[i := release_slot (h_queue u ! i)]"
    "sockets (th_clients x') = sockets (th_clients x) + {#cl_socket (h_queue u ! i)#}"
    using copy_slot_takes [OF assms(13) _ assms(16)] u(8,9) by blast
  with u show ?thesis by (auto simp: take_slot_def assms(15))
qed

text \<open>Steps of the workers only.\<close>

inductive workers_step :: "int set \<Rightarrow> handover \<Rightarrow> handover \<Rightarrow> bool" for W where
  slots: "t \<in> W \<Longrightarrow> slot_step t s s' \<Longrightarrow> workers_step W s s'"
| load: "t \<in> W \<Longrightarrow> workers_step W s (s\<lparr>h_lazy := t\<rparr>)"

lemma workers_run:
  assumes "(workers_step W)\<^sup>*\<^sup>* s s'"
  shows "h_main s' = h_main s \<and> h_accepted s' = h_accepted s \<and> length (h_queue s') = length (h_queue s)"
  using assms by induction (auto elim!: workers_step.cases slot_stepE)

text \<open>C5: the main thread prepares a slot, accepts a connection into it and assigns it, in three accesses to the queue, and
  \<open>accept_into\<close> looks at the queue between them as the code does: every interleaving with steps of the workers is covered.
  The connection ends up assigned to the worker that is the laziest at the end.\<close>

theorem accept_into_covers_interleavings:
  fixes m :: machine
  assumes "h_main h = Scanning i" "main_step h h1" "h_main h1 = Prepared i"
    and "(workers_step W)\<^sup>*\<^sup>* h1 h2" "main_step h2 h3" "h_main h3 = Accepted i"
    and "(workers_step W)\<^sup>*\<^sup>* h3 h4" "main_step h4 h5"
    and "sh_queue (sv_shared s) = h_queue h" "run (sv_clock s) = (h1, h2)" "run (Suc (sv_clock s)) = (h3, h4)"
    and "h_accepted h3 = h_accepted h2 @ [sy_accept y (Suc (sv_clock s))]" "sy_accept y (Suc (sv_clock s)) \<noteq> -1"
  defines "s' \<equiv> accept_into y (interleaved run m) i s"
  shows "sh_queue (sv_shared s') = h_queue h5 \<and> lazy_thread (sv_shared s') = h_lazy h5 \<and>
    h_accepted h5 = h_accepted h @ [sy_accept y (Suc (sv_clock s))] \<and> cl_thread (h_queue h5 ! i) = h_lazy h5"
proof -
  have h1: "h1 = (set_slot i (\<lambda>c. c\<lparr>cl_thread := 0\<rparr>) h)\<lparr>h_main := Prepared i\<rparr>" "i < length (h_queue h)"
    using assms(2) assms(1,3) by (auto elim!: main_stepE)
  have "h_main h2 = Prepared i" using workers_run [OF assms(4)] assms(3) by simp
  then obtain fd where "h3 = (set_slot i (\<lambda>c. c\<lparr>cl_socket := fd\<rparr>) h2)\<lparr>h_main := Accepted i, h_accepted := h_accepted h2 @ [fd]\<rparr>"
    using assms(5,6) by (auto elim!: main_stepE)
  then have h3: "h3 = (set_slot i (\<lambda>c. c\<lparr>cl_socket := sy_accept y (Suc (sv_clock s))\<rparr>) h2)
      \<lparr>h_main := Accepted i, h_accepted := h_accepted h2 @ [sy_accept y (Suc (sv_clock s))]\<rparr>"
    using assms(12) by simp
  have "h_main h4 = Accepted i" using workers_run [OF assms(7)] assms(6) by simp
  then have h5: "h5 = (set_slot i (\<lambda>c. c\<lparr>cl_thread := h_lazy h4\<rparr>) h4)\<lparr>h_main := Scanning 0\<rparr>"
    using assms(8) by (auto elim!: main_stepE)
  have len: "length (h_queue h2) = length (h_queue h1)" "length (h_queue h4) = length (h_queue h3)"
    using workers_run [OF assms(4)] workers_run [OF assms(7)] by auto
  have "h_accepted h5 = h_accepted h @ [sy_accept y (Suc (sv_clock s))]"
    using workers_run [OF assms(4)] workers_run [OF assms(7)] by (simp add: h5 h3 h1(1))
  moreover have "sh_queue (sv_shared s') = h_queue h5" "lazy_thread (sv_shared s') = h_lazy h5"
    using assms(9-11,13)
    by (simp_all add: s'_def accept_into_def Let_def set_queue_def sv_sync_def interleaved_def h5 h3 h1(1))
  ultimately show ?thesis using h1(2) len by (simp add: h5 h3 h1(1))
qed

section \<open>Witnesses\<close>

text \<open>A queue of one slot: a connection is accepted, assigned to worker 1 and taken, while the main thread looks on.\<close>

definition slot_of :: "int \<Rightarrow> int \<Rightarrow> client" where
  "slot_of tid fd = \<lparr>cl_thread = tid, cl_socket = fd, cl_recv_iter = 0\<rparr>"

definition stage :: "main_pc \<Rightarrow> worker_pc \<Rightarrow> client \<Rightarrow> int list \<Rightarrow> int list \<Rightarrow> handover" where
  "stage mpc wpc c cs acc = \<lparr>h_queue = [c], h_main = mpc, h_worker = (\<lambda>_. Looking 0)(1 := wpc), h_clients = (\<lambda>_. [])(1 := cs),
     h_lazy = 1, h_accepted = acc, h_closed = []\<rparr>"

lemma stage_start: "reachable {1} 1 (stage (Scanning 0) (Looking 0) fresh_slot [] [])"
  by (rule reachable.start) (simp_all add: stage_def)

lemma stage_main:
  "main_step (stage (Scanning 0) (Looking 0) fresh_slot [] []) (stage (Prepared 0) (Looking 0) (slot_of 0 0) [] [])"
  "main_step (stage (Prepared 0) (Looking 0) (slot_of 0 0) [] []) (stage (Accepted 0) (Looking 0) (slot_of 0 5) [] [5])"
  "main_step (stage (Accepted 0) (Looking 0) (slot_of 0 5) [] [5]) (stage (Scanning 0) (Looking 0) (slot_of 1 5) [] [5])"
  "main_step (stage (Scanning 0) (Copied 0) (slot_of 1 5) [5] [5]) (stage (Scanning 0) (Copied 0) (slot_of 1 5) [5] [5])"
  using main_step.prepare [of "stage (Scanning 0) (Looking 0) fresh_slot [] []" 0]
    main_step.accepted [of "stage (Prepared 0) (Looking 0) (slot_of 0 0) [] []" 0 5]
    main_step.assign [of "stage (Accepted 0) (Looking 0) (slot_of 0 5) [] [5]" 0]
    main_step.next_slot [of "stage (Scanning 0) (Copied 0) (slot_of 1 5) [5] [5]" 0]
  by (simp_all add: stage_def slot_of_def fresh_slot_def)

lemma stage_worker:
  "slot_step 1 (stage (Scanning 0) (Looking 0) (slot_of 1 5) [] [5]) (stage (Scanning 0) (Copied 0) (slot_of 1 5) [5] [5])"
  "slot_step 1 (stage (Scanning 0) (Copied 0) (slot_of 1 5) [5] [5]) (stage (Scanning 0) (Freed 0) (slot_of 0 5) [5] [5])"
  "slot_step 1 (stage (Scanning 0) (Freed 0) (slot_of 0 5) [5] [5]) (stage (Scanning 0) (Looking 0) (slot_of 0 0) [5] [5])"
  using slot_step.copy [of "stage (Scanning 0) (Looking 0) (slot_of 1 5) [] [5]" 1 0]
    slot_step.free_thread [of "stage (Scanning 0) (Copied 0) (slot_of 1 5) [5] [5]" 1 0]
    slot_step.free_socket [of "stage (Scanning 0) (Freed 0) (slot_of 0 5) [5] [5]" 1 0]
  by (simp_all add: stage_def slot_of_def)

lemma stage_assigned:
  "(others_step {1} 1)\<^sup>*\<^sup>* (stage (Scanning 0) (Looking 0) fresh_slot [] []) (stage (Scanning 0) (Looking 0) (slot_of 1 5) [] [5])"
  "reachable {1} 1 (stage (Scanning 0) (Looking 0) (slot_of 1 5) [] [5])"
  using stage_main(1-3) stage_start
  by (meson others_step.by_main r_into_rtranclp rtranclp.rtrancl_into_rtrancl, meson handover_step.main reachable.step)

definition assigning :: "handover \<times> handover" where
  "assigning = (stage (Scanning 0) (Looking 0) fresh_slot [] [], stage (Scanning 0) (Looking 0) (slot_of 1 5) [] [5])"

theorem others_satisfy_rely_witness:
  "rely (interleaved (\<lambda>_. assigning) (quiet_machine True)) sample_worker"
proof (rule others_satisfy_rely [where W = "{1}" and n = 1], rule allI, intro conjI)
  show "reachable {1} 1 (fst assigning)" using stage_start by (simp add: assigning_def)
  show "(others_step {1} (wk_tid sample_worker))\<^sup>*\<^sup>* (fst assigning) (snd assigning)"
    using stage_assigned(1) by (simp add: assigning_def sample_worker_def)
qed (simp_all add: assigning_def sample_worker_def stage_def good_fd_def FD_SETSIZE_def)

definition one_slot_thread :: "mem_db thread" where
  "one_slot_thread = \<lparr>th_clients = [], th_active = 0,
     th_shared = \<lparr>sh_queue = [slot_of 1 5], lazy_thread = 1, lazy_active = 0, killserver = False\<rparr>,
     th_world = sample_world swarm_db, th_clock = 0\<rparr>"

theorem copy_slot_covers_interleavings_witness:
  "\<exists>u c' x'. copy_slot (interleaved (\<lambda>_. (stage (Scanning 0) (Looking 0) (slot_of 1 5) [] [5], u)) (quiet_machine True))
       (sample_worker\<lparr>wk_queuesize := 1\<rparr>) 0 0 one_slot_thread = Some (Done (c', x')) \<and> sh_queue (th_shared x') = [slot_of 0 0] \<and>
     sockets (th_clients x') = {#5#}"
proof -
  let ?wk = "sample_worker\<lparr>wk_queuesize := 1\<rparr>"
  let ?s = "stage (Scanning 0) (Looking 0) (slot_of 1 5) [] [5]" and ?s1 = "stage (Scanning 0) (Copied 0) (slot_of 1 5) [5] [5]"
    and ?s3 = "stage (Scanning 0) (Freed 0) (slot_of 0 5) [5] [5]" and ?s5 = "stage (Scanning 0) (Looking 0) (slot_of 0 0) [5] [5]"
  have t: "wk_tid ?wk = 1" by (simp add: sample_worker_def)
  have p: "h_worker ?s 1 = Looking 0" "h_worker ?s1 1 = Copied 0" "h_closed ?s1 = h_closed ?s"
    "sh_queue (th_shared one_slot_thread) = h_queue ?s" "sockets (th_clients one_slot_thread) = mset (h_clients ?s 1)"
    "0 \<le> length (th_clients one_slot_thread)" "list_all good_fd (h_accepted ?s3)"
    by (simp_all add: stage_def one_slot_thread_def good_fd_def FD_SETSIZE_def)
  have ok: "thread_ok ?wk one_slot_thread"
    by (simp add: thread_ok_def one_slot_thread_def sample_worker_def queue_ok_def slot_of_def good_fd_def FD_SETSIZE_def)
  have o: "(others_step {1} 1)\<^sup>*\<^sup>* ?s1 ?s1" using stage_main(4) by (blast intro: others_step.by_main)
  have "h_queue ?s5 = [slot_of 0 0]" "mset (h_clients ?s5 1) = {#5#}" by (simp_all add: stage_def)
  then show ?thesis
    using copy_slot_covers_interleavings [where wk = ?wk, unfolded t, OF stage_assigned(2) _ _ _ p(1) stage_worker(1) p(2,3) o
        stage_worker(2) rtranclp.rtrancl_refl stage_worker(3) ok p(4-6) sample_thread_facts(3) p(7)] by fastforce
qed

definition accepting :: "nat \<Rightarrow> handover \<times> handover" where
  "accepting k = (let h = (if k = 0 then stage (Prepared 0) (Looking 0) (slot_of 0 0) [] []
     else stage (Accepted 0) (Looking 0) (slot_of 0 5) [] [5]) in (h, h))"

theorem accept_into_covers_interleavings_witness:
  "sh_queue (sv_shared (accept_into (sample_system 5) (interleaved accepting (quiet_machine True)) 0 (sample_server [0]))) = [slot_of 1 5]"
proof -
  let ?h = "stage (Scanning 0) (Looking 0) (slot_of 1 0) [] []" and ?h5 = "stage (Scanning 0) (Looking 0) (slot_of 1 5) [] [5]"
    and ?h1 = "stage (Prepared 0) (Looking 0) (slot_of 0 0) [] []" and ?h3 = "stage (Accepted 0) (Looking 0) (slot_of 0 5) [] [5]"
  have "main_step ?h ?h1"
    using main_step.prepare [of ?h 0] by (simp add: stage_def slot_of_def)
  moreover have "h_main ?h = Scanning 0" "h_main ?h1 = Prepared 0" "h_main ?h3 = Accepted 0" "h_accepted ?h3 = h_accepted ?h1 @ [5]"
    "sh_queue (sv_shared (sample_server [0])) = h_queue ?h" "sv_clock (sample_server [0]) = 0"
    "sy_accept (sample_system 5) k = 5" "accepting 0 = (?h1, ?h1)" "accepting (Suc 0) = (?h3, ?h3)" for k
    by (simp_all add: stage_def sample_server_def slot_of_def sample_system_def accepting_def Let_def)
  moreover have "(workers_step {1})\<^sup>*\<^sup>* s s" for s by simp
  ultimately show ?thesis
    using accept_into_covers_interleavings [of ?h 0 ?h1 "{1}" ?h1 ?h3 ?h3 ?h5 "sample_server [0]" accepting
        "sample_system 5" "quiet_machine True"] stage_main(2,3)
    by simp (simp add: stage_def)
qed

end
